(* ===== verification/Prelude.thy ===== *)
theory Prelude
  imports Main
begin

text \<open>
  Shared vocabulary of the development: the collections of rewrite rules the component
  theories feed, and generic facts about lists that several components need (bounded
  slices, the first position of an element, adjacent pairs of a sorted list).
\<close>

named_theorems js_simps
named_theorems guard_simps

section \<open>Lists\<close>

definition sublist_at :: "'a list \<Rightarrow> nat \<Rightarrow> nat \<Rightarrow> 'a list" where
  "sublist_at xs i j = take (j - i) (drop i xs)"

lemma length_sublist_at [simp]:
  "length (sublist_at xs i j) = min (j - i) (length xs - i)"
  by (simp add: sublist_at_def min_def)

lemma sublist_at_full [simp]: "sublist_at xs 0 (length xs) = xs"
  by (simp add: sublist_at_def)

lemma sublist_at_empty [simp]: "j \<le> i \<Longrightarrow> sublist_at xs i j = []"
  by (simp add: sublist_at_def)

lemma nth_sublist_at:
  "i + k < j \<Longrightarrow> j \<le> length xs \<Longrightarrow> sublist_at xs i j ! k = xs ! (i + k)"
  by (simp add: sublist_at_def)

lemma sublist_at_append:
  "i \<le> j \<Longrightarrow> j \<le> k \<Longrightarrow> sublist_at xs i j @ sublist_at xs j k = sublist_at xs i k"
proof -
  assume "i \<le> j" and "j \<le> k"
  then have "drop j xs = drop (j - i) (drop i xs)" and "k - i = (j - i) + (k - j)"
    by simp_all
  then show ?thesis
    by (simp only: sublist_at_def take_add)
qed

lemma set_sublist_at: "set (sublist_at xs i j) \<subseteq> set xs"
  by (auto simp: sublist_at_def dest: in_set_takeD in_set_dropD)

text \<open>The number of leading elements that satisfy a predicate, at most a bound: the
  shape of the scanners' bounded inner loops.\<close>

fun count_while :: "('a \<Rightarrow> bool) \<Rightarrow> nat \<Rightarrow> 'a list \<Rightarrow> nat" where
  "count_while p 0 xs = 0"
| "count_while p (Suc n) [] = 0"
| "count_while p (Suc n) (x # xs) = (if p x then Suc (count_while p n xs) else 0)"

lemma count_while_le: "count_while p n xs \<le> n" and
  count_while_length: "count_while p n xs \<le> length xs"
  by (induction p n xs rule: count_while.induct) auto

lemma count_while_all:
  "k < count_while p n xs \<Longrightarrow> p (xs ! k)"
proof (induction p n xs arbitrary: k rule: count_while.induct)
  case (3 p n x xs)
  then show ?case by (cases k) (auto split: if_splits)
qed auto

lemma count_while_stop:
  "count_while p n xs < n \<Longrightarrow> count_while p n xs < length xs \<Longrightarrow> \<not> p (xs ! count_while p n xs)"
  by (induction p n xs rule: count_while.induct) auto

text \<open>Chains: every adjacent pair is related.\<close>

fun chain :: "('a \<Rightarrow> 'a \<Rightarrow> bool) \<Rightarrow> 'a list \<Rightarrow> bool" where
  "chain r (x # y # zs) = (r x y \<and> chain r (y # zs))"
| "chain r _ = True"

lemma chain_sorted_wrt:
  assumes "\<And>x y z. r x y \<Longrightarrow> r y z \<Longrightarrow> r x z"
  shows "chain r xs \<longleftrightarrow> sorted_wrt r xs"
  using assms
proof (induction r xs rule: chain.induct)
  case (1 r x y zs)
  then show ?case by (auto intro: "1.prems")
qed auto

lemma chain_append:
  "chain r (xs @ [y]) \<longleftrightarrow> chain r xs \<and> (xs \<noteq> [] \<longrightarrow> r (last xs) y)"
proof (induction r xs rule: chain.induct)
  case (1 r x y' zs)
  then show ?case by simp
qed auto

lemma chain_mono:
  "chain r xs \<Longrightarrow> (\<And>x y. x \<in> set xs \<Longrightarrow> y \<in> set xs \<Longrightarrow> r x y \<Longrightarrow> q x y) \<Longrightarrow> chain q xs"
  by (induction r xs rule: chain.induct) auto

text \<open>Stable insertion sort: the model of \<open>Array.prototype.sort\<close>, which ECMAScript
  requires to be stable, for comparators that are total preorders.\<close>

fun insert_by :: "('a \<Rightarrow> 'a \<Rightarrow> bool) \<Rightarrow> 'a \<Rightarrow> 'a list \<Rightarrow> 'a list" where
  "insert_by le x [] = [x]"
| "insert_by le x (y # ys) = (if le x y then x # y # ys else y # insert_by le x ys)"

fun sort_by :: "('a \<Rightarrow> 'a \<Rightarrow> bool) \<Rightarrow> 'a list \<Rightarrow> 'a list" where
  "sort_by le [] = []"
| "sort_by le (x # xs) = insert_by le x (sort_by le xs)"

lemma set_insert_by [simp]: "set (insert_by le x ys) = insert x (set ys)"
  by (induction ys) auto

lemma set_sort_by [simp]: "set (sort_by le xs) = set xs"
  by (induction xs) auto

lemma length_insert_by [simp]: "length (insert_by le x ys) = Suc (length ys)"
  by (induction ys) auto

lemma length_sort_by [simp]: "length (sort_by le xs) = length xs"
  by (induction xs) auto

lemma sorted_insert_by:
  assumes "\<And>x y. le x y \<or> le y x" and "\<And>x y z. le x y \<Longrightarrow> le y z \<Longrightarrow> le x z"
  shows "sorted_wrt le ys \<Longrightarrow> sorted_wrt le (insert_by le x ys)"
proof (induction ys)
  case Nil
  then show ?case by simp
next
  case (Cons y ys)
  show ?case
  proof (cases "le x y")
    case True
    with Cons.prems show ?thesis by (auto intro: assms(2))
  next
    case False
    with assms(1) have "le y x" by blast
    with Cons False show ?thesis by auto
  qed
qed

lemma sorted_sort_by:
  assumes "\<And>x y. le x y \<or> le y x" and "\<And>x y z. le x y \<Longrightarrow> le y z \<Longrightarrow> le x z"
  shows "sorted_wrt le (sort_by le xs)"
  by (induction xs) (auto intro!: sorted_insert_by assms(1) intro: assms(2))

section \<open>Option and error results\<close>

lemma option_not_None: "(x \<noteq> None) = (\<exists>y. x = Some y)"
  by (cases x) auto

lemma find_Some_set: "find p xs = Some x \<Longrightarrow> x \<in> set xs \<and> p x"
  by (induction xs) (auto split: if_splits)

lemma find_None_all: "find p xs = None \<Longrightarrow> x \<in> set xs \<Longrightarrow> \<not> p x"
  by (induction xs) (auto split: if_splits)

text \<open>Sequencing of fallible steps: the error of the first, or the second on its value.\<close>

definition and_then :: "'e + 'a \<Rightarrow> ('a \<Rightarrow> 'e + 'b) \<Rightarrow> 'e + 'b" where
  "and_then r f = (case r of Inl e \<Rightarrow> Inl e | Inr x \<Rightarrow> f x)"

lemma and_then_simps [simp]: "and_then (Inl e) f = Inl e" "and_then (Inr x) f = f x"
  by (simp_all add: and_then_def)

lemma and_then_Inr: "and_then r f = Inr y \<longleftrightarrow> (\<exists>x. r = Inr x \<and> f x = Inr y)"
  by (cases r) auto

lemma and_then_cong [fundef_cong]:
  "r = r' \<Longrightarrow> (\<And>x. r' = Inr x \<Longrightarrow> f x = f' x) \<Longrightarrow> and_then r f = and_then r' f'"
  by (cases r) auto

text \<open>Running a fallible step over a list, stopping at the first error.\<close>

fun map_result :: "('a \<Rightarrow> 'e + 'b) \<Rightarrow> 'a list \<Rightarrow> 'e + 'b list" where
  "map_result f [] = Inr []"
| "map_result f (x # xs) =
     (case f x of Inl e \<Rightarrow> Inl e
      | Inr y \<Rightarrow> (case map_result f xs of Inl e \<Rightarrow> Inl e | Inr ys \<Rightarrow> Inr (y # ys)))"

lemma map_result_Inr:
  "map_result f xs = Inr ys \<Longrightarrow> length ys = length xs \<and> (\<forall>i < length xs. f (xs ! i) = Inr (ys ! i))"
proof (induction xs arbitrary: ys)
  case (Cons x xs)
  then show ?case
    by (auto split: sum.splits simp: less_Suc_eq_0_disj)
qed simp

end
