(* ===== verification/Js_String.thy ===== *)
theory Js_String
  imports Prelude "HOL-Library.Char_ord"
begin

text \<open>
  JavaScript strings. A string is its list of UTF-16 code units (\<open>charCodeAt\<close> values,
  naturals below 65536); offsets everywhere in the program are offsets into that list. The
  theory models the string operations of the standard library the program uses: slicing,
  \<open>indexOf\<close>, \<open>startsWith\<close>, iteration by code point, \<open>TextEncoder\<close> and the
  fatal \<open>TextDecoder\<close> for UTF-8.
\<close>

type_synonym ustring = "nat list"

definition js :: "string \<Rightarrow> ustring" where
  "js = map of_char"

section \<open>Slices and searches\<close>

definition js_slice :: "ustring \<Rightarrow> nat \<Rightarrow> nat \<Rightarrow> ustring" where
  "js_slice s i j = sublist_at s i j"

definition unit_at :: "ustring \<Rightarrow> nat \<Rightarrow> nat option" where
  "unit_at s i = (if i < length s then Some (s ! i) else None)"

definition starts_at :: "ustring \<Rightarrow> ustring \<Rightarrow> nat \<Rightarrow> bool" where
  "starts_at s p i \<longleftrightarrow> take (length p) (drop i s) = p"

fun find_sub :: "ustring \<Rightarrow> ustring \<Rightarrow> nat \<Rightarrow> nat option" where
  "find_sub [] p i = (if p = [] then Some i else None)"
| "find_sub (c # cs) p i =
     (if take (length p) (c # cs) = p then Some i else find_sub cs p (Suc i))"

definition index_of :: "ustring \<Rightarrow> ustring \<Rightarrow> nat \<Rightarrow> nat option" where
  "index_of s p i0 = find_sub (drop i0 s) p i0"

definition has_sub :: "ustring \<Rightarrow> ustring \<Rightarrow> bool" where
  "has_sub s p \<longleftrightarrow> index_of s p 0 \<noteq> None"

lemma starts_at_bound: "starts_at s p i \<Longrightarrow> p \<noteq> [] \<Longrightarrow> i + length p \<le> length s"
proof -
  assume "starts_at s p i" and p: "p \<noteq> []"
  then have "length (take (length p) (drop i s)) = length p"
    by (simp add: starts_at_def)
  with p show ?thesis by (cases "i < length s") (auto simp: min_def split: if_splits)
qed

lemma starts_at_nth:
  "starts_at s p i \<Longrightarrow> k < length p \<Longrightarrow> s ! (i + k) = p ! k"
proof -
  assume h: "starts_at s p i" and k: "k < length p"
  then have "i + length p \<le> length s" by (intro starts_at_bound) auto
  moreover have "p ! k = take (length p) (drop i s) ! k"
    using h by (simp add: starts_at_def)
  ultimately show ?thesis using k by simp
qed

lemma starts_atI:
  assumes "i + length p \<le> length s" and "\<And>k. k < length p \<Longrightarrow> s ! (i + k) = p ! k"
  shows "starts_at s p i"
  unfolding starts_at_def
  by (rule nth_equalityI) (use assms in auto)

lemma find_sub_Some:
  "find_sub s p i = Some k \<Longrightarrow>
     i \<le> k \<and> starts_at s p (k - i) \<and> (\<forall>j. i \<le> j \<longrightarrow> j < k \<longrightarrow> \<not> starts_at s p (j - i))"
proof (induction s p i rule: find_sub.induct)
  case (1 p i)
  then show ?case by (auto simp: starts_at_def split: if_splits)
next
  case (2 c cs p i)
  show ?case
  proof (cases "take (length p) (c # cs) = p")
    case True
    with "2.prems" show ?thesis by (simp add: starts_at_def)
  next
    case False
    with "2.prems" have r: "find_sub cs p (Suc i) = Some k"
      by (simp only: find_sub.simps if_False)
    from "2.IH"[OF False r] have ih: "Suc i \<le> k" "starts_at cs p (k - Suc i)"
      "\<And>j. Suc i \<le> j \<Longrightarrow> j < k \<Longrightarrow> \<not> starts_at cs p (j - Suc i)" by auto
    have shift: "starts_at (c # cs) p (j - i) = starts_at cs p (j - Suc i)" if "Suc i \<le> j" for j
      using that by (simp add: starts_at_def Suc_diff_le [symmetric] drop_Cons')
    have "\<not> starts_at (c # cs) p 0" using False by (simp add: starts_at_def)
    then have "\<not> starts_at (c # cs) p (j - i)" if "i \<le> j" "j < k" for j
      using that ih(3) shift [of j] by (cases "j = i") auto
    with ih(1,2) shift [of k] show ?thesis by auto
  qed
qed

lemma find_sub_None:
  "find_sub s p i = None \<Longrightarrow> p \<noteq> [] \<Longrightarrow> \<not> starts_at s p k"
proof (induction s p i arbitrary: k rule: find_sub.induct)
  case (1 p i)
  then show ?case by (auto simp: starts_at_def)
next
  case (2 c cs p i)
  from "2.prems" have neq: "take (length p) (c # cs) \<noteq> p" and r: "find_sub cs p (Suc i) = None"
    by (auto split: if_splits)
  show ?case
  proof (cases k)
    case 0
    with neq show ?thesis by (simp add: starts_at_def)
  next
    case (Suc k')
    with "2.IH" [OF neq r "2.prems"(2), of k'] show ?thesis by (simp add: starts_at_def)
  qed
qed

lemma starts_at_drop: "starts_at (drop i0 s) p k = starts_at s p (i0 + k)"
  by (simp add: starts_at_def add.commute)

lemma index_of_Some:
  assumes "index_of s p i0 = Some k"
  shows "i0 \<le> k" and "starts_at s p k"
    and "\<And>j. i0 \<le> j \<Longrightarrow> j < k \<Longrightarrow> \<not> starts_at s p j"
  using find_sub_Some [OF assms [unfolded index_of_def]]
  by (auto simp: starts_at_drop)

lemma index_of_None:
  "index_of s p i0 = None \<Longrightarrow> p \<noteq> [] \<Longrightarrow> i0 \<le> k \<Longrightarrow> \<not> starts_at s p k"
  using find_sub_None [of "drop i0 s" p i0 "k - i0"]
  by (simp add: index_of_def starts_at_drop)

lemma index_of_first:
  assumes "p \<noteq> []" and "i0 \<le> k" and "starts_at s p k"
    and "\<And>j. i0 \<le> j \<Longrightarrow> j < k \<Longrightarrow> \<not> starts_at s p j"
  shows "index_of s p i0 = Some k"
proof (cases "index_of s p i0")
  case None
  with assms show ?thesis using index_of_None by blast
next
  case (Some k')
  from index_of_Some [OF Some] assms have "k' = k" by (meson linorder_neqE_nat)
  with Some show ?thesis by simp
qed

section \<open>Code points\<close>

definition is_high :: "nat \<Rightarrow> bool" where
  "is_high u \<longleftrightarrow> 0xD800 \<le> u \<and> u \<le> 0xDBFF"

definition is_low :: "nat \<Rightarrow> bool" where
  "is_low u \<longleftrightarrow> 0xDC00 \<le> u \<and> u \<le> 0xDFFF"

text \<open>The strings a \<open>for (const c of text)\<close> loop visits: one or two code units each.\<close>

fun chars :: "ustring \<Rightarrow> ustring list" where
  "chars [] = []"
| "chars [a] = [[a]]"
| "chars (a # b # s) =
     (if is_high a \<and> is_low b then [a, b] # chars s else [a] # chars (b # s))"

fun cp_of :: "ustring \<Rightarrow> nat" where
  "cp_of [a, b] = 0x10000 + (a - 0xD800) * 0x400 + (b - 0xDC00)"
| "cp_of (a # _) = a"
| "cp_of [] = 0"

definition code_points :: "ustring \<Rightarrow> nat list" where
  "code_points s = map cp_of (chars s)"

definition units_of_cp :: "nat \<Rightarrow> ustring" where
  "units_of_cp cp =
     (if cp < 0x10000 then [cp]
      else [0xD800 + (cp - 0x10000) div 0x400, 0xDC00 + (cp - 0x10000) mod 0x400])"

lemma concat_chars [simp]: "concat (chars s) = s"
  by (induction s rule: chars.induct) auto

lemma chars_shape:
  "c \<in> set (chars s) \<Longrightarrow> (\<exists>a. c = [a]) \<or> (\<exists>a b. c = [a, b] \<and> is_high a \<and> is_low b)"
  by (induction s rule: chars.induct) (auto split: if_splits)

lemma length_chars: "length (chars s) \<le> length s"
  by (induction s rule: chars.induct) auto

section \<open>UTF-8\<close>

definition utf8_of_cp :: "nat \<Rightarrow> nat list" where
  "utf8_of_cp cp =
     (if cp < 0x80 then [cp]
      else if cp < 0x800 then [0xC0 + cp div 0x40, 0x80 + cp mod 0x40]
      else if cp < 0x10000 then
        [0xE0 + cp div 0x1000, 0x80 + (cp div 0x40) mod 0x40, 0x80 + cp mod 0x40]
      else [0xF0 + cp div 0x40000, 0x80 + (cp div 0x1000) mod 0x40,
            0x80 + (cp div 0x40) mod 0x40, 0x80 + cp mod 0x40])"

definition is_surrogate :: "nat \<Rightarrow> bool" where
  "is_surrogate cp \<longleftrightarrow> 0xD800 \<le> cp \<and> cp \<le> 0xDFFF"

text \<open>\<open>TextEncoder.encode\<close>: a lone surrogate is written as U+FFFD.\<close>

definition utf8_encode :: "ustring \<Rightarrow> nat list" where
  "utf8_encode s =
     concat (map (\<lambda>cp. utf8_of_cp (if is_surrogate cp then 0xFFFD else cp)) (code_points s))"

definition is_cont :: "nat \<Rightarrow> bool" where
  "is_cont b \<longleftrightarrow> 0x80 \<le> b \<and> b \<le> 0xBF"

text \<open>One step of the fatal UTF-8 decoder: the code point at the front of the bytes and
  its width, \<open>None\<close> where the decoder throws.\<close>

fun utf8_step :: "nat list \<Rightarrow> (nat \<times> nat) option" where
  "utf8_step [] = None"
| "utf8_step (b0 # bs) =
     (if b0 < 0x80 then Some (b0, 1)
      else if 0xC2 \<le> b0 \<and> b0 \<le> 0xDF then
        (case bs of b1 # _ \<Rightarrow>
           if is_cont b1 then Some ((b0 - 0xC0) * 0x40 + (b1 - 0x80), 2) else None
         | _ \<Rightarrow> None)
      else if 0xE0 \<le> b0 \<and> b0 \<le> 0xEF then
        (case bs of b1 # b2 # _ \<Rightarrow>
           if (if b0 = 0xE0 then 0xA0 else 0x80) \<le> b1
              \<and> b1 \<le> (if b0 = 0xED then 0x9F else 0xBF) \<and> is_cont b2
           then Some ((b0 - 0xE0) * 0x1000 + (b1 - 0x80) * 0x40 + (b2 - 0x80), 3) else None
         | _ \<Rightarrow> None)
      else if 0xF0 \<le> b0 \<and> b0 \<le> 0xF4 then
        (case bs of b1 # b2 # b3 # _ \<Rightarrow>
           if (if b0 = 0xF0 then 0x90 else 0x80) \<le> b1
              \<and> b1 \<le> (if b0 = 0xF4 then 0x8F else 0xBF) \<and> is_cont b2 \<and> is_cont b3
           then Some ((b0 - 0xF0) * 0x40000 + (b1 - 0x80) * 0x1000
                        + (b2 - 0x80) * 0x40 + (b3 - 0x80), 4) else None
         | _ \<Rightarrow> None)
      else None)"

lemma utf8_step_width:
  "utf8_step bs = Some (cp, w) \<Longrightarrow> 0 < w \<and> w \<le> length bs"
  by (cases bs) (auto split: if_splits list.splits)

function utf8_decode_raw :: "nat list \<Rightarrow> ustring option" where
  "utf8_decode_raw bs =
     (if bs = [] then Some []
      else case utf8_step bs of
        None \<Rightarrow> None
      | Some (cp, w) \<Rightarrow>
          map_option (\<lambda>r. units_of_cp cp @ r) (utf8_decode_raw (drop w bs)))"
  by pat_completeness auto
termination
  by (relation "measure length") (auto dest: utf8_step_width)

declare utf8_decode_raw.simps [simp del]

text \<open>\<open>new TextDecoder("utf-8", \<lbrace>fatal: true\<rbrace>).decode\<close>: a leading byte-order
  mark is dropped (the decoders of the program leave \<open>ignoreBOM\<close> unset).\<close>

definition utf8_decode :: "nat list \<Rightarrow> ustring option" where
  "utf8_decode bs =
     utf8_decode_raw (if take 3 bs = [0xEF, 0xBB, 0xBF] then drop 3 bs else bs)"

text \<open>Well-formed UTF-16: every code unit below 65536, no lone surrogate.\<close>

definition well_formed :: "ustring \<Rightarrow> bool" where
  "well_formed s \<longleftrightarrow> list_all (\<lambda>u. u < 0x10000) s \<and>
     list_all (\<lambda>cp. \<not> is_surrogate cp) (code_points s)"


lemma length_utf8_of_cp: "0 < length (utf8_of_cp cp)"
  by (simp add: utf8_of_cp_def)

lemma utf8_step_two:
  "a \<le> 31 \<Longrightarrow> 2 \<le> a \<Longrightarrow> b < 0x40 \<Longrightarrow>
     utf8_step ([0xC0 + a, 0x80 + b] @ rest) = Some (a * 0x40 + b, 2)"
  by (subst append_Cons, subst utf8_step.simps) (simp add: is_cont_def)

lemma utf8_step_three:
  "a \<le> 15 \<Longrightarrow> b < 0x40 \<Longrightarrow> c < 0x40 \<Longrightarrow> (a = 0 \<Longrightarrow> 0x20 \<le> b) \<Longrightarrow> (a = 13 \<Longrightarrow> b \<le> 0x1F) \<Longrightarrow>
     utf8_step ([0xE0 + a, 0x80 + b, 0x80 + c] @ rest) = Some (a * 0x1000 + b * 0x40 + c, 3)"
  by (subst append_Cons, subst utf8_step.simps) (simp add: is_cont_def)

lemma utf8_step_four:
  "a \<le> 4 \<Longrightarrow> b < 0x40 \<Longrightarrow> c < 0x40 \<Longrightarrow> d < 0x40 \<Longrightarrow> (a = 0 \<Longrightarrow> 0x10 \<le> b) \<Longrightarrow>
   (a = 4 \<Longrightarrow> b \<le> 0x0F) \<Longrightarrow>
     utf8_step ([0xF0 + a, 0x80 + b, 0x80 + c, 0x80 + d] @ rest)
       = Some (a * 0x40000 + b * 0x1000 + c * 0x40 + d, 4)"
  by (subst append_Cons, subst utf8_step.simps) (simp add: is_cont_def)

lemma utf8_step_encode:
  assumes "cp < 0x110000" and "\<not> is_surrogate cp"
  shows "utf8_step (utf8_of_cp cp @ rest) = Some (cp, length (utf8_of_cp cp))"
proof -
  consider "cp < 0x80" | "0x80 \<le> cp" "cp < 0x800" | "0x800 \<le> cp" "cp < 0x10000"
    | "0x10000 \<le> cp" by linarith
  then show ?thesis
  proof cases
    case 1
    then show ?thesis by (simp add: utf8_of_cp_def)
  next
    case 2
    define a b where ab: "a = cp div 0x40" "b = cp mod 0x40"
    have eq: "cp = a * 0x40 + b" by (simp add: ab)
    have lt: "b < 0x40" "a \<le> 31" "2 \<le> a" using 2 by (simp_all add: ab)
    have "utf8_of_cp cp = [0xC0 + a, 0x80 + b]" using 2 by (simp add: utf8_of_cp_def ab)
    with utf8_step_two [OF lt(2,3,1), of rest] eq show ?thesis by simp
  next
    case 3
    define a b c where abc: "a = cp div 0x1000" "b = (cp div 0x40) mod 0x40" "c = cp mod 0x40"
    have "a = cp div 0x40 div 0x40" by (simp add: abc flip: div_mult2_eq)
    then have eq: "cp = a * 0x1000 + b * 0x40 + c"
      using div_mult_mod_eq [of cp 64] div_mult_mod_eq [of "cp div 0x40" 64]
      unfolding abc by linarith
    have lt: "b < 0x40" "c < 0x40" "a \<le> 15" using 3 by (simp_all add: abc)
    have lo: "a = 0 \<Longrightarrow> 0x20 \<le> b" using eq lt 3 by linarith
    have hi: "a = 13 \<Longrightarrow> b \<le> 0x1F"
    proof -
      assume "a = 13"
      with eq assms(2) lt show ?thesis by (simp add: is_surrogate_def)
    qed
    have "utf8_of_cp cp = [0xE0 + a, 0x80 + b, 0x80 + c]"
      using 3 by (simp add: utf8_of_cp_def abc)
    with utf8_step_three [OF lt(3,1,2) lo hi, of rest] eq show ?thesis by simp
  next
    case 4
    define a b c d where abcd: "a = cp div 0x40000" "b = (cp div 0x1000) mod 0x40"
      "c = (cp div 0x40) mod 0x40" "d = cp mod 0x40"
    have "a = cp div 0x1000 div 0x40" and "cp div 0x1000 = cp div 0x40 div 0x40"
      by (simp_all add: abcd flip: div_mult2_eq)
    then have eq: "cp = a * 0x40000 + b * 0x1000 + c * 0x40 + d"
      using div_mult_mod_eq [of cp 64] div_mult_mod_eq [of "cp div 0x40" 64]
        div_mult_mod_eq [of "cp div 0x1000" 64] unfolding abcd by linarith
    have lt: "b < 0x40" "c < 0x40" "d < 0x40" "a \<le> 4" using assms(1) by (simp_all add: abcd)
    have lo: "a = 0 \<Longrightarrow> 0x10 \<le> b" using eq lt 4 by linarith
    have hi: "a = 4 \<Longrightarrow> b \<le> 0x0F" using eq assms(1) by linarith
    have "utf8_of_cp cp = [0xF0 + a, 0x80 + b, 0x80 + c, 0x80 + d]"
      using 4 by (simp add: utf8_of_cp_def abcd)
    with utf8_step_four [OF lt(4,1,2,3) lo hi, of rest] eq show ?thesis by simp
  qed
qed

lemma units_of_cp_of:
  assumes "c \<in> set (chars s)" and "list_all (\<lambda>u. u < 0x10000) s"
  shows "units_of_cp (cp_of c) = c" and "cp_of c < 0x110000"
proof -
  have bound: "\<And>u. u \<in> set c \<Longrightarrow> u < 0x10000"
    using assms concat_chars [of s] by (metis UN_I list_all_iff set_concat)
  from chars_shape [OF assms(1)] show "units_of_cp (cp_of c) = c"
  proof
    assume "\<exists>a. c = [a]"
    then show ?thesis using bound by (auto simp: units_of_cp_def)
  next
    assume "\<exists>a b. c = [a, b] \<and> is_high a \<and> is_low b"
    then obtain a b where c: "c = [a, b]" and h: "is_high a" "is_low b" by blast
    then obtain x y where a: "a = 0xD800 + x" and b: "b = 0xDC00 + y" and y: "y < 0x400"
      by (auto simp: is_high_def is_low_def le_iff_add)
    have "(x * 1024 + y) div 1024 = x" "(x * 1024 + y) mod 1024 = y" using y by auto
    then show ?thesis by (simp add: c a b units_of_cp_def)
  qed
  from chars_shape [OF assms(1)] show "cp_of c < 0x110000"
    using bound by (auto simp: is_high_def is_low_def)
qed

lemma utf8_decode_raw_step:
  "cp < 0x110000 \<Longrightarrow> \<not> is_surrogate cp \<Longrightarrow>
     utf8_decode_raw (utf8_of_cp cp @ rest) = map_option (\<lambda>r. units_of_cp cp @ r) (utf8_decode_raw rest)"
  using length_utf8_of_cp [of cp]
  by (subst utf8_decode_raw.simps) (simp add: utf8_step_encode)

lemma utf8_roundtrip_raw:
  assumes "well_formed s"
  shows "utf8_decode_raw (utf8_encode s) = Some s"
proof -
  have all: "list_all (\<lambda>u. u < 0x10000) s"
    and nosur: "\<And>c. c \<in> set (chars s) \<Longrightarrow> \<not> is_surrogate (cp_of c)"
    using assms by (auto simp: well_formed_def code_points_def list_all_iff)
  have "utf8_decode_raw (concat (map (\<lambda>cp. utf8_of_cp (if is_surrogate cp then 0xFFFD else cp))
          (map cp_of cs))) = Some (concat cs)" if "set cs \<subseteq> set (chars s)" for cs
    using that
  proof (induction cs)
    case Nil
    then show ?case by (simp add: utf8_decode_raw.simps)
  next
    case (Cons c cs)
    then have c: "c \<in> set (chars s)" and "set cs \<subseteq> set (chars s)" by auto
    with Cons.IH units_of_cp_of [OF c all] nosur [OF c] show ?case
      by (simp add: utf8_decode_raw_step)
  qed
  from this [of "chars s"] show ?thesis
    by (simp add: utf8_encode_def code_points_def)
qed

lemma utf8_of_cp_bom: 
  "cp < 0x110000 \<Longrightarrow> \<not> is_surrogate cp \<Longrightarrow> take 3 (utf8_of_cp cp @ rest) = [0xEF, 0xBB, 0xBF] \<Longrightarrow> cp = 0xFEFF"
proof -
  assume h: "cp < 0x110000" "\<not> is_surrogate cp" "take 3 (utf8_of_cp cp @ rest) = [0xEF, 0xBB, 0xBF]"
  then have "utf8_of_cp cp @ rest = [0xEF, 0xBB, 0xBF] @ drop 3 (utf8_of_cp cp @ rest)"
    by (metis append_take_drop_id)
  then have "utf8_step (utf8_of_cp cp @ rest) = Some (0xFEFF, 3)"
    by (simp add: is_cont_def)
  with utf8_step_encode [OF h(1,2)] show ?thesis by simp
qed

lemma utf8_roundtrip:
  assumes "well_formed s" and "take 1 s \<noteq> [0xFEFF]"
  shows "utf8_decode (utf8_encode s) = Some s"
proof -
  have "take 3 (utf8_encode s) \<noteq> [0xEF, 0xBB, 0xBF]"
  proof (cases "chars s")
    case Nil
    then show ?thesis by (simp add: utf8_encode_def code_points_def)
  next
    case (Cons c cs)
    then have c: "c \<in> set (chars s)" by simp
    have all: "list_all (\<lambda>u. u < 0x10000) s" and ns: "\<not> is_surrogate (cp_of c)"
      using assms(1) c by (auto simp: well_formed_def code_points_def list_all_iff)
    note r = units_of_cp_of [OF c all]
    have "s = c @ concat cs" using concat_chars [of s] Cons by simp
    then have "cp_of c \<noteq> 0xFEFF"
      using r(1) assms(2) by (auto simp: units_of_cp_def)
    then show ?thesis
      using utf8_of_cp_bom [OF r(2) ns] ns Cons
      by (auto simp: utf8_encode_def code_points_def)
  qed
  then show ?thesis by (simp add: utf8_decode_def utf8_roundtrip_raw assms(1))
qed

section \<open>Splitting and replacing\<close>

text \<open>\<open>s.split(sep)\<close> for a one-unit separator.\<close>

fun split_on :: "nat \<Rightarrow> ustring \<Rightarrow> ustring list" where
  "split_on sep [] = [[]]"
| "split_on sep (c # s) =
     (if c = sep then [] # split_on sep s
      else case split_on sep s of [] \<Rightarrow> [[c]] | p # ps \<Rightarrow> (c # p) # ps)"

fun join_with :: "ustring \<Rightarrow> ustring list \<Rightarrow> ustring" where
  "join_with sep [] = []"
| "join_with sep [p] = p"
| "join_with sep (p # q # ps) = p @ sep @ join_with sep (q # ps)"

lemma split_on_not_Nil [simp]: "split_on sep s \<noteq> []"
  by (induction sep s rule: split_on.induct) (auto split: list.splits)

lemma join_split_on: "join_with [sep] (split_on sep s) = s"
proof (induction sep s rule: split_on.induct)
  case (2 sep c s)
  show ?case
  proof (cases "split_on sep s")
    case (Cons p ps)
    with 2 show ?thesis by (cases ps) auto
  qed simp
qed simp

lemma split_on_no_sep: "p \<in> set (split_on sep s) \<Longrightarrow> sep \<notin> set p"
  by (induction sep s arbitrary: p rule: split_on.induct) (auto split: list.splits if_splits)

definition replace_unit :: "nat \<Rightarrow> nat \<Rightarrow> ustring \<Rightarrow> ustring" where
  "replace_unit a b = map (\<lambda>c. if c = a then b else c)"

lemma index_of_nth:
  assumes "distinct s" and "n < length s"
  shows "index_of s [s ! n] 0 = Some n"
proof (rule index_of_first)
  show "starts_at s [s ! n] n" using assms by (intro starts_atI) auto
  fix j assume "j < n"
  then have "s ! j \<noteq> s ! n" using assms by (simp add: nth_eq_iff_index_eq)
  then show "\<not> starts_at s [s ! n] j" using starts_at_nth [of s "[s ! n]" j 0] by auto
qed auto

lemma utf8_of_cp_bytes: "cp < 0x110000 \<Longrightarrow> x \<in> set (utf8_of_cp cp) \<Longrightarrow> x < 256"
  by (auto simp: utf8_of_cp_def split: if_splits)

lemma utf8_encode_bytes:
  assumes "well_formed s" and "x \<in> set (utf8_encode s)"
  shows "x < 256"
proof -
  from assms(2) obtain c where c: "c \<in> set (chars s)"
    "x \<in> set (utf8_of_cp (if is_surrogate (cp_of c) then 0xFFFD else cp_of c))"
    by (auto simp: utf8_encode_def code_points_def)
  have "(if is_surrogate (cp_of c) then 0xFFFD else cp_of c) < 0x110000"
    using units_of_cp_of(2) [OF c(1)] assms(1) by (simp add: well_formed_def)
  with c(2) show ?thesis using utf8_of_cp_bytes by blast
qed

text \<open>\<open>String(n)\<close> for a natural number.\<close>

fun decimal :: "nat \<Rightarrow> ustring" where
  "decimal n = (if n < 10 then [48 + n] else decimal (n div 10) @ [48 + n mod 10])"

declare decimal.simps [simp del]

section \<open>White space\<close>

text \<open>\<open>\\s\<close> and the characters \<open>trim\<close> removes: ECMAScript's white space and line terminators.\<close>

definition is_js_space :: "nat \<Rightarrow> bool" where
  "is_js_space c \<longleftrightarrow>
     (9 \<le> c \<and> c \<le> 13) \<or> c = 32 \<or> c = 160 \<or> c = 0x1680 \<or> (0x2000 \<le> c \<and> c \<le> 0x200a) \<or>
     c = 0x2028 \<or> c = 0x2029 \<or> c = 0x202f \<or> c = 0x205f \<or> c = 0x3000 \<or> c = 0xfeff"

definition js_trim :: "ustring \<Rightarrow> ustring" where
  "js_trim s = rev (dropWhile is_js_space (rev (dropWhile is_js_space s)))"

lemma js_trim_ends: "js_trim s \<noteq> [] \<Longrightarrow> \<not> is_js_space (hd (js_trim s)) \<and> \<not> is_js_space (last (js_trim s))"
proof -
  define t where "t = dropWhile is_js_space s"
  assume "js_trim s \<noteq> []"
  then have ne: "dropWhile is_js_space (rev t) \<noteq> []" by (simp add: js_trim_def t_def)
  have l: "last (js_trim s) = hd (dropWhile is_js_space (rev t))"
    using ne by (simp add: js_trim_def t_def last_rev)
  have tn: "t \<noteq> []" using ne by auto
  have "rev t = takeWhile is_js_space (rev t) @ dropWhile is_js_space (rev t)" by simp
  then have "t = js_trim s @ rev (takeWhile is_js_space (rev t))"
    unfolding js_trim_def t_def by (metis rev_append rev_rev_ident)
  then have "hd (js_trim s) = hd t" using \<open>js_trim s \<noteq> []\<close> by (metis hd_append2)
  then show ?thesis
    using l hd_dropWhile [OF ne] tn hd_dropWhile [of is_js_space s] by (auto simp: t_def)
qed

definition lower_ascii :: "ustring \<Rightarrow> ustring" where
  "lower_ascii = map (\<lambda>c. if 65 \<le> c \<and> c \<le> 90 then c + 32 else c)"

end
