(* ===== verification/Risk.thy ===== *)
theory Risk
  imports Js_String Complex_Main
begin

text \<open>
  Decisions, risk levels and scores (\<open>core/src/types.ts\<close>, \<open>core/src/risk.ts\<close>) and the
  admission test on raw bytes (\<open>core/src/text.ts\<close>). A score is a JavaScript number:
  finite values are rationals, \<open>NaN\<close> and the infinities are one value.
\<close>

definition MAX_INPUT_BYTES :: nat where
  "MAX_INPUT_BYTES = 1048576"

datatype decision = ALLOW | WARN | BLOCK

datatype risk_level = LOW | MEDIUM | HIGH | CRITICAL

datatype finding_encoding =
  EncPlain | EncNormalized | EncPercent | EncJsonEscaped | EncBase64 | EncWhitespaceJoined

datatype secret_type =
  PrivateKey | ProviderToken | AccessToken | Jwt | DatabaseCredentials | CloudCredential
| Password | ApiKey | GenericSecret | HighEntropy | CustomRule | ScanLimit | ScanError

record text_position =
  tp_offset :: nat
  tp_line :: nat
  tp_column :: nat

record text_span =
  sp_start :: text_position
  sp_end :: text_position

datatype js_number = Finite rat | NotFinite

section \<open>Levels and decisions\<close>

definition levelForScore :: "rat \<Rightarrow> risk_level" where
  "levelForScore score =
     (if 75 \<le> score then CRITICAL
      else if 50 \<le> score then HIGH
      else if 25 \<le> score then MEDIUM
      else LOW)"

definition decisionForLevel :: "risk_level \<Rightarrow> decision" where
  "decisionForLevel level =
     (if level = CRITICAL \<or> level = HIGH then BLOCK
      else if level = MEDIUM then WARN
      else ALLOW)"

text \<open>\<open>Math.round\<close> rounds halves upwards.\<close>

definition math_round :: "rat \<Rightarrow> int" where
  "math_round x = \<lfloor>x + 1 / 2\<rfloor>"

fun boundedScore :: "js_number \<Rightarrow> int" where
  "boundedScore NotFinite = 100"
| "boundedScore (Finite score) = max 0 (min 100 (math_round score))"

lemma math_round_of_int [simp]: "math_round (of_int n) = n"
  by (simp add: math_round_def floor_eq_iff)

lemma boundedScore_of_int [simp]: "boundedScore (Finite (of_int n)) = max 0 (min 100 n)"
  by simp

lemma boundedScore_range: "0 \<le> boundedScore x" "boundedScore x \<le> 100"
  by (cases x; simp)+

text \<open>Decisions and levels are ordered by severity.\<close>

fun decision_rank :: "decision \<Rightarrow> nat" where
  "decision_rank ALLOW = 0"
| "decision_rank WARN = 1"
| "decision_rank BLOCK = 2"

fun level_rank :: "risk_level \<Rightarrow> nat" where
  "level_rank LOW = 0"
| "level_rank MEDIUM = 1"
| "level_rank HIGH = 2"
| "level_rank CRITICAL = 3"

lemma decision_rank_inject: "decision_rank a = decision_rank b \<Longrightarrow> a = b"
  by (cases a; cases b) auto

lemma level_rank_inject: "level_rank a = level_rank b \<Longrightarrow> a = b"
  by (cases a; cases b) auto

instantiation decision :: linorder
begin

definition less_eq_decision :: "decision \<Rightarrow> decision \<Rightarrow> bool" where
  "less_eq_decision a b \<longleftrightarrow> decision_rank a \<le> decision_rank b"

definition less_decision :: "decision \<Rightarrow> decision \<Rightarrow> bool" where
  "less_decision a b \<longleftrightarrow> decision_rank a < decision_rank b"

instance
  by standard
    (auto simp: less_eq_decision_def less_decision_def intro: decision_rank_inject)

end

instantiation risk_level :: linorder
begin

definition less_eq_risk_level :: "risk_level \<Rightarrow> risk_level \<Rightarrow> bool" where
  "less_eq_risk_level a b \<longleftrightarrow> level_rank a \<le> level_rank b"

definition less_risk_level :: "risk_level \<Rightarrow> risk_level \<Rightarrow> bool" where
  "less_risk_level a b \<longleftrightarrow> level_rank a < level_rank b"

instance
  by standard
    (auto simp: less_eq_risk_level_def less_risk_level_def intro: level_rank_inject)

end

lemma levelForScore_mono: "x \<le> y \<Longrightarrow> levelForScore x \<le> levelForScore y"
  by (auto simp: levelForScore_def less_eq_risk_level_def)

lemma decisionForLevel_mono: "a \<le> b \<Longrightarrow> decisionForLevel a \<le> decisionForLevel b"
  by (cases a; cases b)
    (auto simp: decisionForLevel_def less_eq_risk_level_def less_eq_decision_def)

lemma decision_of_score:
  "decisionForLevel (levelForScore x) = (if 50 \<le> x then BLOCK else if 25 \<le> x then WARN else ALLOW)"
  by (simp add: decisionForLevel_def levelForScore_def)

lemma decision_le_BLOCK [simp]: "(d :: decision) \<le> BLOCK"
  by (cases d) (auto simp: less_eq_decision_def)

lemma decision_ge_ALLOW [simp]: "ALLOW \<le> (d :: decision)"
  by (cases d) (auto simp: less_eq_decision_def)

lemma decision_le_ALLOW [simp]: "(d :: decision) \<le> ALLOW \<longleftrightarrow> d = ALLOW"
  by (cases d) (auto simp: less_eq_decision_def)

lemma decision_ge_BLOCK [simp]: "BLOCK \<le> (d :: decision) \<longleftrightarrow> d = BLOCK"
  by (cases d) (auto simp: less_eq_decision_def)

section \<open>Bytes the scanner can cover\<close>

definition decodeScannableText :: "nat list \<Rightarrow> ustring option" where
  "decodeScannableText bytes =
     (if MAX_INPUT_BYTES < length bytes \<or> 0 \<in> set bytes then None else utf8_decode bytes)"

end
