(* ===== verification/Json.thy ===== *)
theory Json
  imports Js_String Complex_Main
begin

text \<open>
  JSON values and \<open>JSON.parse\<close> as the program uses them. A number is the rational its
  literal denotes (the rounding of literals beyond 53 bits to the nearest double is not
  modelled); an object is an association list in insertion order in which a later duplicate
  key overwrites the value in place, as ECMAScript does. The parser is a recursive descent
  with fuel; \<open>json_parse\<close> gives it one unit per input character, and
  \<open>parse_value_fuel\<close> shows that more fuel never changes the result.
\<close>

datatype json =
  JNull
| JBool bool
| JNum rat
| JStr ustring
| JArr "json list"
| JObj "(ustring \<times> json) list"

fun obj_set :: "(ustring \<times> 'a) list \<Rightarrow> ustring \<Rightarrow> 'a \<Rightarrow> (ustring \<times> 'a) list" where
  "obj_set [] k v = [(k, v)]"
| "obj_set ((k', v') # kvs) k v = (if k' = k then (k, v) # kvs else (k', v') # obj_set kvs k v)"

definition obj_get :: "(ustring \<times> 'a) list \<Rightarrow> ustring \<Rightarrow> 'a option" where
  "obj_get = map_of"

lemma obj_get_set [simp]: "obj_get (obj_set kvs k v) k' = (if k' = k then Some v else obj_get kvs k')"
  by (induction kvs k v rule: obj_set.induct) (auto simp: obj_get_def)

lemma obj_set_keys: "fst ` set (obj_set kvs k v) = insert k (fst ` set kvs)"
  by (induction kvs k v rule: obj_set.induct) auto

lemma obj_set_distinct: "distinct (map fst kvs) \<Longrightarrow> distinct (map fst (obj_set kvs k v))"
proof (induction kvs k v rule: obj_set.induct)
  case (2 k' v' kvs k v)
  have "fst ` set (obj_set kvs k v) = insert k (fst ` set kvs)" by (rule obj_set_keys)
  with 2 show ?case by auto
qed simp

section \<open>Lexical structure\<close>

definition json_ws :: "nat \<Rightarrow> bool" where
  "json_ws c \<longleftrightarrow> c = 32 \<or> c = 9 \<or> c = 10 \<or> c = 13"

definition skip_ws :: "ustring \<Rightarrow> ustring" where
  "skip_ws = dropWhile json_ws"

definition is_digit :: "nat \<Rightarrow> bool" where
  "is_digit c \<longleftrightarrow> 48 \<le> c \<and> c \<le> 57"

definition hex_value :: "nat \<Rightarrow> nat option" where
  "hex_value c =
     (if is_digit c then Some (c - 48)
      else if 97 \<le> c \<and> c \<le> 102 then Some (c - 87)
      else if 65 \<le> c \<and> c \<le> 70 then Some (c - 55)
      else None)"

fun hex4 :: "ustring \<Rightarrow> (nat \<times> ustring) option" where
  "hex4 (a # b # c # d # r) =
     (case (hex_value a, hex_value b, hex_value c, hex_value d) of
        (Some a, Some b, Some c, Some d) \<Rightarrow> Some (((a * 16 + b) * 16 + c) * 16 + d, r)
      | _ \<Rightarrow> None)"
| "hex4 _ = None"

definition json_escape :: "nat \<Rightarrow> nat option" where
  "json_escape c = map_of [(34, 34), (92, 92), (47, 47), (98, 8), (102, 12), (110, 10), (114, 13), (116, 9)] c"

text \<open>The characters of a string literal after its opening quote.\<close>

fun string_body :: "nat \<Rightarrow> ustring \<Rightarrow> (ustring \<times> ustring) option" where
  "string_body 0 s = None"
| "string_body (Suc n) [] = None"
| "string_body (Suc n) (c # s) =
     (if c = 34 then Some ([], s)
      else if c < 32 then None
      else if c = 92 then
        (case s of [] \<Rightarrow> None
         | e # s' \<Rightarrow>
             if e = 117 then
               (case hex4 s' of None \<Rightarrow> None
                | Some (u, r) \<Rightarrow> map_option (\<lambda>(b, r'). (u # b, r')) (string_body n r))
             else
               (case json_escape e of None \<Rightarrow> None
                | Some u \<Rightarrow> map_option (\<lambda>(b, r'). (u # b, r')) (string_body n s')))
      else map_option (\<lambda>(b, r'). (c # b, r')) (string_body n s))"

definition digits_value :: "ustring \<Rightarrow> nat" where
  "digits_value = foldl (\<lambda>n d. n * 10 + (d - 48)) 0"

definition number_body :: "ustring \<Rightarrow> (rat \<times> ustring) option" where
  "number_body s0 =
     (let neg = (s0 \<noteq> [] \<and> hd s0 = 45);
          s = (if neg then tl s0 else s0);
          ip = takeWhile is_digit s;
          s = dropWhile is_digit s
      in if ip = [] \<or> (1 < length ip \<and> hd ip = 48) then None
      else
        let (fp, s1) = (if s \<noteq> [] \<and> hd s = 46
              then (Some (takeWhile is_digit (tl s)), dropWhile is_digit (tl s)) else (None, s))
        in if fp = Some [] then None
        else
          let fracs = (case fp of None \<Rightarrow> [] | Some f \<Rightarrow> f);
              mant = rat_of_nat (digits_value (ip @ fracs)) / 10 ^ length fracs;
              sgn = (if neg then - 1 else 1)
          in if s1 \<noteq> [] \<and> (hd s1 = 101 \<or> hd s1 = 69) then
               (let s2 = tl s1;
                    eneg = (s2 \<noteq> [] \<and> hd s2 = 45);
                    s3 = (if s2 \<noteq> [] \<and> (hd s2 = 45 \<or> hd s2 = 43) then tl s2 else s2);
                    ep = takeWhile is_digit s3
                in if ep = [] then None
                   else Some (sgn * (if eneg then mant / 10 ^ digits_value ep else mant * 10 ^ digits_value ep),
                              dropWhile is_digit s3))
             else Some (sgn * mant, s1))"

section \<open>The parser\<close>

text \<open>A punctuator after white space.\<close>

definition eat :: "nat \<Rightarrow> ustring \<Rightarrow> ustring option" where
  "eat c s = (case skip_ws s of [] \<Rightarrow> None | d # r \<Rightarrow> if d = c then Some r else None)"

fun parse_value :: "nat \<Rightarrow> ustring \<Rightarrow> (json \<times> ustring) option"
and parse_items :: "nat \<Rightarrow> ustring \<Rightarrow> (json list \<times> ustring) option"
and parse_members :: "nat \<Rightarrow> (ustring \<times> json) list \<Rightarrow> ustring \<Rightarrow> ((ustring \<times> json) list \<times> ustring) option" where
  "parse_value 0 s = None"
| "parse_value (Suc n) s0 =
     (case skip_ws s0 of
        [] \<Rightarrow> None
      | c # s \<Rightarrow>
          if c = 34 then map_option (\<lambda>(b, r). (JStr b, r)) (string_body (length s) s)
          else if c = 91 then
            (case eat 93 s of
               Some r \<Rightarrow> Some (JArr [], r)
             | None \<Rightarrow> map_option (\<lambda>(vs, r). (JArr vs, r)) (parse_items n s))
          else if c = 123 then
            (case eat 125 s of
               Some r \<Rightarrow> Some (JObj [], r)
             | None \<Rightarrow> map_option (\<lambda>(kvs, r). (JObj kvs, r)) (parse_members n [] s))
          else if starts_at (c # s) (js ''null'') 0 then Some (JNull, drop 3 s)
          else if starts_at (c # s) (js ''true'') 0 then Some (JBool True, drop 3 s)
          else if starts_at (c # s) (js ''false'') 0 then Some (JBool False, drop 4 s)
          else map_option (\<lambda>(x, r). (JNum x, r)) (number_body (c # s)))"
| "parse_items 0 s = None"
| "parse_items (Suc n) s =
     (case parse_value n s of
        None \<Rightarrow> None
      | Some (v, r) \<Rightarrow>
          (case skip_ws r of
             [] \<Rightarrow> None
           | c # r' \<Rightarrow>
               if c = 93 then Some ([v], r')
               else if c = 44 then map_option (\<lambda>(vs, r''). (v # vs, r'')) (parse_items n r')
               else None))"
| "parse_members 0 kvs s = None"
| "parse_members (Suc n) kvs s0 =
     (case eat 34 s0 of
        None \<Rightarrow> None
      | Some s \<Rightarrow>
          (case string_body (length s) s of
             None \<Rightarrow> None
           | Some (k, r) \<Rightarrow>
               (case eat 58 r of
                  None \<Rightarrow> None
                | Some r1 \<Rightarrow>
                    (case parse_value n r1 of
                       None \<Rightarrow> None
                     | Some (v, r2) \<Rightarrow>
                         (case skip_ws r2 of
                            [] \<Rightarrow> None
                          | c # r3 \<Rightarrow>
                              if c = 125 then Some (obj_set kvs k v, r3)
                              else if c = 44 then parse_members n (obj_set kvs k v) r3
                              else None)))))"

definition json_parse :: "ustring \<Rightarrow> json option" where
  "json_parse s =
     (case parse_value (2 * length s + 2) s of
        None \<Rightarrow> None
      | Some (v, r) \<Rightarrow> if skip_ws r = [] then Some v else None)"

lemma parse_value_fuel:
  "parse_value n s = Some x \<Longrightarrow> n \<le> m \<Longrightarrow> parse_value m s = Some x" and
  parse_items_fuel:
  "parse_items n s = Some y \<Longrightarrow> n \<le> m \<Longrightarrow> parse_items m s = Some y" and
  parse_members_fuel:
  "parse_members n kvs s = Some z \<Longrightarrow> n \<le> m \<Longrightarrow> parse_members m kvs s = Some z"
proof (induction n s and n s and n kvs s arbitrary: m x and m y and m z
    rule: parse_value_parse_items_parse_members.induct)
  case (2 n s0)
  obtain m' where m: "m = Suc m'" "n \<le> m'" using "2.prems"(2) by (cases m) auto
  show ?case
  proof (cases "skip_ws s0")
    case Nil
    with "2.prems" show ?thesis by simp
  next
    case (Cons c s)
    consider "c = 91" "eat 93 s = None" | "c = 123" "eat 125 s = None"
      | "c = 91 \<longrightarrow> eat 93 s \<noteq> None" "c = 123 \<longrightarrow> eat 125 s \<noteq> None" by blast
    then show ?thesis
    proof cases
      case 1
      note ih = "2.IH"(1) [OF Cons _ 1 _ m(2)]
      from 1 Cons "2.prems" ih show ?thesis by (auto simp: m(1))
    next
      case 2
      note ih = "2.IH"(2) [OF Cons _ _ 2 _ m(2)]
      from 2 Cons "2.prems" ih show ?thesis by (auto simp: m(1))
    next
      case 3
      then show ?thesis using Cons "2.prems" by (auto simp: m(1) split: if_split_asm)
    qed
  qed
next
  case (4 n s)
  obtain m' where m: "m = Suc m'" "n \<le> m'" using "4.prems"(2) by (cases m) auto
  from "4.prems"(1) obtain v r where r: "parse_value n s = Some (v, r)"
    by (cases "parse_value n s") auto
  have v: "parse_value m' s = Some (v, r)"
    using "4.IH"(1) [OF r m(2)] .
  note ih = "4.IH"(2) [OF r refl]
  from "4.prems"(1) ih [OF _ _ _ _ m(2)] show ?case
    by (cases "skip_ws r") (auto simp: m(1) r v split: if_splits)
next
  case (6 n kvs s0)
  obtain m' where m: "m = Suc m'" "n \<le> m'" using "6.prems"(2) by (cases m) auto
  from "6.prems"(1) obtain s k r r1 v r2 where
    r: "eat 34 s0 = Some s" "string_body (length s) s = Some (k, r)" "eat 58 r = Some r1"
      "parse_value n r1 = Some (v, r2)"
    by (auto split: option.splits)
  have v: "parse_value m' r1 = Some (v, r2)"
    using "6.IH"(1) [OF r(1,2) refl r(3,4) m(2)] .
  note ih = "6.IH"(2) [OF r(1,2) refl r(3,4) refl]
  from "6.prems"(1) ih [OF _ _ _ _ m(2)] show ?case
    by (cases "skip_ws r2") (auto simp: m(1) r v split: if_splits)
qed auto

end
