(* ===== verification/Encoding.thy ===== *)
theory Encoding
  imports Risk Json
begin

unbundle bit_operations_syntax

text \<open>
  The bounded Base64 decoder and the structural JWT check (\<open>core/src/encoding.ts\<close>). The
  bytes of the decoder are naturals below 256; the decode budget, which the scanner shares
  between every attempt of one scan, is passed and returned.
\<close>

definition BASE64_ALPHABET :: ustring where
  "BASE64_ALPHABET = js ''ABCDEFGHIJKLMNOPQRSTUVWXYZabcdefghijklmnopqrstuvwxyz0123456789+/''"

definition MAX_DECODE_ATTEMPTS :: nat where
  "MAX_DECODE_ATTEMPTS = 128"

definition MAX_DECODED_BYTES :: nat where
  "MAX_DECODED_BYTES = 262144"

record decode_budget =
  db_candidates :: nat
  db_bytes :: nat
  db_exhausted :: bool

definition new_decode_budget :: decode_budget where
  "new_decode_budget = \<lparr>db_candidates = 0, db_bytes = 0, db_exhausted = False\<rparr>"

text \<open>\<open>BASE64_ALPHABET.indexOf(character)\<close>; \<open>None\<close> is the -1 of the source.\<close>

definition sextet :: "nat \<Rightarrow> nat option" where
  "sextet character = index_of BASE64_ALPHABET [character] 0"

definition is_alphabet :: "nat \<Rightarrow> bool" where
  "is_alphabet c \<longleftrightarrow> (65 \<le> c \<and> c \<le> 90) \<or> (97 \<le> c \<and> c \<le> 122) \<or> (48 \<le> c \<and> c \<le> 57) \<or> c = 43 \<or> c = 47"

text \<open>The regular expression \<open>^[A-Za-z0-9+/]*={0,2}$\<close>.\<close>

definition base64_shape :: "ustring \<Rightarrow> bool" where
  "base64_shape s \<longleftrightarrow>
     (let tail = dropWhile is_alphabet s in length tail \<le> 2 \<and> list_all (\<lambda>c. c = 61) tail)"

text \<open>The loop over groups of four characters, with the bytes pushed so far. A character past
  the end is the empty string for \<open>a\<close> and \<open>b\<close> (whose index is 0) and \<open>=\<close> for the others; the
  padding keeps the length a multiple of four, so only whole groups occur.\<close>

fun decode_groups :: "nat \<Rightarrow> nat list \<Rightarrow> ustring \<Rightarrow> nat list option" where
  "decode_groups maxDecodedBytes bytes (aC # bC # cC # dC # rest) =
     (case (sextet aC, sextet bC, if cC = 61 then Some 0 else sextet cC, if dC = 61 then Some 0 else sextet dC) of
        (Some a, Some b, Some c, Some d) \<Rightarrow>
          (let bytes = bytes @ [push_bit 2 a OR drop_bit 4 b];
               bytes = (if cC \<noteq> 61 then bytes @ [push_bit 4 (b AND 15) OR drop_bit 2 c] else bytes);
               bytes = (if dC \<noteq> 61 then bytes @ [push_bit 6 (c AND 3) OR d] else bytes)
           in if maxDecodedBytes < length bytes then None
              else decode_groups maxDecodedBytes bytes rest)
      | _ \<Rightarrow> None)"
| "decode_groups maxDecodedBytes bytes _ = Some bytes"

definition is_printable :: "ustring \<Rightarrow> bool" where
  "is_printable character \<longleftrightarrow>
     character = [10] \<or> character = [13] \<or> character = [9] \<or> (character \<noteq> [] \<and> 32 \<le> hd character)"

text \<open>\<open>printable / n >= 0.9\<close>: for the lengths possible here the double quotient compares as
  the rational does.\<close>

definition decodeBase64 :: "ustring \<Rightarrow> nat \<Rightarrow> ustring option" where
  "decodeBase64 value maxDecodedBytes =
     (let normalized = replace_unit 95 47 (replace_unit 45 43 value)
      in if \<not> base64_shape normalized \<or> length normalized mod 4 = 1 then None
      else
        let normalized = normalized @ replicate ((4 - length normalized mod 4) mod 4) 61
        in case decode_groups maxDecodedBytes [] normalized of
             None \<Rightarrow> None
           | Some bytes \<Rightarrow>
               (case utf8_decode bytes of
                  None \<Rightarrow> None
                | Some decoded \<Rightarrow>
                    if 0 \<in> set decoded then None
                    else
                      let printable = length (filter is_printable (chars decoded))
                      in if 0 < length decoded \<and> 9 * length (chars decoded) \<le> 10 * printable
                         then Some decoded else None))"

definition decodeBase64Budgeted ::
  "ustring \<Rightarrow> nat \<Rightarrow> decode_budget \<Rightarrow> decode_budget \<times> ustring option" where
  "decodeBase64Budgeted value maxDecodedBytes budget =
     (if db_exhausted budget then (budget, None)
      else
        let budget = budget\<lparr>db_candidates := db_candidates budget + 1,
              db_bytes := db_bytes budget + min ((length value * 3 + 3) div 4) (maxDecodedBytes + 1)\<rparr>
        in if MAX_DECODE_ATTEMPTS < db_candidates budget \<or> MAX_DECODED_BYTES < db_bytes budget
           then (budget\<lparr>db_exhausted := True\<rparr>, None)
           else (budget, decodeBase64 value maxDecodedBytes))"

text \<open>The \<open>decode\<close> closure: budgeted only where the caller passed a budget.\<close>

definition jwt_decode ::
  "ustring \<Rightarrow> nat \<Rightarrow> decode_budget option \<Rightarrow> decode_budget option \<times> ustring option" where
  "jwt_decode part maximum budget =
     (case budget of
        None \<Rightarrow> (None, decodeBase64 part maximum)
      | Some b \<Rightarrow> (case decodeBase64Budgeted part maximum b of (b', r) \<Rightarrow> (Some b', r)))"

definition is_json_object :: "json \<Rightarrow> bool" where
  "is_json_object v = (case v of JObj _ \<Rightarrow> True | _ \<Rightarrow> False)"

definition isStructurallyValidJwt ::
  "ustring \<Rightarrow> decode_budget option \<Rightarrow> decode_budget option \<times> bool" where
  "isStructurallyValidJwt value budget =
     (case split_on 46 value of
        [p0, p1, p2] \<Rightarrow>
          if length p2 < 8 then (budget, False)
          else
            (case jwt_decode p0 4096 budget of
               (budget, h) \<Rightarrow>
                 (case json_parse (case h of None \<Rightarrow> js ''null'' | Some t \<Rightarrow> t) of
                    None \<Rightarrow> (budget, False)
                  | Some header \<Rightarrow>
                      (case jwt_decode p1 16384 budget of
                         (budget, p) \<Rightarrow>
                           (case json_parse (case p of None \<Rightarrow> js ''null'' | Some t \<Rightarrow> t) of
                              None \<Rightarrow> (budget, False)
                            | Some payload \<Rightarrow>
                                (budget, is_json_object header \<and> is_json_object payload)))))
      | _ \<Rightarrow> (budget, False))"

section \<open>Arithmetic of one group\<close>

lemma nat_push_or:
  fixes a b :: nat
  assumes "b < 2 ^ k"
  shows "push_bit k a OR b = a * 2 ^ k + b"
proof -
  have "\<not> bit (push_bit k a) n \<or> \<not> bit b n" for n
  proof (cases "n < k")
    case True
    then show ?thesis by (simp add: bit_push_bit_iff)
  next
    case False
    then have "b < 2 ^ n" using assms by (meson le_less_trans less_le_trans not_le nat_le_linear power_increasing one_le_numeral)
    then show ?thesis by (simp add: bit_iff_odd)
  qed
  then have "push_bit k a + b = push_bit k a OR b" by (rule disjunctive_add)
  then show ?thesis by (simp add: push_bit_eq_mult)
qed

lemma BASE64_ALPHABET_units:
  "BASE64_ALPHABET = [65..<91] @ [97..<123] @ [48..<58] @ [43, 47]"
  by (simp add: BASE64_ALPHABET_def js_def upt_rec)

lemma sextet_alphabet: "n < 64 \<Longrightarrow> sextet (BASE64_ALPHABET ! n) = Some n"
  unfolding sextet_def by (rule index_of_nth) (auto simp: BASE64_ALPHABET_units)

lemma alphabet_member:
  "c \<in> set BASE64_ALPHABET \<Longrightarrow> is_alphabet c \<and> c \<noteq> 61 \<and> c \<noteq> 95 \<and> c \<noteq> 45"
  unfolding BASE64_ALPHABET_units is_alphabet_def
  by (simp only: set_append set_upt Un_iff atLeastLessThan_iff list.set insert_iff empty_iff)
    (elim disjE; simp)

lemma alphabet_nth: "n < 64 \<Longrightarrow> BASE64_ALPHABET ! n \<in> set BASE64_ALPHABET"
  by (rule nth_mem) (simp add: BASE64_ALPHABET_units)

lemmas alphabet_facts = alphabet_member [OF alphabet_nth]

section \<open>Reference encoder\<close>

definition b64 :: "nat \<Rightarrow> nat" where
  "b64 n = BASE64_ALPHABET ! n"

text \<open>RFC 4648, section 4: groups of three bytes, padded with equals signs.\<close>

fun b64_encode :: "nat list \<Rightarrow> ustring" where
  "b64_encode [] = []"
| "b64_encode [x] = [b64 (x div 4), b64 (x mod 4 * 16), 61, 61]"
| "b64_encode [x, y] = [b64 (x div 4), b64 (x mod 4 * 16 + y div 16), b64 (y mod 16 * 4), 61]"
| "b64_encode (x # y # z # r) =
     [b64 (x div 4), b64 (x mod 4 * 16 + y div 16), b64 (y mod 16 * 4 + z div 64), b64 (z mod 64)]
       @ b64_encode r"

lemma group_bytes:
  assumes "a < 64" "b < (64 :: nat)" "c < 64" "d < (64::nat)"
  shows "push_bit 2 a OR drop_bit 4 b = a * 4 + b div 16"
    and "push_bit 4 (b AND 15) OR drop_bit 2 c = (b mod 16) * 16 + c div 4"
    and "push_bit 6 (c AND 3) OR d = (c mod 4) * 64 + d"
proof -
  have m: "b AND 15 = b mod 16" "c AND 3 = c mod 4"
    using take_bit_eq_mask [of 4 b] take_bit_eq_mask [of 2 c]
    by (simp_all add: take_bit_eq_mod mask_eq_exp_minus_1)
  show "push_bit 2 a OR drop_bit 4 b = a * 4 + b div 16"
    using nat_push_or [of "drop_bit 4 b" 2 a] assms by (simp add: drop_bit_eq_div)
  show "push_bit 4 (b AND 15) OR drop_bit 2 c = (b mod 16) * 16 + c div 4"
    using nat_push_or [of "drop_bit 2 c" 4 "b mod 16"] assms m by (simp add: drop_bit_eq_div)
  show "push_bit 6 (c AND 3) OR d = (c mod 4) * 64 + d"
    using nat_push_or [of d 6 "c mod 4"] assms m by simp
qed

lemma decode_group_3:
  assumes "a < 64" "b < 64" "c < 64" "d < 64"
  shows "decode_groups limit acc (b64 a # b64 b # b64 c # b64 d # r) =
    (if limit < length acc + 3 then None
     else decode_groups limit (acc @ [a * 4 + b div 16, (b mod 16) * 16 + c div 4, (c mod 4) * 64 + d]) r)"
  using assms
  by (simp add: b64_def sextet_alphabet alphabet_facts group_bytes Let_def del: push_bit_and)

lemma decode_group_2:
  assumes "a < 64" "b < 64" "c < 64"
  shows "decode_groups limit acc [b64 a, b64 b, b64 c, 61] =
    (if limit < length acc + 2 then None else Some (acc @ [a * 4 + b div 16, (b mod 16) * 16 + c div 4]))"
  using assms
  by (simp add: b64_def sextet_alphabet alphabet_facts group_bytes Let_def del: push_bit_and)

lemma decode_group_1:
  assumes "a < 64" "b < 64"
  shows "decode_groups limit acc [b64 a, b64 b, 61, 61] =
    (if limit < length acc + 1 then None else Some (acc @ [a * 4 + b div 16]))"
  using assms
  by (simp add: b64_def sextet_alphabet alphabet_facts group_bytes Let_def del: push_bit_and)

lemma decode_groups_encode:
  assumes "\<forall>x \<in> set bytes. x < 256" and "length acc + length bytes \<le> limit"
  shows "decode_groups limit acc (b64_encode bytes) = Some (acc @ bytes)"
  using assms
proof (induction bytes arbitrary: acc rule: b64_encode.induct)
  case (2 x)
  then have "x div 4 < 64" "x mod 4 * 16 < 64" by auto
  from decode_group_1 [OF this] 2 show ?case by (simp del: decode_groups.simps)
next
  case (3 x y)
  then have "x div 4 < 64" "y div 16 < 16" "y mod 16 < 16" "x mod 4 < 4" by auto
  moreover define u v where "u = y div 16" "v = y mod 16"
  ultimately have lt: "x div 4 < 64" "x mod 4 * 16 + u < 64" "v * 4 < 64" 
    "(x mod 4 * 16 + u) div 16 = x mod 4" "(x mod 4 * 16 + u) mod 16 = u" "y = u * 16 + v"
    by auto
  with 3 show ?case 
    by (simp add: decode_group_2 del: decode_groups.simps flip: u_v_def)
next
  case (4 x y z r)
  then have "x div 4 < 64" "y div 16 < 16" "z div 64 < 4" by auto
  moreover define u v w t where "u = y div 16" "v = y mod 16" "w = z div 64" "t = z mod 64"
  ultimately have lt: "x div 4 < 64" "x mod 4 * 16 + u < 64" "v * 4 + w < 64" "t < 64"
    "(x mod 4 * 16 + u) div 16 = x mod 4" "(x mod 4 * 16 + u) mod 16 = u" "y = u * 16 + v"
    "(v * 4 + w) div 4 = v" "(v * 4 + w) mod 4 = w" "z = w * 64 + t"
    by auto
  with 4 show ?case 
    by (simp add: decode_group_3 del: decode_groups.simps flip: u_v_w_t_def)
qed simp

text \<open>The URL alphabet without padding, as JWTs write it.\<close>

definition b64url_encode :: "nat list \<Rightarrow> ustring" where
  "b64url_encode bytes = replace_unit 47 95 (replace_unit 43 45 (filter (\<lambda>c. c \<noteq> 61) (b64_encode bytes)))"

lemma b64_alphabet: "n < 64 \<Longrightarrow> is_alphabet (b64 n)"
  by (simp add: b64_def alphabet_facts)

lemma b64_encode_shape:
  assumes "\<forall>x \<in> set bytes. x < 256"
  obtains body k where "b64_encode bytes = body @ replicate k 61" "k \<le> 2" "list_all is_alphabet body"
    "k = (4 - length body mod 4) mod 4" "length body mod 4 \<noteq> 1"
proof -
  have "\<exists>body k. b64_encode bytes = body @ replicate k 61 \<and> k \<le> 2 \<and> list_all is_alphabet body
    \<and> k = (4 - length body mod 4) mod 4 \<and> length body mod 4 \<noteq> 1"
    using assms
  proof (induction bytes rule: b64_encode.induct)
    case 1
    show ?case by (rule exI [of _ "[]"]) simp
  next
    case (2 x)
    then show ?case
      by (intro exI [of _ "[b64 (x div 4), b64 (x mod 4 * 16)]"] exI [of _ 2])
        (auto simp: b64_alphabet numeral_2_eq_2)
  next
    case (3 x y)
    then have "x div 4 < 64" "x mod 4 * 16 + y div 16 < 64" "y mod 16 * 4 < 64" by auto
    then show ?case
      by (intro exI [of _ "[b64 (x div 4), b64 (x mod 4 * 16 + y div 16), b64 (y mod 16 * 4)]"] exI [of _ 1])
        (simp add: b64_alphabet)
  next
    case (4 x y z r)
    then obtain body k where ih: "b64_encode r = body @ replicate k 61" "k \<le> 2" "list_all is_alphabet body"
      "k = (4 - length body mod 4) mod 4" "length body mod 4 \<noteq> 1" by auto
    from 4 have "x div 4 < 64" "x mod 4 * 16 + y div 16 < 64" "y mod 16 * 4 + z div 64 < 64" "z mod 64 < 64"
      by auto
    with ih show ?case
      by (intro exI [of _ "[b64 (x div 4), b64 (x mod 4 * 16 + y div 16), b64 (y mod 16 * 4 + z div 64), b64 (z mod 64)] @ body"]
           exI [of _ k]) (simp add: b64_alphabet)
  qed
  then show thesis using that by blast
qed

lemma alphabet_units:
  assumes "list_all is_alphabet body"
  shows "c \<in> set body \<Longrightarrow> c \<noteq> 61 \<and> c \<noteq> 45 \<and> c \<noteq> 95"
  using assms by (auto simp: list_all_iff is_alphabet_def)

lemma base64_shape_body:
  "list_all is_alphabet body \<Longrightarrow> k \<le> 2 \<Longrightarrow> base64_shape (body @ replicate k 61)"
proof -
  assume "list_all is_alphabet body" "k \<le> 2"
  moreover have "dropWhile is_alphabet (replicate k 61) = replicate k 61"
    by (cases k) (simp_all add: is_alphabet_def)
  ultimately show ?thesis
    by (simp add: base64_shape_def dropWhile_append list_all_iff Let_def)
qed

lemma normalize_body:
  assumes "list_all is_alphabet body"
  shows "replace_unit 95 47 (replace_unit 45 43 (body @ replicate k 61)) = body @ replicate k 61"
    and "replace_unit 95 47 (replace_unit 45 43 (replace_unit 47 95 (replace_unit 43 45 body))) = body"
    and "filter (\<lambda>c. c \<noteq> 61) (body @ replicate k 61) = body"
  using alphabet_units [OF assms]
  by (auto simp: replace_unit_def intro!: map_idI filter_True) 

lemma pad4: "(n + (4 - n mod 4) mod 4) mod 4 = (0 :: nat)"
proof -
  have small: "(r + (4 - r) mod 4) mod 4 = (0 :: nat)" if "r < 4" for r
  proof -
    from that consider "r = 0" | "r = 1" | "r = 2" | "r = 3" by linarith
    then show ?thesis by cases simp_all
  qed
  have "(n + (4 - n mod 4) mod 4) mod 4 = (n mod 4 + (4 - n mod 4) mod 4) mod 4"
    by (simp only: mod_add_left_eq)
  also have "\<dots> = 0" by (rule small) simp
  finally show ?thesis .
qed

lemma decodeBase64_normalized:
  assumes n: "replace_unit 95 47 (replace_unit 45 43 v) = body @ replicate j 61"
    and body: "list_all is_alphabet body" and k: "k = (4 - length body mod 4) mod 4"
    and j: "j = 0 \<or> j = k" "k \<le> 2" "length body mod 4 \<noteq> 1"
    and g: "decode_groups limit [] (body @ replicate k 61) = Some bytes"
    and d: "utf8_decode bytes = Some s" "0 \<notin> set s" "s \<noteq> []"
    and p: "9 * length (chars s) \<le> 10 * length (filter is_printable (chars s))"
  shows "decodeBase64 v limit = Some s"
proof -
  have len: "length (body @ replicate j 61) mod 4 \<noteq> 1"
    and pad: "(body @ replicate j 61) @ replicate ((4 - length (body @ replicate j 61) mod 4) mod 4) 61
      = body @ replicate k 61"
  proof -
    have z: "(length body + k) mod 4 = 0"
      unfolding k by (rule pad4)
    from j z show "length (body @ replicate j 61) mod 4 \<noteq> 1" by auto
    from j z k show "(body @ replicate j 61) @ replicate ((4 - length (body @ replicate j 61) mod 4) mod 4) 61
      = body @ replicate k 61" by auto
  qed
  have shape: "base64_shape (body @ replicate j 61)"
    using body j by (intro base64_shape_body) auto
  show ?thesis
    unfolding decodeBase64_def n Let_def pad using len shape g d p by simp
qed

lemma base64_roundtrip_raw:
  assumes s: "well_formed s" "take 1 s \<noteq> [0xFEFF]" "0 \<notin> set s" "s \<noteq> []"
    and p: "9 * length (chars s) \<le> 10 * length (filter is_printable (chars s))"
    and l: "length (utf8_encode s) \<le> limit"
  shows "decodeBase64 (b64_encode (utf8_encode s)) limit = Some s"
    and "decodeBase64 (b64url_encode (utf8_encode s)) limit = Some s"
proof -
  have bytes: "\<forall>x \<in> set (utf8_encode s). x < 256" using utf8_encode_bytes [OF s(1)] by blast
  obtain body k where e: "b64_encode (utf8_encode s) = body @ replicate k 61" and k: "k \<le> 2"
    "list_all is_alphabet body" "k = (4 - length body mod 4) mod 4" "length body mod 4 \<noteq> 1"
    using b64_encode_shape [OF bytes] .
  have g: "decode_groups limit [] (body @ replicate k 61) = Some (utf8_encode s)"
    using decode_groups_encode [OF bytes, of "[]" limit] l by (simp add: e)
  note norm = normalize_body [OF k(2)]
  note dec = decodeBase64_normalized [OF _ k(2,3) _ k(1,4) g utf8_roundtrip [OF s(1,2)] s(3,4) p]
  show "decodeBase64 (b64_encode (utf8_encode s)) limit = Some s"
    unfolding e by (rule dec [OF norm(1)]) simp
  show "decodeBase64 (b64url_encode (utf8_encode s)) limit = Some s"
    unfolding b64url_encode_def e by (rule dec [of _ 0]) (simp_all only: norm replicate_0 append_Nil2 simp_thms)
qed
section \<open>The decode budget over a scan\<close>

definition decode_cost :: "ustring \<times> nat \<Rightarrow> nat" where
  "decode_cost call = (case call of (value, limit) \<Rightarrow> min ((length value * 3 + 3) div 4) (limit + 1))"

fun run_decodes :: "(ustring \<times> nat) list \<Rightarrow> decode_budget \<Rightarrow> decode_budget \<times> ustring option list" where
  "run_decodes [] budget = (budget, [])"
| "run_decodes ((value, limit) # calls) budget =
     (case decodeBase64Budgeted value limit budget of
        (budget, r) \<Rightarrow> (case run_decodes calls budget of (budget, rs) \<Rightarrow> (budget, r # rs)))"

lemma run_decodes_exhausted:
  "db_exhausted b \<Longrightarrow> run_decodes calls b = (b, replicate (length calls) None)"
  by (induction calls b rule: run_decodes.induct) (auto simp: decodeBase64Budgeted_def)

definition affordable :: "decode_budget \<Rightarrow> (ustring \<times> nat) list \<Rightarrow> bool" where
  "affordable b calls \<longleftrightarrow>
     db_candidates b + length calls \<le> MAX_DECODE_ATTEMPTS \<and>
     db_bytes b + sum_list (map decode_cost calls) \<le> MAX_DECODED_BYTES"

lemma run_decodes_nth:
  assumes "\<not> db_exhausted b" and "i < length calls"
  shows "snd (run_decodes calls b) ! i =
    (if affordable b (take (Suc i) calls) then decodeBase64 (fst (calls ! i)) (snd (calls ! i)) else None)"
  using assms
proof (induction calls arbitrary: b i)
  case (Cons call calls)
  obtain v l where call: "call = (v, l)" by (cases call)
  let ?b = "b\<lparr>db_candidates := Suc (db_candidates b), db_bytes := db_bytes b + decode_cost call\<rparr>"
  show ?case
  proof (cases "affordable b [call]")
    case True
    then have step: "decodeBase64Budgeted v l b = (?b, decodeBase64 v l)"
      using Cons.prems(1) by (simp add: decodeBase64Budgeted_def affordable_def decode_cost_def call)
    have tail: "affordable ?b cs = affordable b (call # cs)" for cs
      by (simp add: affordable_def add.assoc)
    show ?thesis
    proof (cases i)
      case 0
      with True step show ?thesis by (simp add: call split: prod.splits)
    next
      case (Suc j)
      have "\<not> db_exhausted ?b" using Cons.prems(1) by simp
      from Cons.IH [OF this, of j] Cons.prems(2) Suc step show ?thesis
        by (auto simp: call tail [unfolded call] split: prod.splits)
    qed
  next
    case False
    have step: "decodeBase64Budgeted v l b = (?b\<lparr>db_exhausted := True\<rparr>, None)"
      using False Cons.prems(1)
      by (auto simp: decodeBase64Budgeted_def affordable_def decode_cost_def call Let_def)
    have none: "\<not> affordable b (call # cs)" for cs
      using False by (auto simp: affordable_def)
    from Cons.prems step none show ?thesis
      by (cases i) (simp_all add: call run_decodes_exhausted)
  qed
qed simp

section \<open>Properties\<close>



text \<open>The decode budget is exact over a whole scan: the i-th candidate is decoded exactly
  when fewer than 128 came before it and the estimated bytes up to and including it stay
  within 262144; from the first candidate beyond either bound on, nothing is decoded.\<close>

theorem decode_budget_exact:
  assumes "i < length calls"
  shows "snd (run_decodes calls new_decode_budget) ! i =
    (if i < MAX_DECODE_ATTEMPTS \<and> sum_list (map decode_cost (take (Suc i) calls)) \<le> MAX_DECODED_BYTES
     then decodeBase64 (fst (calls ! i)) (snd (calls ! i)) else None)"
proof -
  have "affordable new_decode_budget (take (Suc i) calls)
    \<longleftrightarrow> i < MAX_DECODE_ATTEMPTS \<and> sum_list (map decode_cost (take (Suc i) calls)) \<le> MAX_DECODED_BYTES"
    using assms by (auto simp: affordable_def new_decode_budget_def)
  then show ?thesis
    using run_decodes_nth [OF _ assms, of new_decode_budget] by (simp add: new_decode_budget_def)
qed

theorem decode_budget_exact_witness:
  "snd (run_decodes [(js ''aGVsbG8'', 100)] new_decode_budget) ! 0 = decodeBase64 (js ''aGVsbG8'') 100"
  using decode_budget_exact [of 0 "[(js ''aGVsbG8'', 100)]"]
  by (simp add: decode_cost_def js_def MAX_DECODE_ATTEMPTS_def MAX_DECODED_BYTES_def)

end
