(* ===== verification/Rules_Schema.thy ===== *)
theory Rules_Schema
  imports Json
begin

text \<open>
  The structural validator of rules packs (\<open>core/src/custom/schema.ts\<close>) on JSON values, the
  typed payload it stands for, and the reading of an accepted value as that payload. The
  regular expressions of the source are anchored character-class patterns; each is written as
  the predicate it denotes (\<open>$\<close> without the \<open>m\<close> flag is the end of the string).
\<close>

section \<open>The payload\<close>

datatype rules_category = Credential | CustomerData | PersonalData | InternalInfra | Project

datatype rules_action = RuleWarn | RuleBlock

datatype match_spec =
  PatternMatchSpec (ms_pattern: ustring) (ms_caseInsensitive: "bool option") (ms_minEntropyTenths: "nat option")
| TermsMatchSpec (ms_salt: ustring) (ms_digests: "ustring list") (ms_maxWords: nat)

record context_spec =
  cx_keywords :: "ustring list"
  cx_window :: nat

record detector_spec =
  ds_id :: ustring
  ds_label :: ustring
  ds_category :: rules_category
  ds_action :: rules_action
  ds_match :: match_spec
  ds_context :: "context_spec option"

record rules_payload =
  rp_packId :: ustring
  rp_tenantId :: ustring
  rp_version :: nat
  rp_issuedAt :: ustring
  rp_expiresAt :: ustring
  rp_issuer :: ustring
  rp_detectors :: "detector_spec list"
  rp_positives :: "(ustring \<times> ustring) list"
  rp_negatives :: "ustring list"

section \<open>Lexical predicates\<close>

definition is_lower_alpha :: "nat \<Rightarrow> bool" where "is_lower_alpha c \<longleftrightarrow> 97 \<le> c \<and> c \<le> 122"

definition is_upper_alpha :: "nat \<Rightarrow> bool" where "is_upper_alpha c \<longleftrightarrow> 65 \<le> c \<and> c \<le> 90"

definition is_alnum :: "nat \<Rightarrow> bool" where
  "is_alnum c \<longleftrightarrow> is_digit c \<or> is_lower_alpha c \<or> is_upper_alpha c"

definition IDENTIFIER :: "ustring \<Rightarrow> bool" where
  "IDENTIFIER s \<longleftrightarrow>
     (case s of [] \<Rightarrow> False
      | c # cs \<Rightarrow> (is_lower_alpha c \<or> is_digit c) \<and> length cs \<le> 63 \<and>
          list_all (\<lambda>c. is_lower_alpha c \<or> is_digit c \<or> c \<in> set (js ''._-'')) cs)"

text \<open>\<open>dddd-dd-ddTdd:dd:ddZ\<close>.\<close>

definition TIMESTAMP :: "ustring \<Rightarrow> bool" where
  "TIMESTAMP s \<longleftrightarrow> length s = 20 \<and>
     list_all2 (\<lambda>p c. if p = 100 then is_digit c else c = p) (js ''dddd-dd-ddTdd:dd:ddZ'') s"

definition KEYWORD :: "ustring \<Rightarrow> bool" where
  "KEYWORD s \<longleftrightarrow>
     (case s of [] \<Rightarrow> False
      | c # cs \<Rightarrow> is_alnum c \<and> 1 \<le> length cs \<and> length cs \<le> 39 \<and>
          list_all (\<lambda>c. is_alnum c \<or> c \<in> set (js '' _.@:/-'')) cs)"

definition SALT :: "ustring \<Rightarrow> bool" where
  "SALT s \<longleftrightarrow>
     (let b64 = list_all (\<lambda>c. is_alnum c \<or> c = 43 \<or> c = 47) in
      (length s = 24 \<and> b64 (take 22 s) \<and> drop 22 s = js ''=='') \<or>
      (length s = 44 \<and> b64 (take 43 s) \<and> drop 43 s = js ''=''))"

definition DIGEST :: "ustring \<Rightarrow> bool" where
  "DIGEST s \<longleftrightarrow> length s = 64 \<and> list_all (\<lambda>c. is_digit c \<or> (97 \<le> c \<and> c \<le> 102)) s"

definition CATEGORIES :: "(ustring \<times> rules_category) list" where
  "CATEGORIES = [(js ''credential'', Credential), (js ''customer_data'', CustomerData),
     (js ''personal_data'', PersonalData), (js ''internal_infra'', InternalInfra), (js ''project'', Project)]"

section \<open>JSON helpers\<close>

fun as_object :: "json \<Rightarrow> (ustring \<times> json) list option" where
  "as_object (JObj kvs) = Some kvs"
| "as_object _ = None"

definition isObject :: "json \<Rightarrow> bool" where
  "isObject v \<longleftrightarrow> as_object v \<noteq> None"

text \<open>A property read: \<open>None\<close> where the value is \<open>undefined\<close>.\<close>

definition field :: "json \<Rightarrow> string \<Rightarrow> json option" where
  "field v key = (case as_object v of None \<Rightarrow> None | Some kvs \<Rightarrow> obj_get kvs (js key))"

definition hasOnly :: "json \<Rightarrow> string list \<Rightarrow> string list \<Rightarrow> bool" where
  "hasOnly v required optional \<longleftrightarrow>
     (case as_object v of None \<Rightarrow> False
      | Some kvs \<Rightarrow>
          list_all (\<lambda>key. js key \<in> set (map fst kvs)) required \<and>
          list_all (\<lambda>key. key \<in> set (map js (required @ optional))) (map fst kvs))"

fun codePoints_count :: "ustring \<Rightarrow> nat" where
  "codePoints_count [] = 0"
| "codePoints_count [a] = 1"
| "codePoints_count (a # b # s) =
     (if is_high a \<and> is_low b then Suc (codePoints_count s) else Suc (codePoints_count (b # s)))"

fun isText :: "nat \<Rightarrow> nat \<Rightarrow> json option \<Rightarrow> bool" where
  "isText mn mx (Some (JStr s)) = (mn \<le> codePoints_count s \<and> codePoints_count s \<le> mx)"
| "isText mn mx _ = False"

fun isInteger :: "int \<Rightarrow> int \<Rightarrow> json option \<Rightarrow> bool" where
  "isInteger mn mx (Some (JNum x)) = (x = of_int \<lfloor>x\<rfloor> \<and> mn \<le> \<lfloor>x\<rfloor> \<and> \<lfloor>x\<rfloor> \<le> mx)"
| "isInteger mn mx _ = False"

fun is_array :: "nat \<Rightarrow> nat \<Rightarrow> (json list \<Rightarrow> bool) \<Rightarrow> json option \<Rightarrow> bool" where
  "is_array mn mx P (Some (JArr xs)) = (mn \<le> length xs \<and> length xs \<le> mx \<and> P xs)"
| "is_array mn mx P _ = False"

fun is_string :: "(ustring \<Rightarrow> bool) \<Rightarrow> json option \<Rightarrow> bool" where
  "is_string P (Some (JStr s)) = P s"
| "is_string P _ = False"

definition unique :: "json list \<Rightarrow> bool" where
  "unique = distinct"

section \<open>The validator\<close>

definition isContext :: "json \<Rightarrow> bool" where
  "isContext v \<longleftrightarrow>
     isObject v \<and> hasOnly v [''keywords'', ''window''] [] \<and>
     is_array 1 20 (\<lambda>ks. list_all (\<lambda>k. is_string KEYWORD (Some k)) ks \<and> unique ks) (field v ''keywords'') \<and>
     isInteger 1 256 (field v ''window'')"

definition isPatternMatch :: "json \<Rightarrow> bool" where
  "isPatternMatch v \<longleftrightarrow>
     hasOnly v [''type'', ''pattern''] [''caseInsensitive'', ''minEntropyTenths''] \<and>
     field v ''type'' = Some (JStr (js ''pattern'')) \<and>
     isText 1 256 (field v ''pattern'') \<and>
     (case field v ''caseInsensitive'' of None \<Rightarrow> True | Some (JBool _) \<Rightarrow> True | _ \<Rightarrow> False) \<and>
     (field v ''minEntropyTenths'' = None \<or> isInteger 0 80 (field v ''minEntropyTenths''))"

definition isTermsMatch :: "json \<Rightarrow> bool" where
  "isTermsMatch v \<longleftrightarrow>
     hasOnly v [''type'', ''salt'', ''digests'', ''maxWords''] [] \<and>
     field v ''type'' = Some (JStr (js ''terms'')) \<and>
     is_string SALT (field v ''salt'') \<and>
     is_array 1 5000 (\<lambda>ds. list_all (\<lambda>d. is_string DIGEST (Some d)) ds \<and> unique ds) (field v ''digests'') \<and>
     isInteger 1 4 (field v ''maxWords'')"

definition isDetector :: "json \<Rightarrow> bool" where
  "isDetector v \<longleftrightarrow>
     isObject v \<and> hasOnly v [''id'', ''label'', ''category'', ''action'', ''match''] [''context''] \<and>
     is_string IDENTIFIER (field v ''id'') \<and>
     isText 1 80 (field v ''label'') \<and>
     is_string (\<lambda>c. c \<in> set (map fst CATEGORIES)) (field v ''category'') \<and>
     is_string (\<lambda>a. a = js ''warn'' \<or> a = js ''block'') (field v ''action'') \<and>
     (case field v ''match'' of None \<Rightarrow> False
      | Some m \<Rightarrow> isObject m \<and> (isPatternMatch m \<or> isTermsMatch m)) \<and>
     (case field v ''context'' of None \<Rightarrow> True | Some c \<Rightarrow> isContext c)"

definition isTests :: "json \<Rightarrow> bool" where
  "isTests v \<longleftrightarrow>
     isObject v \<and> hasOnly v [''positives'', ''negatives''] [] \<and>
     is_array 0 200 (list_all (\<lambda>p. isObject p \<and> hasOnly p [''detector'', ''text''] [] \<and>
         is_string IDENTIFIER (field p ''detector'') \<and> isText 1 2000 (field p ''text''))) (field v ''positives'') \<and>
     is_array 0 200 (list_all (\<lambda>n. isText 1 2000 (Some n))) (field v ''negatives'')"

definition isRulesPackPayload :: "json \<Rightarrow> bool" where
  "isRulesPackPayload v \<longleftrightarrow>
     isObject v \<and>
     hasOnly v [''schemaVersion'', ''kind'', ''packId'', ''tenantId'', ''version'', ''issuedAt'',
       ''expiresAt'', ''issuer'', ''detectors'', ''tests''] [] \<and>
     field v ''schemaVersion'' = Some (JNum 1) \<and>
     field v ''kind'' = Some (JStr (js ''xsom.secret-guard.rules-pack'')) \<and>
     is_string IDENTIFIER (field v ''packId'') \<and>
     isText 1 128 (field v ''tenantId'') \<and>
     isInteger 1 2147483647 (field v ''version'') \<and>
     is_string TIMESTAMP (field v ''issuedAt'') \<and>
     is_string TIMESTAMP (field v ''expiresAt'') \<and>
     isText 1 80 (field v ''issuer'') \<and>
     is_array 1 200 (list_all isDetector) (field v ''detectors'') \<and>
     (case field v ''tests'' of None \<Rightarrow> False | Some t \<Rightarrow> isTests t)"

section \<open>Reading an accepted value\<close>

text \<open>The property reads of a value the validator typed; the defaults are never read from an
  accepted value.\<close>

fun the_string :: "json option \<Rightarrow> ustring" where
  "the_string (Some (JStr s)) = s"
| "the_string _ = []"

fun the_nat :: "json option \<Rightarrow> nat" where
  "the_nat (Some (JNum x)) = nat \<lfloor>x\<rfloor>"
| "the_nat _ = 0"

fun the_array :: "json option \<Rightarrow> json list" where
  "the_array (Some (JArr xs)) = xs"
| "the_array _ = []"

definition read_match :: "json \<Rightarrow> match_spec" where
  "read_match v =
     (if field v ''type'' = Some (JStr (js ''terms'')) then
        TermsMatchSpec (the_string (field v ''salt''))
          (map (\<lambda>d. the_string (Some d)) (the_array (field v ''digests''))) (the_nat (field v ''maxWords''))
      else
        PatternMatchSpec (the_string (field v ''pattern''))
          (case field v ''caseInsensitive'' of Some (JBool b) \<Rightarrow> Some b | _ \<Rightarrow> None)
          (case field v ''minEntropyTenths'' of Some n \<Rightarrow> Some (the_nat (Some n)) | None \<Rightarrow> None))"

definition read_context :: "json \<Rightarrow> context_spec" where
  "read_context v =
     \<lparr>cx_keywords = map (\<lambda>k. the_string (Some k)) (the_array (field v ''keywords'')),
      cx_window = the_nat (field v ''window'')\<rparr>"

definition read_detector :: "json \<Rightarrow> detector_spec" where
  "read_detector v =
     \<lparr>ds_id = the_string (field v ''id''), ds_label = the_string (field v ''label''),
      ds_category = (case map_of CATEGORIES (the_string (field v ''category'')) of
                       Some c \<Rightarrow> c | None \<Rightarrow> Credential),
      ds_action = (if the_string (field v ''action'') = js ''block'' then RuleBlock else RuleWarn),
      ds_match = (case field v ''match'' of Some m \<Rightarrow> read_match m | None \<Rightarrow> read_match JNull),
      ds_context = map_option read_context (field v ''context'')\<rparr>"

definition read_payload :: "json \<Rightarrow> rules_payload" where
  "read_payload v =
     (let tests = (case field v ''tests'' of Some t \<Rightarrow> t | None \<Rightarrow> JNull) in
      \<lparr>rp_packId = the_string (field v ''packId''), rp_tenantId = the_string (field v ''tenantId''),
       rp_version = the_nat (field v ''version''), rp_issuedAt = the_string (field v ''issuedAt''),
       rp_expiresAt = the_string (field v ''expiresAt''), rp_issuer = the_string (field v ''issuer''),
       rp_detectors = map read_detector (the_array (field v ''detectors'')),
       rp_positives = map (\<lambda>p. (the_string (field p ''detector''), the_string (field p ''text'')))
                        (the_array (field tests ''positives'')),
       rp_negatives = map (\<lambda>n. the_string (Some n)) (the_array (field tests ''negatives''))\<rparr>)"

section \<open>Payloads and their JSON form\<close>

definition wf_context :: "context_spec \<Rightarrow> bool" where
  "wf_context c \<longleftrightarrow> 1 \<le> length (cx_keywords c) \<and> length (cx_keywords c) \<le> 20 \<and>
     list_all KEYWORD (cx_keywords c) \<and> distinct (cx_keywords c) \<and> 1 \<le> cx_window c \<and> cx_window c \<le> 256"

fun wf_match :: "match_spec \<Rightarrow> bool" where
  "wf_match (PatternMatchSpec p ci tenths) =
     (1 \<le> codePoints_count p \<and> codePoints_count p \<le> 256 \<and> pred_option (\<lambda>t. t \<le> 80) tenths)"
| "wf_match (TermsMatchSpec salt digests maxWords) =
     (SALT salt \<and> 1 \<le> length digests \<and> length digests \<le> 5000 \<and> list_all DIGEST digests \<and> distinct digests \<and>
      1 \<le> maxWords \<and> maxWords \<le> 4)"

definition wf_detector :: "detector_spec \<Rightarrow> bool" where
  "wf_detector d \<longleftrightarrow> IDENTIFIER (ds_id d) \<and> 1 \<le> codePoints_count (ds_label d) \<and> codePoints_count (ds_label d) \<le> 80 \<and>
     wf_match (ds_match d) \<and> pred_option wf_context (ds_context d)"

definition wf_payload :: "rules_payload \<Rightarrow> bool" where
  "wf_payload p \<longleftrightarrow>
     IDENTIFIER (rp_packId p) \<and> 1 \<le> codePoints_count (rp_tenantId p) \<and> codePoints_count (rp_tenantId p) \<le> 128 \<and>
     1 \<le> rp_version p \<and> rp_version p \<le> 2147483647 \<and> TIMESTAMP (rp_issuedAt p) \<and> TIMESTAMP (rp_expiresAt p) \<and>
     1 \<le> codePoints_count (rp_issuer p) \<and> codePoints_count (rp_issuer p) \<le> 80 \<and>
     1 \<le> length (rp_detectors p) \<and> length (rp_detectors p) \<le> 200 \<and> list_all wf_detector (rp_detectors p) \<and>
     length (rp_positives p) \<le> 200 \<and>
     list_all (\<lambda>(d, s). IDENTIFIER d \<and> 1 \<le> codePoints_count s \<and> codePoints_count s \<le> 2000) (rp_positives p) \<and>
     length (rp_negatives p) \<le> 200 \<and>
     list_all (\<lambda>s. 1 \<le> codePoints_count s \<and> codePoints_count s \<le> 2000) (rp_negatives p)"

definition json_num :: "nat \<Rightarrow> json" where "json_num n = JNum (of_nat n)"

fun json_of_match :: "match_spec \<Rightarrow> json" where
  "json_of_match (PatternMatchSpec p ci tenths) = JObj
     ([(js ''type'', JStr (js ''pattern'')), (js ''pattern'', JStr p)] @
      (case ci of None \<Rightarrow> [] | Some b \<Rightarrow> [(js ''caseInsensitive'', JBool b)]) @
      (case tenths of None \<Rightarrow> [] | Some t \<Rightarrow> [(js ''minEntropyTenths'', json_num t)]))"
| "json_of_match (TermsMatchSpec salt digests maxWords) = JObj
     [(js ''type'', JStr (js ''terms'')), (js ''salt'', JStr salt), (js ''digests'', JArr (map JStr digests)),
      (js ''maxWords'', json_num maxWords)]"

definition json_of_context :: "context_spec \<Rightarrow> json" where
  "json_of_context c = JObj
     [(js ''keywords'', JArr (map JStr (cx_keywords c))), (js ''window'', json_num (cx_window c))]"

fun category_name :: "rules_category \<Rightarrow> ustring" where
  "category_name Credential = js ''credential''"
| "category_name CustomerData = js ''customer_data''"
| "category_name PersonalData = js ''personal_data''"
| "category_name InternalInfra = js ''internal_infra''"
| "category_name Project = js ''project''"

definition json_of_detector :: "detector_spec \<Rightarrow> json" where
  "json_of_detector d = JObj
     ([(js ''id'', JStr (ds_id d)), (js ''label'', JStr (ds_label d)), (js ''category'', JStr (category_name (ds_category d))),
       (js ''action'', JStr (if ds_action d = RuleBlock then js ''block'' else js ''warn'')),
       (js ''match'', json_of_match (ds_match d))] @
      (case ds_context d of None \<Rightarrow> [] | Some c \<Rightarrow> [(js ''context'', json_of_context c)]))"

definition json_of_payload :: "rules_payload \<Rightarrow> json" where
  "json_of_payload p = JObj
     [(js ''schemaVersion'', JNum 1), (js ''kind'', JStr (js ''xsom.secret-guard.rules-pack'')),
      (js ''packId'', JStr (rp_packId p)), (js ''tenantId'', JStr (rp_tenantId p)), (js ''version'', json_num (rp_version p)),
      (js ''issuedAt'', JStr (rp_issuedAt p)), (js ''expiresAt'', JStr (rp_expiresAt p)), (js ''issuer'', JStr (rp_issuer p)),
      (js ''detectors'', JArr (map json_of_detector (rp_detectors p))),
      (js ''tests'', JObj
         [(js ''positives'', JArr (map (\<lambda>(d, s). JObj [(js ''detector'', JStr d), (js ''text'', JStr s)]) (rp_positives p))),
          (js ''negatives'', JArr (map JStr (rp_negatives p)))])]"

lemma js_inject [simp]: "js a = js b \<longleftrightarrow> a = b"
  unfolding js_def by (rule inj_map_eq_map) (simp add: inj_def)

lemma isInteger_num: "isInteger mn mx (Some (json_num n)) \<longleftrightarrow> mn \<le> int n \<and> int n \<le> mx"
  by (simp add: json_num_def)

lemma the_nat_num [simp]: "the_nat (Some (json_num n)) = n"
  by (simp add: json_num_def)

lemma field_obj: "field (JObj kvs) key = map_of kvs (js key)"
  by (simp add: field_def obj_get_def)

lemma hasOnly_obj: "hasOnly (JObj kvs) required optional \<longleftrightarrow>
    list_all (\<lambda>key. js key \<in> set (map fst kvs)) required \<and>
    list_all (\<lambda>key. key \<in> set (map js (required @ optional))) (map fst kvs)"
  by (simp add: hasOnly_def)

lemma unique_map: "unique (map JStr xs) \<longleftrightarrow> distinct xs"
  by (simp add: unique_def distinct_map inj_on_def)

lemmas written = field_obj hasOnly_obj isInteger_num unique_map isObject_def list_all_iff

lemma context_roundtrip: "wf_context c \<Longrightarrow> isContext (json_of_context c) \<and> read_context (json_of_context c) = c"
  by (simp add: isContext_def read_context_def json_of_context_def wf_context_def written comp_def)

lemma match_roundtrip:
  "wf_match m \<Longrightarrow> isObject (json_of_match m) \<and> (isPatternMatch (json_of_match m) \<or> isTermsMatch (json_of_match m)) \<and>
    read_match (json_of_match m) = m"
  by (cases m)
    (auto simp: isPatternMatch_def isTermsMatch_def read_match_def written comp_def json_num_def
       split: option.splits)

lemma category_known:
  "category_name c \<in> set (map fst CATEGORIES)" "map_of CATEGORIES (category_name c) = Some c"
  by (cases c; simp add: CATEGORIES_def)+

lemma detector_roundtrip:
  assumes "wf_detector d"
  shows "isDetector (json_of_detector d) \<and> read_detector (json_of_detector d) = d"
proof -
  have m: "wf_match (ds_match d)" and c: "\<And>c. ds_context d = Some c \<Longrightarrow> wf_context c"
    using assms by (simp_all add: wf_detector_def)
  have a: "(if (if ds_action d = RuleBlock then js ''block'' else js ''warn'') = js ''block'' then RuleBlock else RuleWarn) = ds_action d"
    by (cases "ds_action d") simp_all
  show ?thesis
    using assms match_roundtrip [OF m] context_roundtrip c category_known a
    by (cases "ds_context d")
      (simp_all add: isDetector_def read_detector_def json_of_detector_def written wf_detector_def)
qed

lemma payload_roundtrip_aux:
  assumes "wf_payload p"
  shows "isRulesPackPayload (json_of_payload p) \<and> read_payload (json_of_payload p) = p"
proof -
  have d: "\<And>d. d \<in> set (rp_detectors p) \<Longrightarrow> isDetector (json_of_detector d) \<and> read_detector (json_of_detector d) = d"
    using assms detector_roundtrip by (simp add: wf_payload_def list_all_iff)
  then have "map (\<lambda>x. read_detector (json_of_detector x)) (rp_detectors p) = rp_detectors p"
    by (simp add: map_idI)
  with assms d show ?thesis
    by (auto simp: isRulesPackPayload_def read_payload_def json_of_payload_def isTests_def written wf_payload_def Let_def
        comp_def case_prod_beta)
qed

text \<open>Inversion of the helpers on an accepted value.\<close>

lemma isText_Some: "isText mn mx v \<longleftrightarrow> (\<exists>s. v = Some (JStr s) \<and> mn \<le> codePoints_count s \<and> codePoints_count s \<le> mx)"
  by (cases "(mn, mx, v)" rule: isText.cases) auto

lemma isInteger_Some:
  "0 \<le> mn \<Longrightarrow> isInteger mn mx v \<Longrightarrow> mn \<le> int (the_nat v) \<and> int (the_nat v) \<le> mx"
  by (cases "(mn, mx, v)" rule: isInteger.cases) auto

lemma is_string_Some: "is_string P v \<longleftrightarrow> (\<exists>s. v = Some (JStr s) \<and> P s)"
  by (cases "(P, v)" rule: is_string.cases) auto

lemma is_array_Some: "is_array mn mx P v \<longleftrightarrow> (\<exists>xs. v = Some (JArr xs) \<and> mn \<le> length xs \<and> length xs \<le> mx \<and> P xs)"
  by (cases "(mn, mx, P, v)" rule: is_array.cases) auto

lemmas accepted_simps = isText_Some is_string_Some is_array_Some list_all_iff

lemma strings_distinct:
  "\<forall>x \<in> set xs. \<exists>s. x = JStr s \<and> P s \<Longrightarrow> unique xs \<Longrightarrow> distinct (map (\<lambda>k. the_string (Some k)) xs)"
  unfolding unique_def distinct_map by (auto intro!: inj_onI) (metis the_string.simps(1))

lemma strings_all: "\<forall>x \<in> set xs. \<exists>s. x = JStr s \<and> P s \<Longrightarrow> x \<in> set xs \<Longrightarrow> P (the_string (Some x))"
  by auto

lemma context_accepted: "isContext v \<Longrightarrow> wf_context (read_context v)"
  using isInteger_Some [of 1 256 "field v ''window''"]
  by (auto simp: isContext_def wf_context_def read_context_def accepted_simps strings_distinct intro: strings_all)

lemma terms_accepted: "isTermsMatch v \<Longrightarrow> wf_match (read_match v)"
  using isInteger_Some [of 1 4 "field v ''maxWords''"]
  by (auto simp: isTermsMatch_def read_match_def accepted_simps strings_distinct intro: strings_all)

lemma pattern_accepted: "isPatternMatch v \<Longrightarrow> wf_match (read_match v)"
  using isInteger_Some [of 0 80 "field v ''minEntropyTenths''"]
  by (auto simp: isPatternMatch_def read_match_def accepted_simps split: option.splits json.splits)

lemma detector_accepted: "isDetector v \<Longrightarrow> wf_detector (read_detector v)"
  using context_accepted terms_accepted pattern_accepted
  by (auto simp: isDetector_def wf_detector_def read_detector_def accepted_simps split: option.splits)

lemma payload_accepted: "isRulesPackPayload v \<Longrightarrow> wf_payload (read_payload v)"
proof -
  assume v: "isRulesPackPayload v"
  then obtain t where t: "field v ''tests'' = Some t" "isTests t"
    by (auto simp: isRulesPackPayload_def split: option.splits)
  have n: "1 \<le> int (the_nat (field v ''version''))" "int (the_nat (field v ''version'')) \<le> 2147483647"
    using v isInteger_Some [of 1 2147483647 "field v ''version''"] by (auto simp: isRulesPackPayload_def)
  have tests: "length (rp_positives (read_payload v)) \<le> 200"
    "list_all (\<lambda>(d, s). IDENTIFIER d \<and> 1 \<le> codePoints_count s \<and> codePoints_count s \<le> 2000) (rp_positives (read_payload v))"
    "length (rp_negatives (read_payload v)) \<le> 200"
    "list_all (\<lambda>s. 1 \<le> codePoints_count s \<and> codePoints_count s \<le> 2000) (rp_negatives (read_payload v))"
    using t by (fastforce simp: isTests_def read_payload_def accepted_simps)+
  from v n tests show ?thesis
    unfolding wf_payload_def using detector_accepted
    by (intro conjI) (auto simp: isRulesPackPayload_def read_payload_def Let_def accepted_simps)
qed

section \<open>Properties\<close>

text \<open>C24: the validator accepts the JSON form of every payload within the contract's bounds, and reading it back
  gives the payload: nothing valid is rejected, lost or altered.\<close>

theorem payload_roundtrip:
  assumes "wf_payload p"
  shows "isRulesPackPayload (json_of_payload p) \<and> read_payload (json_of_payload p) = p"
  by (rule payload_roundtrip_aux [OF assms])

definition sample_payload :: rules_payload where
  "sample_payload = \<lparr>rp_packId = js ''p1'', rp_tenantId = js ''t'', rp_version = 3,
     rp_issuedAt = js ''2026-01-01T00:00:00Z'', rp_expiresAt = js ''2026-02-01T00:00:00Z'', rp_issuer = js ''i'',
     rp_detectors = [\<lparr>ds_id = js ''d.1'', ds_label = js ''D'', ds_category = Project, ds_action = RuleWarn,
       ds_match = PatternMatchSpec (js ''abc'') None (Some 35),
       ds_context = Some \<lparr>cx_keywords = [js ''key'', js ''code''], cx_window = 40\<rparr>\<rparr>],
     rp_positives = [(js ''d.1'', js ''abc'')], rp_negatives = []\<rparr>"

lemma sample_payload_wf: "wf_payload sample_payload"
  by (simp add: wf_payload_def sample_payload_def wf_detector_def wf_context_def IDENTIFIER_def TIMESTAMP_def KEYWORD_def
    is_alnum_def is_lower_alpha_def is_upper_alpha_def is_digit_def is_high_def js_def)

theorem payload_roundtrip_witness: "read_payload (json_of_payload sample_payload) = sample_payload"
  using payload_roundtrip [OF sample_payload_wf] by simp

text \<open>Whatever JSON value the validator accepts reads as a payload within the contract's bounds: at most 200
  detectors, keywords, digests, salts and identifiers of their lexical form, windows of 1 to 256, n-grams of at
  most 4 words, entropies of at most 8.0 bits, tests of at most 2,000 characters.\<close>

theorem accepted_payload_wf:
  assumes "isRulesPackPayload v"
  shows "wf_payload (read_payload v)"
  by (rule payload_accepted [OF assms])

theorem accepted_payload_wf_witness: "wf_payload (read_payload (json_of_payload sample_payload))"
  by (rule accepted_payload_wf) (rule conjunct1 [OF payload_roundtrip_aux [OF sample_payload_wf]])

end
