(* ===== verification/Pattern_Syntax.thy ===== *)
theory Pattern_Syntax
  imports Json "HOL-Library.Sublist"
begin

text \<open>
  The safe patterns of a rules pack (\<open>core/src/custom/pattern.ts\<close>, first half): syntax tree,
  parser with the contract's error codes, lengths, literal anchor and the compiled RegExp
  source. The parser's position is the rest of the source from it (\<open>peek()\<close> is its head),
  its depth an argument; every method returns the tree and the rest, or the error it throws.
  The recursion has fuel; \<open>parse_fuel\<close> shows that the fuel \<open>parse_pattern\<close> gives is
  always enough, so \<open>OutOfFuel\<close> is never returned.
\<close>

datatype pattern_error =
  PLength | InvalidCharacter | EmptyAlternative | TooDeep | EmptyClass | NegatedClass
| BadClassChar | BadRange | BadEscape | DotNotAllowed | AnchorNotAllowed | GroupNotAllowed
| UnboundedQuantifier | DanglingQuantifier | StackedQuantifier | BadQuantifier
| UnbalancedClass | UnbalancedGroup | BadLiteral | NestedRepetition | TooShort | TooLong
| NoAnchor
| OutOfFuel

definition MAX_PATTERN_LENGTH :: nat where "MAX_PATTERN_LENGTH = 256"
definition MAX_GROUP_DEPTH :: nat where "MAX_GROUP_DEPTH = 4"
definition MAX_BOUND :: nat where "MAX_BOUND = 64"
definition MIN_MATCH_LENGTH :: nat where "MIN_MATCH_LENGTH = 3"
definition MAX_MATCH_LENGTH :: nat where "MAX_MATCH_LENGTH = 256"
definition MIN_ANCHOR_LENGTH :: nat where "MIN_ANCHOR_LENGTH = 3"

definition ESCAPABLE :: ustring where
  "ESCAPABLE = [92, 94, 36, 46, 124, 63, 42, 43, 40, 41, 91, 93, 123, 125, 45, 47]"

definition code_range :: "nat \<Rightarrow> nat \<Rightarrow> nat list" where
  "code_range low high = [low ..< high + 1]"

definition DIGITS :: "nat list" where "DIGITS = code_range 48 57"

definition WORD :: "nat list" where
  "WORD = code_range 65 90 @ code_range 97 122 @ DIGITS @ [95]"

definition SPACES :: "nat list" where "SPACES = [32, 9, 10, 13, 12, 11]"

datatype atom =
  CharAtom (ca_codes: "nat list") (ca_literal: bool) (ca_source: ustring)
| GroupAtom "pterm list list"
and pterm =
  PTerm (pt_atom: atom) (pt_min: nat) (pt_max: nat) (pt_quantified: bool)

type_synonym alternatives = "pterm list list"

section \<open>Source forms\<close>

definition escapeLiteral :: "nat \<Rightarrow> ustring" where
  "escapeLiteral code = (if code \<in> set ESCAPABLE then [92, code] else [code])"

definition classCharacter :: "nat \<Rightarrow> ustring" where
  "classCharacter code =
     (case map_of [(9, 116), (10, 110), (11, 118), (12, 102), (13, 114)] code of
        Some letter \<Rightarrow> [92, letter]
      | None \<Rightarrow> if code \<in> set [92, 94, 45, 91, 93] then [92, code] else [code])"

text \<open>The \<open>while\<close> loop that extends a run of consecutive codes.\<close>

fun class_run :: "nat \<Rightarrow> nat list \<Rightarrow> nat \<times> nat list" where
  "class_run end' (c # cs) = (if c = end' + 1 then class_run c cs else (end', c # cs))"
| "class_run end' [] = (end', [])"

lemma class_run_length: "length (snd (class_run e cs)) \<le> length cs"
  by (induction e cs rule: class_run.induct) auto

function class_parts :: "nat list \<Rightarrow> ustring list" where
  "class_parts [] = []"
| "class_parts (start # rest) =
     (case class_run start rest of
        (end', rest') \<Rightarrow>
          (if end' = start then classCharacter start
           else classCharacter start @ [45] @ classCharacter end') # class_parts rest')"
  by pat_completeness auto
termination
proof (relation "measure length", simp)
  fix start rest end' rest'
  assume "(end', rest') = class_run start rest"
  with class_run_length [of start rest] show "(rest', start # rest) \<in> measure length"
    by (metis in_measure le_imp_less_Suc length_Cons snd_conv)
qed

definition classSource :: "nat list \<Rightarrow> ustring" where
  "classSource codes = [91] @ concat (class_parts (sort (remdups codes))) @ [93]"

section \<open>Parser\<close>

type_synonym 'a parsed = "pattern_error + ('a \<times> ustring)"

definition p_peek :: "ustring \<Rightarrow> nat \<Rightarrow> nat option" where
  "p_peek rest offset = unit_at rest offset"

text \<open>An escape inside or outside a class: the codes of \<open>\d\<close>, \<open>\w\<close>, \<open>\s\<close>.\<close>

definition escape_class :: "nat \<Rightarrow> nat list option" where
  "escape_class c =
     (if c = 100 then Some DIGITS else if c = 119 then Some WORD
      else if c = 115 then Some SPACES else None)"

definition classMember :: "ustring \<Rightarrow> nat list parsed" where
  "classMember rest =
     (case rest of
        [] \<Rightarrow> Inl UnbalancedClass
      | character # r \<Rightarrow>
          if character = 92 then
            (case r of
               [] \<Rightarrow> Inl BadEscape
             | escaped # r' \<Rightarrow>
                 (case escape_class escaped of
                    Some codes \<Rightarrow> Inr (codes, r')
                  | None \<Rightarrow> if escaped \<notin> set ESCAPABLE then Inl BadEscape else Inr ([escaped], r')))
          else if character = 91 \<or> character = 94 \<or> character = 45 then Inl BadClassChar
          else Inr ([character], r))"

lemma classMember_consumes: "classMember rest = Inr (codes, r) \<Longrightarrow> length r < length rest"
  by (auto simp: classMember_def split: list.splits if_splits option.splits)

text \<open>The \<open>for (;;)\<close> loop of \<open>characterClass\<close> with the codes collected so far.\<close>

function class_loop :: "nat list \<Rightarrow> ustring \<Rightarrow> nat list parsed" where
  "class_loop codes rest =
     (case p_peek rest 0 of
        None \<Rightarrow> Inl UnbalancedClass
      | Some nxt \<Rightarrow>
          if nxt = 93 then Inr (codes, drop 1 rest)
          else
            (case classMember rest of
               Inl e \<Rightarrow> Inl e
             | Inr (lower, r) \<Rightarrow>
                 if length lower = 1 \<and> p_peek r 0 = Some 45 \<and> p_peek r 1 \<noteq> None \<and> p_peek r 1 \<noteq> Some 93
                 then
                   (case classMember (drop 1 r) of
                      Inl e \<Rightarrow> Inl e
                    | Inr (upper, r') \<Rightarrow>
                        if length upper \<noteq> 1 then Inl BadClassChar
                        else if hd upper < hd lower then Inl BadRange
                        else class_loop (codes @ code_range (hd lower) (hd upper)) r')
                 else class_loop (codes @ lower) r))"
  by pat_completeness auto
termination
proof (relation "measure (\<lambda>(_, rest). length rest)", simp, goal_cases)
  case (1 codes rest nxt p lower r p' upper r')
  have "length r < length rest" "length r' < length (drop 1 r)"
    by (rule classMember_consumes [of _ lower], use 1 in simp) (rule classMember_consumes [of _ upper], use 1 in simp)
  then show ?case by simp
next
  case (2 codes rest nxt p lower r)
  have "length r < length rest"
    by (rule classMember_consumes [of _ lower], use 2 in simp)
  then show ?case by simp
qed

declare class_loop.simps [simp del]

definition characterClass :: "ustring \<Rightarrow> atom parsed" where
  "characterClass rest0 =
     (let rest = drop 1 rest0 in
      if p_peek rest 0 = Some 94 then Inl NegatedClass
      else if p_peek rest 0 = Some 93 then Inl EmptyClass
      else and_then (class_loop [] rest) (\<lambda>(codes, r). Inr (CharAtom codes False (classSource codes), r)))"

definition p_escape :: "ustring \<Rightarrow> atom parsed" where
  "p_escape rest =
     (case p_peek rest 1 of
        None \<Rightarrow> Inl BadEscape
      | Some escaped \<Rightarrow>
          let r = drop 2 rest in
          if escaped = 100 then Inr (CharAtom DIGITS False (js ''[0-9]''), r)
          else if escaped = 119 then Inr (CharAtom WORD False (js ''[A-Za-z0-9_]''), r)
          else if escaped = 115 then
            Inr (CharAtom SPACES False (js ''[ '' @ [92, 116, 92, 110, 92, 114, 92, 102, 92, 118, 93]), r)
          else if escaped \<notin> set ESCAPABLE then Inl BadEscape
          else Inr (CharAtom [escaped] True [92, escaped], r))"

text \<open>\<open>0 | [1-9][0-9]{0,2}\<close>.\<close>

definition p_number :: "ustring \<Rightarrow> (nat \<times> ustring) option" where
  "p_number rest =
     (case p_peek rest 0 of
        None \<Rightarrow> None
      | Some first \<Rightarrow>
          if first = 48 then Some (0, drop 1 rest)
          else if first < 49 \<or> 57 < first then None
          else let digits = count_while is_digit 3 rest
               in Some (digits_value (take digits rest), drop digits rest))"

definition braces :: "ustring \<Rightarrow> (nat \<times> nat) parsed" where
  "braces rest0 =
     (case p_number (drop 1 rest0) of
        None \<Rightarrow> Inl BadQuantifier
      | Some (mn, rest) \<Rightarrow>
          if p_peek rest 0 = Some 125 then
            (if mn < 1 \<or> MAX_BOUND < mn then Inl BadQuantifier else Inr ((mn, mn), drop 1 rest))
          else if p_peek rest 0 \<noteq> Some 44 then Inl BadQuantifier
          else
            let rest = drop 1 rest in
            if p_peek rest 0 = Some 125 then Inl UnboundedQuantifier
            else
              (case p_number rest of
                 None \<Rightarrow> Inl BadQuantifier
               | Some (mx, rest) \<Rightarrow>
                   if p_peek rest 0 \<noteq> Some 125 then Inl BadQuantifier
                   else if mx < 1 \<or> MAX_BOUND < mx \<or> mx < mn then Inl BadQuantifier
                   else Inr ((mn, mx), drop 1 rest)))"

text \<open>\<open>repeatsOrBranches\<close>: more than one branch, a quantifier, or a nested group that does.\<close>

function (sequential) repeatsOrBranches :: "alternatives \<Rightarrow> bool"
and some_term_repeats :: "pterm list \<Rightarrow> bool"
and term_repeats :: "pterm \<Rightarrow> bool" where
  "repeatsOrBranches [] = False"
| "repeatsOrBranches [terms] = some_term_repeats terms"
| "repeatsOrBranches (terms # terms' # alts) = True"
| "some_term_repeats [] = False"
| "some_term_repeats (t # ts) = (term_repeats t \<or> some_term_repeats ts)"
| "term_repeats (PTerm (CharAtom _ _ _) _ _ quantified) = quantified"
| "term_repeats (PTerm (GroupAtom alts) _ _ quantified) = (quantified \<or> repeatsOrBranches alts)"
  by pat_completeness auto
termination
  by (relation "measure (\<lambda>x. case x of Inl alts \<Rightarrow> size_list (size_list size) alts
        | Inr (Inl ts) \<Rightarrow> size_list size ts | Inr (Inr t) \<Rightarrow> size t)") auto

definition quantifier :: "ustring \<Rightarrow> (nat \<times> nat \<times> bool) parsed" where
  "quantifier rest =
     (case p_peek rest 0 of
        None \<Rightarrow> Inr ((1, 1, False), rest)
      | Some nxt \<Rightarrow>
          if nxt = 63 then Inr ((0, 1, True), drop 1 rest)
          else if nxt = 42 \<or> nxt = 43 then Inl UnboundedQuantifier
          else if nxt = 123 then and_then (braces rest) (\<lambda>((mn, mx), r). Inr ((mn, mx, True), r))
          else Inr ((1, 1, False), rest))"

fun is_group :: "atom \<Rightarrow> bool" where
  "is_group (GroupAtom _) = True"
| "is_group (CharAtom _ _ _) = False"

fun group_repeats :: "atom \<Rightarrow> bool" where
  "group_repeats (GroupAtom alts) = repeatsOrBranches alts"
| "group_repeats (CharAtom _ _ _) = False"

text \<open>The tail of \<open>term()\<close> once the atom is read.\<close>

definition finish_term :: "atom \<Rightarrow> ustring \<Rightarrow> pterm parsed" where
  "finish_term atom rest =
     and_then (quantifier rest) (\<lambda>((mn, mx, quantified), r).
       if quantified \<and> is_group atom \<and> 1 < mx \<and> group_repeats atom then Inl NestedRepetition
       else if quantified \<and> p_peek r 0 \<in> {Some 63, Some 42, Some 43, Some 123} then Inl StackedQuantifier
       else Inr (PTerm atom mn mx quantified, r))"

function (sequential) p_alternatives :: "nat \<Rightarrow> nat \<Rightarrow> ustring \<Rightarrow> alternatives parsed"
and p_sequence :: "nat \<Rightarrow> nat \<Rightarrow> ustring \<Rightarrow> pterm list parsed"
and p_terms :: "nat \<Rightarrow> nat \<Rightarrow> ustring \<Rightarrow> pterm list parsed"
and p_term :: "nat \<Rightarrow> nat \<Rightarrow> ustring \<Rightarrow> pterm parsed"
and p_atom :: "nat \<Rightarrow> nat \<Rightarrow> ustring \<Rightarrow> atom parsed"
and p_group :: "nat \<Rightarrow> nat \<Rightarrow> ustring \<Rightarrow> atom parsed" where
  "p_alternatives 0 depth rest = Inl OutOfFuel"
| "p_alternatives (Suc n) depth rest =
     and_then (p_sequence n depth rest) (\<lambda>(terms, r).
       if p_peek r 0 = Some 124 then
         and_then (p_alternatives n depth (drop 1 r)) (\<lambda>(alts, r'). Inr (terms # alts, r'))
       else Inr ([terms], r))"
| "p_sequence 0 depth rest = Inl OutOfFuel"
| "p_sequence (Suc n) depth rest =
     and_then (p_terms n depth rest) (\<lambda>(terms, r).
       if terms = [] then Inl EmptyAlternative else Inr (terms, r))"
| "p_terms 0 depth rest = Inl OutOfFuel"
| "p_terms (Suc n) depth rest =
     (case p_peek rest 0 of
        None \<Rightarrow> Inr ([], rest)
      | Some nxt \<Rightarrow>
          if nxt = 124 then Inr ([], rest)
          else if nxt = 41 then (if depth = 0 then Inl UnbalancedGroup else Inr ([], rest))
          else and_then (p_term n depth rest) (\<lambda>(t, r).
                 and_then (p_terms n depth r) (\<lambda>(ts, r'). Inr (t # ts, r'))))"
| "p_term 0 depth rest = Inl OutOfFuel"
| "p_term (Suc n) depth rest =
     and_then (p_atom n depth rest) (\<lambda>(atom, r). finish_term atom r)"
| "p_atom 0 depth rest = Inl OutOfFuel"
| "p_atom (Suc n) depth rest =
     (case p_peek rest 0 of
        None \<Rightarrow> Inl UnbalancedGroup
      | Some character \<Rightarrow>
          if character = 40 then p_group n depth rest
          else if character = 91 then characterClass rest
          else if character = 92 then p_escape rest
          else if character = 46 then Inl DotNotAllowed
          else if character = 94 \<or> character = 36 then Inl AnchorNotAllowed
          else if character = 42 \<or> character = 43 then Inl UnboundedQuantifier
          else if character = 63 \<or> character = 123 then Inl DanglingQuantifier
          else if character = 93 \<or> character = 125 then Inl BadLiteral
          else Inr (CharAtom [character] True (escapeLiteral character), drop 1 rest))"
| "p_group 0 depth rest = Inl OutOfFuel"
| "p_group (Suc n) depth rest =
     (if \<not> starts_at rest [40, 63, 58] 0 then Inl GroupNotAllowed
      else if MAX_GROUP_DEPTH < depth + 1 then Inl TooDeep
      else and_then (p_alternatives n (depth + 1) (drop 3 rest)) (\<lambda>(alts, r).
             if p_peek r 0 \<noteq> Some 41 then Inl UnbalancedGroup
             else Inr (GroupAtom alts, drop 1 r)))"
  by pat_completeness auto
termination
  by (relation "measure (case_sum (case_sum fst (case_sum fst fst)) (case_sum fst (case_sum fst fst)))") auto

definition parse_pattern :: "ustring \<Rightarrow> pattern_error + alternatives" where
  "parse_pattern source =
     and_then (p_alternatives (6 * length source + 6) 0 source) (\<lambda>(alts, r).
       if r \<noteq> [] then Inl UnbalancedGroup else Inr alts)"

section \<open>What a parsed tree satisfies\<close>

function (sequential) wf_alternatives :: "alternatives \<Rightarrow> bool"
and wf_terms :: "pterm list \<Rightarrow> bool"
and wf_term :: "pterm \<Rightarrow> bool" where
  "wf_alternatives [] = True"
| "wf_alternatives (terms # alts) = (terms \<noteq> [] \<and> wf_terms terms \<and> wf_alternatives alts)"
| "wf_terms [] = True"
| "wf_terms (t # ts) = (wf_term t \<and> wf_terms ts)"
| "wf_term (PTerm (CharAtom codes literal _) mn mx quantified) =
     (codes \<noteq> [] \<and> list_all (\<lambda>c. c < 128) codes \<and> (literal \<longrightarrow> length codes = 1)
      \<and> mn \<le> mx \<and> 1 \<le> mx \<and> mx \<le> MAX_BOUND \<and> (quantified \<or> mn = 1 \<and> mx = 1))"
| "wf_term (PTerm (GroupAtom alts) mn mx quantified) =
     (alts \<noteq> [] \<and> wf_alternatives alts \<and> (1 < mx \<longrightarrow> \<not> repeatsOrBranches alts)
      \<and> mn \<le> mx \<and> 1 \<le> mx \<and> mx \<le> MAX_BOUND \<and> (quantified \<or> mn = 1 \<and> mx = 1))"
  by pat_completeness auto
termination
  by (relation "measure (\<lambda>x. case x of Inl alts \<Rightarrow> size_list (size_list size) alts
        | Inr (Inl ts) \<Rightarrow> size_list size ts | Inr (Inr t) \<Rightarrow> size t)") auto

definition wf_atom :: "atom \<Rightarrow> bool" where
  "wf_atom a = (case a of
     CharAtom codes literal _ \<Rightarrow> codes \<noteq> [] \<and> list_all (\<lambda>c. c < 128) codes \<and> (literal \<longrightarrow> length codes = 1)
   | GroupAtom alts \<Rightarrow> alts \<noteq> [] \<and> wf_alternatives alts)"

lemma strict_suffix_drop: "0 < k \<Longrightarrow> rest \<noteq> [] \<Longrightarrow> strict_suffix (drop k rest) rest"
  by (simp add: strict_suffix_def suffix_drop) 
    (metis Suc_leI diff_Suc_less drop_eq_Nil le_zero_eq length_drop length_greater_0_conv less_not_refl not_le_imp_less diff_less)

lemma suffix_strict_trans:
  "strict_suffix c b \<Longrightarrow> suffix b a \<Longrightarrow> strict_suffix c a"
  "suffix c b \<Longrightarrow> strict_suffix b a \<Longrightarrow> strict_suffix c a"
  by (metis suffix_order.le_less_trans suffix_order.less_le_trans)+

lemma suffix_codes: "suffix r rest \<Longrightarrow> list_all p rest \<Longrightarrow> list_all p r"
  by (auto simp: list_all_iff dest: set_mono_suffix)

lemma classMember_suffix:
  "classMember rest = Inr (codes, r) \<Longrightarrow>
     strict_suffix r rest \<and> codes \<noteq> [] \<and> (list_all (\<lambda>c. c < 128) rest \<longrightarrow> list_all (\<lambda>c. c < 128) codes)"
  by (auto simp: classMember_def escape_class_def DIGITS_def WORD_def SPACES_def code_range_def
      strict_suffix_def suffix_def list_all_iff
      split: list.splits if_splits option.splits)

lemma list_all_code_range: "h < 128 \<Longrightarrow> list_all (\<lambda>c. c < 128) (code_range l h)"
  by (auto simp: code_range_def list_all_iff)

lemma class_loop_suffix:
  "class_loop codes rest = Inr (cs, r) \<Longrightarrow>
     strict_suffix r rest \<and> (codes = [] \<longrightarrow> p_peek rest 0 \<noteq> Some 93 \<longrightarrow> cs \<noteq> []) \<and> (codes \<noteq> [] \<longrightarrow> cs \<noteq> []) \<and>
     (list_all (\<lambda>c. c < 128) rest \<longrightarrow> list_all (\<lambda>c. c < 128) codes \<longrightarrow> list_all (\<lambda>c. c < 128) cs)"
proof (induction codes rest rule: class_loop.induct)
  case (1 codes rest)
  from "1.prems" obtain nxt where nxt: "p_peek rest 0 = Some nxt"
    by (subst (asm) class_loop.simps) (auto split: option.splits)
  then have ne: "rest \<noteq> []" by (auto simp: p_peek_def unit_at_def split: if_splits)
  show ?case
  proof (cases "nxt = 93")
    case True
    with "1.prems" nxt ne show ?thesis
      by (subst (asm) class_loop.simps) (auto simp: strict_suffix_drop)
  next
    case False
    from "1.prems" obtain lower r1 where m: "classMember rest = Inr (lower, r1)"
      by (subst (asm) class_loop.simps) (auto simp: nxt False split: sum.splits)
    note s1 = classMember_suffix [OF m]
    show ?thesis
    proof (cases "length lower = 1 \<and> p_peek r1 0 = Some 45 \<and> p_peek r1 1 \<noteq> None \<and> p_peek r1 1 \<noteq> Some 93")
      case c: True
      from "1.prems" obtain upper r2 where u: "classMember (drop 1 r1) = Inr (upper, r2)"
        "length upper = 1" "\<not> hd upper < hd lower" "class_loop (codes @ code_range (hd lower) (hd upper)) r2 = Inr (cs, r)"
        using c by (subst (asm) class_loop.simps) (auto simp: nxt False m split: sum.splits if_splits)
      note s2 = classMember_suffix [OF u(1)]
      note ih = "1.IH"(1) [OF nxt False m refl c u(1) refl, unfolded u(2), simplified, OF u(3,4)]
      have "strict_suffix r2 rest"
        using s1 s2 by (meson suffix_drop suffix_order.less_le_trans suffix_order.less_trans)
      moreover have "code_range (hd lower) (hd upper) \<noteq> []" using u(3) by (simp add: code_range_def)
      moreover have "list_all (\<lambda>c. c < 128) (code_range (hd lower) (hd upper))" if "list_all (\<lambda>c. c < 128) rest"
        using that s1 s2 u(2) suffix_codes [of "drop 1 r1" r1] suffix_codes [of r1 rest]
        by (intro list_all_code_range) (cases upper, auto simp: suffix_drop strict_suffix_def)
      ultimately show ?thesis
        using ih suffix_codes [of r2 rest] False nxt by (auto simp: strict_suffix_def intro: suffix_order.trans)
    next
      case c: False
      from "1.prems" have u: "class_loop (codes @ lower) r1 = Inr (cs, r)"
        using c by (subst (asm) class_loop.simps) (auto simp: nxt False m)
      note ih = "1.IH"(2) [OF nxt False m refl c u]
      then show ?thesis
        using s1 suffix_codes [of r1 rest] False nxt
        by (auto simp: strict_suffix_def intro: suffix_order.trans)
    qed
  qed
qed

lemma characterClass_suffix:
  assumes "characterClass rest = Inr (a, r)" and "rest \<noteq> []"
  shows "strict_suffix r rest \<and> (list_all (\<lambda>c. c < 128) rest \<longrightarrow> wf_atom a)"
proof -
  from assms(1) obtain codes where c: "class_loop [] (drop 1 rest) = Inr (codes, r)"
    "p_peek (drop 1 rest) 0 \<noteq> Some 93" "a = CharAtom codes False (classSource codes)"
    by (auto simp: characterClass_def Let_def and_then_Inr split: if_splits)
  from class_loop_suffix [OF c(1)] c(2,3) assms(2) show ?thesis
    using suffix_codes [of "drop 1 rest" rest]
    by (auto simp: wf_atom_def suffix_drop intro: suffix_strict_trans)
qed

lemma p_escape_suffix:
  "p_escape rest = Inr (a, r) \<Longrightarrow> strict_suffix r rest \<and> (list_all (\<lambda>c. c < 128) rest \<longrightarrow> wf_atom a)"
  by (auto simp: p_escape_def Let_def p_peek_def unit_at_def strict_suffix_drop wf_atom_def
      DIGITS_def WORD_def SPACES_def code_range_def list_all_iff split: if_splits option.splits
      intro!: strict_suffix_drop)

lemma p_number_suffix: "p_number rest = Some (n, r) \<Longrightarrow> suffix r rest"
  by (auto simp: p_number_def Let_def suffix_drop split: if_splits option.splits)

lemma braces_suffix:
  assumes "braces rest = Inr ((mn, mx), r)"
  shows "suffix r rest \<and> mn \<le> mx \<and> 1 \<le> mx \<and> mx \<le> MAX_BOUND"
proof -
  from assms obtain n r1 where n: "p_number (drop 1 rest) = Some (n, r1)"
    by (auto simp: braces_def split: option.splits)
  then have s1: "suffix r1 rest" using p_number_suffix suffix_drop suffix_order.trans by blast
  then have s1': "suffix (drop 1 r1) rest" using suffix_drop suffix_order.trans by blast
  show ?thesis
  proof (cases "p_peek r1 0 = Some 125")
    case True
    then show ?thesis using assms n s1'
      by (auto simp: braces_def split: if_splits)
  next
    case False
    with assms n obtain m r2 where m: "p_number (drop 1 r1) = Some (m, r2)" "r = drop 1 r2"
      "mn \<le> mx" "1 \<le> mx" "mx \<le> MAX_BOUND"
      by (auto simp: braces_def Let_def split: if_splits option.splits)
    then have "suffix r2 r1" using p_number_suffix suffix_drop suffix_order.trans by blast
    then have "suffix r rest" using s1 m(2) suffix_drop suffix_order.trans by blast
    with m show ?thesis by simp
  qed
qed

lemma quantifier_suffix:
  "quantifier rest = Inr ((mn, mx, q), r) \<Longrightarrow>
     suffix r rest \<and> mn \<le> mx \<and> 1 \<le> mx \<and> mx \<le> MAX_BOUND \<and> (q \<or> mn = 1 \<and> mx = 1)"
  by (auto simp: quantifier_def and_then_Inr MAX_BOUND_def suffix_drop dest: braces_suffix
      split: option.splits if_splits)

lemma finish_term_suffix:
  assumes "finish_term a rest = Inr (t, r)"
  shows "suffix r rest \<and> (wf_atom a \<longrightarrow> wf_term t)"
proof -
  from assms obtain mn mx q where q: "quantifier rest = Inr ((mn, mx, q), r)" "t = PTerm a mn mx q"
    "\<not> (q \<and> is_group a \<and> 1 < mx \<and> group_repeats a)"
    by (auto simp: finish_term_def and_then_Inr split: if_splits)
  from quantifier_suffix [OF q(1)] q(2,3) show ?thesis
    by (cases a) (auto simp: wf_atom_def)
qed

lemma parser_suffix:
  "p_alternatives n depth rest = Inr (alts, r) \<Longrightarrow>
     strict_suffix r rest \<and> alts \<noteq> [] \<and> (list_all (\<lambda>c. c < 128) rest \<longrightarrow> wf_alternatives alts)"
  "p_sequence n depth rest = Inr (ts, r) \<Longrightarrow>
     strict_suffix r rest \<and> ts \<noteq> [] \<and> (list_all (\<lambda>c. c < 128) rest \<longrightarrow> wf_terms ts)"
  "p_terms n depth rest = Inr (ts, r) \<Longrightarrow>
     suffix r rest \<and> (ts \<noteq> [] \<longrightarrow> strict_suffix r rest) \<and> (list_all (\<lambda>c. c < 128) rest \<longrightarrow> wf_terms ts)"
  "p_term n depth rest = Inr (t, r) \<Longrightarrow>
     strict_suffix r rest \<and> (list_all (\<lambda>c. c < 128) rest \<longrightarrow> wf_term t)"
  "p_atom n depth rest = Inr (a, r) \<Longrightarrow>
     strict_suffix r rest \<and> (list_all (\<lambda>c. c < 128) rest \<longrightarrow> wf_atom a)"
  "p_group n depth rest = Inr (a, r) \<Longrightarrow>
     strict_suffix r rest \<and> (list_all (\<lambda>c. c < 128) rest \<longrightarrow> wf_atom a)"
proof (induction n depth rest and n depth rest and n depth rest and n depth rest and n depth rest
    and n depth rest arbitrary: alts r and ts r and ts r and t r and a r and a r
    rule: p_alternatives_p_sequence_p_terms_p_term_p_atom_p_group.induct)
  case (2 n depth rest)
  from "2.prems" obtain terms r1 where s: "p_sequence n depth rest = Inr (terms, r1)"
    by (auto simp: and_then_Inr)
  note ih1 = "2.IH"(1) [OF s]
  show ?case
  proof (cases "p_peek r1 0 = Some 124")
    case True
    with "2.prems" s obtain alts' where a: "p_alternatives n depth (drop 1 r1) = Inr (alts', r)" "alts = terms # alts'"
      by (auto simp: and_then_Inr)
    note ih2 = "2.IH"(2) [OF s refl True a(1)]
    have "suffix (drop 1 r1) rest" using ih1 by (meson suffix_drop suffix_order.less_imp_le suffix_order.trans)
    with ih1 ih2 a(2) suffix_codes [of "drop 1 r1" rest] show ?thesis
      by (auto intro: suffix_strict_trans)
  next
    case False
    with "2.prems" s ih1 show ?thesis by auto
  qed
next
  case (4 n depth rest)
  from "4.prems" obtain terms where s: "p_terms n depth rest = Inr (ts, r)" "ts \<noteq> []"
    by (auto simp: and_then_Inr split: if_splits)
  from "4.IH" [OF s(1)] s(2) show ?case by auto
next
  case (6 n depth rest)
  show ?case
  proof (cases "p_peek rest 0 = None \<or> p_peek rest 0 = Some 124 \<or> p_peek rest 0 = Some 41")
    case True
    with "6.prems" show ?thesis by (auto split: if_splits)
  next
    case False
    then obtain c where c: "p_peek rest 0 = Some c" "c \<noteq> 124" "c \<noteq> 41" by auto
    with "6.prems" obtain t1 r1 ts1 where t: "p_term n depth rest = Inr (t1, r1)"
      and ts: "p_terms n depth r1 = Inr (ts1, r)" "ts = t1 # ts1"
      by (auto simp: and_then_Inr)
    note ih1 = "6.IH"(1) [OF c t] and ih2 = "6.IH"(2) [OF c t refl ts(1)]
    from ih1 ih2 ts(2) suffix_codes [of r1 rest] show ?thesis
      by (auto simp: suffix_order.less_imp_le intro: suffix_strict_trans)
  qed
next
  case (8 n depth rest)
  from "8.prems" obtain a1 r1 where a: "p_atom n depth rest = Inr (a1, r1)" "finish_term a1 r1 = Inr (t, r)"
    by (auto simp: and_then_Inr)
  from "8.IH" [OF a(1)] finish_term_suffix [OF a(2)] show ?case
    by (auto intro: suffix_strict_trans)
next
  case (10 n depth rest)
  from "10.prems" obtain c where c: "p_peek rest 0 = Some c" by (auto split: option.splits)
  then have ne: "rest \<noteq> []" and hd: "c \<in> set rest" by (auto simp: p_peek_def unit_at_def split: if_splits)
  consider "c = 40" | "c = 91" | "c = 92" | "c \<notin> {40, 91, 92}" by blast
  then show ?case
  proof cases
    case 1
    with "10.prems" "10.IH" [OF c 1] c show ?thesis by simp
  next
    case 2
    with "10.prems" c characterClass_suffix [OF _ ne] show ?thesis by simp
  next
    case 3
    with "10.prems" c p_escape_suffix show ?thesis by simp
  next
    case 4
    with "10.prems" c ne hd show ?thesis
      by (auto simp: wf_atom_def list_all_iff strict_suffix_drop split: if_splits)
  qed
next
  case (12 n depth rest)
  from "12.prems" obtain alts r1 where g: "starts_at rest [40, 63, 58] 0" "depth + 1 \<le> MAX_GROUP_DEPTH"
    "p_alternatives n (depth + 1) (drop 3 rest) = Inr (alts, r1)" "r = drop 1 r1" "a = GroupAtom alts"
    by (auto simp: and_then_Inr split: if_splits)
  have ih: "strict_suffix r1 (drop 3 rest) \<and> alts \<noteq> [] \<and>
     (list_all (\<lambda>c. c < 128) (drop 3 rest) \<longrightarrow> wf_alternatives alts)"
    by (rule "12.IH") (use g in auto)
  have "strict_suffix r rest"
    using ih g(4) by (meson suffix_drop suffix_strict_trans)
  with ih g(5) suffix_codes [of "drop 3 rest" rest] show ?case
    by (simp add: wf_atom_def suffix_drop)
qed auto

lemma finish_term_fuel: "finish_term a rest \<noteq> Inl OutOfFuel"
proof -
  have "braces rest \<noteq> Inl OutOfFuel" for rest
    by (auto simp: braces_def Let_def split: option.splits)
  then have "quantifier rest \<noteq> Inl OutOfFuel"
    by (auto simp: quantifier_def and_then_def split: option.splits sum.splits)
  then show ?thesis
    by (auto simp: finish_term_def and_then_def split: sum.splits)
qed

lemma class_loop_fuel: "class_loop codes rest \<noteq> Inl OutOfFuel"
proof (induction codes rest rule: class_loop.induct)
  case (1 codes rest)
  have m: "classMember r \<noteq> Inl OutOfFuel" for r
    by (auto simp: classMember_def split: list.splits option.splits)
  show ?case
    by (subst class_loop.simps) (use 1 m in \<open>auto split: option.splits sum.splits\<close>)
qed

lemma characterClass_fuel: "characterClass rest \<noteq> Inl OutOfFuel"
  using class_loop_fuel [of "[]" "drop 1 rest"]
  by (auto simp: characterClass_def Let_def and_then_def split: sum.splits)

lemma p_escape_fuel: "p_escape rest \<noteq> Inl OutOfFuel"
  by (auto simp: p_escape_def Let_def split: option.splits)

lemma strict_suffix_length: "strict_suffix r rest \<Longrightarrow> length r < length rest"
  by (auto simp: strict_suffix_def suffix_def)

lemma and_then_not_fuel:
  "r \<noteq> Inl OutOfFuel \<Longrightarrow> (\<And>x. r = Inr x \<Longrightarrow> f x \<noteq> Inl OutOfFuel) \<Longrightarrow> and_then r f \<noteq> Inl OutOfFuel"
  by (cases r) auto

lemma parser_fuel:
  "6 * length rest + 6 \<le> n \<Longrightarrow> p_alternatives n depth rest \<noteq> Inl OutOfFuel"
  "6 * length rest + 5 \<le> n \<Longrightarrow> p_sequence n depth rest \<noteq> Inl OutOfFuel"
  "6 * length rest + 4 \<le> n \<Longrightarrow> p_terms n depth rest \<noteq> Inl OutOfFuel"
  "6 * length rest + 3 \<le> n \<Longrightarrow> p_term n depth rest \<noteq> Inl OutOfFuel"
  "6 * length rest + 2 \<le> n \<Longrightarrow> p_atom n depth rest \<noteq> Inl OutOfFuel"
  "6 * length rest + 1 \<le> n \<Longrightarrow> p_group n depth rest \<noteq> Inl OutOfFuel"
proof (induction n depth rest and n depth rest and n depth rest and n depth rest and n depth rest
    and n depth rest rule: p_alternatives_p_sequence_p_terms_p_term_p_atom_p_group.induct)
  case (2 n depth rest)
  show ?case
    unfolding p_alternatives.simps
  proof (rule and_then_not_fuel)
    show "p_sequence n depth rest \<noteq> Inl OutOfFuel" using "2.IH"(1) "2.prems" by simp
    fix x assume x: "p_sequence n depth rest = Inr x"
    obtain terms r where tr: "x = (terms, r)" by (cases x)
    have len: "length r < length rest"
      using parser_suffix(2) [OF x [unfolded tr]] strict_suffix_length by blast
    have "p_alternatives n depth (drop 1 r) \<noteq> Inl OutOfFuel" if "p_peek r 0 = Some 124"
      using "2.IH"(2) [OF x tr [symmetric] that] len "2.prems" by simp
    then show "(case x of (terms, r) \<Rightarrow> if p_peek r 0 = Some 124 then
         and_then (p_alternatives n depth (drop 1 r)) (\<lambda>(alts, r'). Inr (terms # alts, r'))
       else Inr ([terms], r)) \<noteq> Inl OutOfFuel"
      by (auto simp: tr and_then_def split: sum.splits)
  qed
next
  case (4 n depth rest)
  from "4.IH" "4.prems" show ?case
    by (auto simp: and_then_def split: sum.splits)
next
  case (6 n depth rest)
  show ?case
  proof (cases "p_peek rest 0 = None \<or> p_peek rest 0 = Some 124 \<or> p_peek rest 0 = Some 41")
    case True
    then show ?thesis by auto
  next
    case False
    then obtain c where c: "p_peek rest 0 = Some c" "c \<noteq> 124" "c \<noteq> 41" by auto
    have "and_then (p_term n depth rest) (\<lambda>(t, r).
                 and_then (p_terms n depth r) (\<lambda>(ts, r'). Inr (t # ts, r'))) \<noteq> Inl OutOfFuel"
    proof (rule and_then_not_fuel)
      show "p_term n depth rest \<noteq> Inl OutOfFuel" using "6.IH"(1) [OF c] "6.prems" by simp
      fix x assume x: "p_term n depth rest = Inr x"
      obtain t r where tr: "x = (t, r)" by (cases x)
      have len: "length r < length rest"
        using parser_suffix(4) [OF x [unfolded tr]] strict_suffix_length by blast
      show "(case x of (t, r) \<Rightarrow> and_then (p_terms n depth r) (\<lambda>(ts, r'). Inr (t # ts, r')))
        \<noteq> Inl OutOfFuel"
        using "6.IH"(2) [OF c x tr [symmetric]] len "6.prems"
        by (auto simp: tr and_then_def split: sum.splits)
    qed
    with c show ?thesis by simp
  qed
next
  case (8 n depth rest)
  from "8.IH" "8.prems" show ?case
    by (auto simp: and_then_def finish_term_fuel split: sum.splits)
next
  case (10 n depth rest)
  show ?case
  proof (cases "p_peek rest 0 = Some 40")
    case True
    with "10.IH" [OF True refl] "10.prems" show ?thesis by simp
  next
    case False
    then show ?thesis by (auto simp: characterClass_fuel p_escape_fuel split: option.splits)
  qed
next
  case (12 n depth rest)
  have "p_alternatives n (depth + 1) (drop 3 rest) \<noteq> Inl OutOfFuel"
    if "starts_at rest [40, 63, 58] 0" "depth + 1 \<le> MAX_GROUP_DEPTH"
  proof -
    have "3 \<le> length rest" using starts_at_bound [OF that(1)] by simp
    then show ?thesis using that "12.IH" "12.prems" by simp
  qed
  then show ?case
    by (auto simp: and_then_def split: sum.splits)
qed auto


section \<open>Lengths, anchor and validation\<close>

text \<open>\<open>minimumLength\<close> and \<open>maximumLength\<close>. The clause for no alternative stands for
  \<open>Math.min()\<close> and \<open>Math.max()\<close> without arguments, which no parsed tree reaches.\<close>

function (sequential) minimumLength :: "alternatives \<Rightarrow> nat"
and min_sequence :: "pterm list \<Rightarrow> nat"
and min_term :: "pterm \<Rightarrow> nat" where
  "minimumLength [] = 0"
| "minimumLength [terms] = min_sequence terms"
| "minimumLength (terms # alts) = min (min_sequence terms) (minimumLength alts)"
| "min_sequence [] = 0"
| "min_sequence (t # ts) = min_term t + min_sequence ts"
| "min_term (PTerm (CharAtom _ _ _) mn _ _) = mn * 1"
| "min_term (PTerm (GroupAtom alts) mn _ _) = mn * minimumLength alts"
  by pat_completeness auto
termination
  by (relation "measure (\<lambda>x. case x of Inl alts \<Rightarrow> size_list (size_list size) alts
        | Inr (Inl ts) \<Rightarrow> size_list size ts | Inr (Inr t) \<Rightarrow> size t)") auto

function (sequential) maximumLength :: "alternatives \<Rightarrow> nat"
and max_sequence :: "pterm list \<Rightarrow> nat"
and max_term :: "pterm \<Rightarrow> nat" where
  "maximumLength [] = 0"
| "maximumLength [terms] = max_sequence terms"
| "maximumLength (terms # alts) = max (max_sequence terms) (maximumLength alts)"
| "max_sequence [] = 0"
| "max_sequence (t # ts) = max_term t + max_sequence ts"
| "max_term (PTerm (CharAtom _ _ _) _ mx _) = mx * 1"
| "max_term (PTerm (GroupAtom alts) _ mx _) = mx * maximumLength alts"
  by pat_completeness auto
termination
  by (relation "measure (\<lambda>x. case x of Inl alts \<Rightarrow> size_list (size_list size) alts
        | Inr (Inl ts) \<Rightarrow> size_list size ts | Inr (Inr t) \<Rightarrow> size t)") auto

record pattern_anchor =
  an_text :: ustring
  an_offsetMin :: nat
  an_offsetMax :: nat

definition ascii_lower_unit :: "nat \<Rightarrow> nat" where
  "ascii_lower_unit c = (if 65 \<le> c \<and> c \<le> 90 then c + 32 else c)"

definition asciiLower :: "ustring \<Rightarrow> ustring" where
  "asciiLower = map ascii_lower_unit"

text \<open>The condition of the inner \<open>while\<close> loop of \<open>findAnchor\<close>.\<close>

fun anchor_literal :: "pterm \<Rightarrow> bool" where
  "anchor_literal (PTerm (CharAtom _ literal _) _ _ quantified) = (\<not> quantified \<and> literal)"
| "anchor_literal (PTerm (GroupAtom _) _ _ _) = False"

function anchor_loop :: "pterm list \<Rightarrow> nat \<Rightarrow> (nat \<times> nat) option \<Rightarrow> (nat \<times> nat) option" where
  "anchor_loop terms index best =
     (if length terms \<le> index then best
      else
        let len = length (takeWhile anchor_literal (drop index terms));
            best = (if MIN_ANCHOR_LENGTH \<le> len \<and> (case best of None \<Rightarrow> 0 | Some (_, l) \<Rightarrow> l) < len
                    then Some (index, len) else best)
        in anchor_loop terms (index + max 1 len) best)"
  by pat_completeness auto
termination by (relation "measure (\<lambda>(terms, index, _). length terms - index)") auto

declare anchor_loop.simps [simp del]

fun term_code :: "pterm \<Rightarrow> nat" where
  "term_code (PTerm (CharAtom codes _ _) _ _ _) = hd codes"
| "term_code (PTerm (GroupAtom _) _ _ _) = 0"

definition findAnchor :: "alternatives \<Rightarrow> bool \<Rightarrow> pattern_anchor option" where
  "findAnchor alts caseInsensitive =
     (case alts of
        [terms] \<Rightarrow>
          (case anchor_loop terms 0 None of
             None \<Rightarrow> None
           | Some (start, len) \<Rightarrow>
               let prefix = take start terms;
                   literal = map term_code (sublist_at terms start (start + len))
               in Some \<lparr>an_text = (if caseInsensitive then asciiLower literal else literal),
                        an_offsetMin = minimumLength [prefix],
                        an_offsetMax = maximumLength [prefix]\<rparr>)
      | _ \<Rightarrow> None)"

text \<open>The fields of a \<open>SafePattern\<close> that its constructor receives; the rest is computed from
  them (\<open>Pattern_Match\<close>).\<close>

record safe_pattern =
  sp_alternatives :: alternatives
  sp_caseInsensitive :: bool
  sp_anchor :: "pattern_anchor option"
  sp_maxLength :: nat

definition validatePattern :: "ustring \<Rightarrow> bool \<Rightarrow> bool \<Rightarrow> pattern_error + safe_pattern" where
  "validatePattern source hasContext caseInsensitive =
     (let codePoints = length (chars source) in
      if codePoints < 1 \<or> MAX_PATTERN_LENGTH < codePoints then Inl PLength
      else if list_ex (\<lambda>code. code < 0x20 \<or> 0x7e < code) source then Inl InvalidCharacter
      else and_then (parse_pattern source) (\<lambda>alts.
        let mn = minimumLength alts; mx = maximumLength alts in
        if mn < MIN_MATCH_LENGTH then Inl TooShort
        else if MAX_MATCH_LENGTH < mx then Inl TooLong
        else
          let anchor = findAnchor alts caseInsensitive in
          if anchor = None \<and> \<not> hasContext then Inl NoAnchor
          else Inr \<lparr>sp_alternatives = alts, sp_caseInsensitive = caseInsensitive,
                    sp_anchor = anchor, sp_maxLength = mx\<rparr>))"

definition PATH_CAP :: nat where "PATH_CAP = 1000000000000"

function (sequential) pathCount :: "alternatives \<Rightarrow> nat \<Rightarrow> nat"
and paths_of_sequence :: "pterm list \<Rightarrow> nat \<Rightarrow> nat"
and choices_of :: "pterm \<Rightarrow> nat" where
  "pathCount [] acc = acc"
| "pathCount (terms # alts) acc = pathCount alts (min PATH_CAP (acc + paths_of_sequence terms 1))"
| "paths_of_sequence [] paths = paths"
| "paths_of_sequence (t # ts) paths = paths_of_sequence ts (min PATH_CAP (paths * choices_of t))"
| "choices_of (PTerm (CharAtom _ _ _) mn mx _) = mx - mn + 1"
| "choices_of (PTerm (GroupAtom alts) mn mx _) =
     (if 1 < mx then mx - mn + 1 else pathCount alts 0 + (if mn = 0 then 1 else 0))"
  by pat_completeness auto
termination
  by (relation "measure (\<lambda>x. case x of Inl (alts, _) \<Rightarrow> size_list (size_list size) alts
        | Inr (Inl (ts, _)) \<Rightarrow> size_list size ts | Inr (Inr t) \<Rightarrow> size t)") auto

function (sequential) termCount :: "alternatives \<Rightarrow> nat"
and terms_of_sequence :: "pterm list \<Rightarrow> nat"
and terms_of_term :: "pterm \<Rightarrow> nat" where
  "termCount [] = 0"
| "termCount (terms # alts) = terms_of_sequence terms + termCount alts"
| "terms_of_sequence [] = 0"
| "terms_of_sequence (t # ts) = terms_of_term t + terms_of_sequence ts"
| "terms_of_term (PTerm (CharAtom _ _ _) _ _ _) = 1"
| "terms_of_term (PTerm (GroupAtom alts) _ _ _) = 1 + termCount alts"
  by pat_completeness auto
termination
  by (relation "measure (\<lambda>x. case x of Inl alts \<Rightarrow> size_list (size_list size) alts
        | Inr (Inl ts) \<Rightarrow> size_list size ts | Inr (Inr t) \<Rightarrow> size t)") auto

definition attemptBound :: "safe_pattern \<Rightarrow> nat" where
  "attemptBound p =
     min PATH_CAP (pathCount (sp_alternatives p) 0 * (sp_maxLength p + termCount (sp_alternatives p) + 1))"

function (sequential) sourceOf :: "alternatives \<Rightarrow> ustring"
and source_of_sequence :: "pterm list \<Rightarrow> ustring"
and source_of_term :: "pterm \<Rightarrow> ustring"
and source_of_atom :: "atom \<Rightarrow> ustring" where
  "sourceOf [] = []"
| "sourceOf [terms] = source_of_sequence terms"
| "sourceOf (terms # alts) = source_of_sequence terms @ [124] @ sourceOf alts"
| "source_of_sequence [] = []"
| "source_of_sequence (t # ts) = source_of_term t @ source_of_sequence ts"
| "source_of_term (PTerm a mn mx quantified) =
     source_of_atom a @
     (if \<not> quantified then []
      else if mn = 0 \<and> mx = 1 then [63]
      else if mn = mx then [123] @ decimal mn @ [125]
      else [123] @ decimal mn @ [44] @ decimal mx @ [125])"
| "source_of_atom (CharAtom _ _ source) = source"
| "source_of_atom (GroupAtom alts) = [40, 63, 58] @ sourceOf alts @ [41]"
  by pat_completeness auto
termination
  by (relation "measure (case_sum (case_sum (size_list (size_list size)) (size_list size)) (case_sum size size))") auto

lemma validatePattern_Inr:
  assumes "validatePattern source hasContext ci = Inr p"
  obtains "parse_pattern source = Inr (sp_alternatives p)"
    "MIN_MATCH_LENGTH \<le> minimumLength (sp_alternatives p)"
    "sp_maxLength p = maximumLength (sp_alternatives p)" "sp_maxLength p \<le> MAX_MATCH_LENGTH"
    "sp_anchor p = findAnchor (sp_alternatives p) ci" "sp_caseInsensitive p = ci"
    "sp_alternatives p \<noteq> []" "wf_alternatives (sp_alternatives p)"
proof -
  from assms obtain alts where a: "parse_pattern source = Inr alts"
    "p = \<lparr>sp_alternatives = alts, sp_caseInsensitive = ci, sp_anchor = findAnchor alts ci, sp_maxLength = maximumLength alts\<rparr>"
    "MIN_MATCH_LENGTH \<le> minimumLength alts" "maximumLength alts \<le> MAX_MATCH_LENGTH"
    and chars: "\<not> list_ex (\<lambda>code. code < 0x20 \<or> 0x7e < code) source"
    by (auto simp: validatePattern_def Let_def and_then_Inr split: if_splits)
  from a(1) obtain r where "p_alternatives (6 * length source + 6) 0 source = Inr (alts, r)"
    by (auto simp: parse_pattern_def and_then_Inr split: if_splits)
  with parser_suffix(1) have "alts \<noteq> []" and "list_all (\<lambda>c. c < 128) source \<longrightarrow> wf_alternatives alts"
    by blast+
  moreover have "list_all (\<lambda>c. c < 128) source"
    using chars by (auto simp: list_all_iff list_ex_iff)
  ultimately show thesis using that a by simp
qed

end
