(* ===== verification/Work.thy ===== *)
theory Work
  imports Prelude
begin

text \<open>
  The deterministic work meter of the custom rules (\<open>core/src/custom/work.ts\<close>): a limit,
  the units used so far and an optional parent that several meters of one decision share.
  \<open>spend\<close> returns the meter it leaves behind also where it throws, because the callers
  keep using the parent after an aborted scan.
\<close>

datatype work_meter = WorkMeter (meter_limit: int) (meter_used: int) (meter_parent: "work_meter option")

datatype work_error = WorkBudgetExceeded | TooManyMatches

definition HASH_BLOCK_COST :: int where
  "HASH_BLOCK_COST = 80"

text \<open>A metered computation: the meter it leaves and its result or the exception.\<close>

type_synonym 'a metered = "work_meter \<times> (work_error + 'a)"

fun spend :: "work_meter \<Rightarrow> int \<Rightarrow> unit metered" where
  "spend (WorkMeter limit used None) units =
     (WorkMeter limit (used + units) None,
      if limit < used + units then Inl WorkBudgetExceeded else Inr ())"
| "spend (WorkMeter limit used (Some parent)) units =
     (case spend parent units of
        (parent', Inl e) \<Rightarrow> (WorkMeter limit (used + units) (Some parent'), Inl e)
      | (parent', Inr _) \<Rightarrow>
          (WorkMeter limit (used + units) (Some parent'),
           if limit < used + units then Inl WorkBudgetExceeded else Inr ()))"

fun remaining :: "work_meter \<Rightarrow> int" where
  "remaining (WorkMeter limit used None) = limit - used"
| "remaining (WorkMeter limit used (Some parent)) = min (limit - used) (remaining parent)"

text \<open>\<open>spend\<close> throws exactly when the units exceed what is left here or in a parent,
  and the units are charged to every meter of the chain in either case.\<close>

lemma spend_result:
  "snd (spend m units) = (if remaining m < units then Inl WorkBudgetExceeded else Inr ())"
  by (induction m units rule: spend.induct) (auto split: prod.splits sum.splits if_splits)

lemma spend_remaining: "remaining (fst (spend m units)) = remaining m - units"
  by (induction m units rule: spend.induct) (auto split: prod.splits sum.splits)

lemma spend_used: "meter_used (fst (spend m units)) = meter_used m + units"
  by (induction m units rule: spend.induct) (auto split: prod.splits sum.splits)

lemma spend_limit: "meter_limit (fst (spend m units)) = meter_limit m"
  by (induction m units rule: spend.induct) (auto split: prod.splits sum.splits)

fun meter_units :: "work_meter \<Rightarrow> int list" where
  "meter_units (WorkMeter limit used None) = [used]"
| "meter_units (WorkMeter limit used (Some parent)) = used # meter_units parent"

fun meter_limits :: "work_meter \<Rightarrow> int list" where
  "meter_limits (WorkMeter limit used None) = [limit]"
| "meter_limits (WorkMeter limit used (Some parent)) = limit # meter_limits parent"

lemma spend_units: "meter_units (fst (spend m units)) = map (\<lambda>u. u + units) (meter_units m)"
  by (induction m units rule: spend.induct) (auto split: prod.splits sum.splits)

lemma spend_limits: "meter_limits (fst (spend m units)) = meter_limits m"
  by (induction m units rule: spend.induct) (auto split: prod.splits sum.splits)

lemmas spend_facts = spend_result spend_remaining spend_used spend_limit spend_units spend_limits

text \<open>Spending in two instalments is spending the sum.\<close>

lemma spend_add:
  "fst (spend (fst (spend m a)) b) = fst (spend m (a + b))"
proof (induction m a arbitrary: b rule: spend.induct)
  case (2 limit used parent units)
  from "2.IH" [of b] show ?case
    by (auto split: prod.splits sum.splits)
qed simp

section \<open>Metered computations\<close>

definition m_return :: "'a \<Rightarrow> work_meter \<Rightarrow> 'a metered" where
  "m_return x m = (m, Inr x)"

definition m_bind ::
  "(work_meter \<Rightarrow> 'a metered) \<Rightarrow> ('a \<Rightarrow> work_meter \<Rightarrow> 'b metered) \<Rightarrow> work_meter \<Rightarrow> 'b metered" where
  "m_bind f g m = (case f m of (m', Inl e) \<Rightarrow> (m', Inl e) | (m', Inr x) \<Rightarrow> g x m')"

definition m_spend :: "int \<Rightarrow> work_meter \<Rightarrow> unit metered" where
  "m_spend units m = spend m units"

lemma m_bind_cong [fundef_cong]:
  assumes "f m = f' m'" "m = m'" and "\<And>x m1. f' m' = (m1, Inr x) \<Longrightarrow> g x m1 = g' x m1"
  shows "m_bind f g m = m_bind f' g' m'"
  using assms by (auto simp: m_bind_def split: prod.splits sum.splits)

lemma m_bind_return [simp]: "m_bind (m_return x) g = g x"
  by (rule ext) (simp add: m_bind_def m_return_def)

lemma m_bind_Inr:
  "m_bind f g m = (m', Inr y) \<longleftrightarrow> (\<exists>m1 x. f m = (m1, Inr x) \<and> g x m1 = (m', Inr y))"
  by (auto simp: m_bind_def split: prod.splits sum.splits)

text \<open>The contract of a metered computation: it never gives units back, and it fails only
  with an exception after which nothing was returned.\<close>

definition charges :: "(work_meter \<Rightarrow> 'a metered) \<Rightarrow> bool" where
  "charges f \<longleftrightarrow> (\<forall>m. remaining (fst (f m)) \<le> remaining m \<and> meter_limits (fst (f m)) = meter_limits m)"

lemma charges_return [intro, simp]: "charges (m_return x)"
  by (simp add: charges_def m_return_def)

lemma charges_spend [intro]: "0 \<le> units \<Longrightarrow> charges (m_spend units)"
  by (simp add: charges_def m_spend_def spend_facts)

lemma charges_bind [intro]:
  assumes "charges f" and "\<And>x. charges (g x)"
  shows "charges (m_bind f g)"
  unfolding charges_def
proof
  fix m
  from assms(1) have f: "remaining (fst (f m)) \<le> remaining m" "meter_limits (fst (f m)) = meter_limits m"
    by (auto simp: charges_def)
  show "remaining (fst (m_bind f g m)) \<le> remaining m \<and> meter_limits (fst (m_bind f g m)) = meter_limits m"
  proof (cases "f m")
    case (Pair m1 r)
    show ?thesis
    proof (cases r)
      case (Inl e)
      with Pair f show ?thesis by (simp add: m_bind_def)
    next
      case (Inr x)
      from assms(2) [of x] have "remaining (fst (g x m1)) \<le> remaining m1"
        "meter_limits (fst (g x m1)) = meter_limits m1" by (auto simp: charges_def)
      with Pair Inr f show ?thesis by (simp add: m_bind_def)
    qed
  qed
qed

end
