(* ===== verification/Pattern_Match.thy ===== *)
theory Pattern_Match
  imports Pattern_Syntax Work
begin

text \<open>
  The matcher of safe patterns (\<open>core/src/custom/pattern.ts\<close>, second half): compilation to a
  node list, first sets and the step-counted backtracking \<open>run\<close> with its continuation. The
  \<open>next\<close> pointers of the source are the tails of node lists, \<open>null\<close> the empty list; -1 is
  \<open>None\<close>. The second half states ECMAScript's leftmost-first semantics as the priority
  list of match ends and proves that the metered matcher computes its first element.
\<close>

section \<open>Compilation\<close>

type_synonym char_set = "bool list"

definition set_code :: "nat \<Rightarrow> char_set \<Rightarrow> char_set" where
  "set_code code cs = cs[code := True]"

definition charSet :: "nat list \<Rightarrow> bool \<Rightarrow> char_set" where
  "charSet codes caseInsensitive =
     foldl (\<lambda>cs code.
         let cs = set_code code cs in
         if \<not> caseInsensitive then cs
         else
           let cs = (if 65 \<le> code \<and> code \<le> 90 then set_code (code + 32) cs else cs) in
           if 97 \<le> code \<and> code \<le> 122 then set_code (code - 32) cs else cs)
       (replicate 128 False) codes"

datatype match_node =
  CharNode char_set nat nat
| FixedNode "char_set list" nat nat
| BranchNode "match_node list list" nat

fun flatten_terms :: "pterm list \<Rightarrow> bool \<Rightarrow> char_set list"
and flatten_term :: "pterm \<Rightarrow> bool \<Rightarrow> char_set list" where
  "flatten_terms [] ci = []"
| "flatten_terms (t # ts) ci = flatten_term t ci @ flatten_terms ts ci"
| "flatten_term (PTerm (CharAtom codes _ _) _ _ _) ci = [charSet codes ci]"
| "flatten_term (PTerm (GroupAtom []) _ _ _) ci = []"
| "flatten_term (PTerm (GroupAtom (terms # _)) _ _ _) ci = flatten_terms terms ci"

definition flatten :: "alternatives \<Rightarrow> bool \<Rightarrow> char_set list" where
  "flatten alts ci = (case alts of [] \<Rightarrow> [] | terms # _ \<Rightarrow> flatten_terms terms ci)"

function (sequential) compile_alternatives :: "alternatives \<Rightarrow> bool \<Rightarrow> match_node list list"
and compileSequence :: "pterm list \<Rightarrow> bool \<Rightarrow> match_node list"
and compile_term :: "pterm \<Rightarrow> bool \<Rightarrow> match_node" where
  "compile_alternatives [] ci = []"
| "compile_alternatives (terms # alts) ci = compileSequence terms ci # compile_alternatives alts ci"
| "compileSequence [] ci = []"
| "compileSequence (t # ts) ci = compile_term t ci # compileSequence ts ci"
| "compile_term (PTerm (CharAtom codes _ _) mn mx _) ci = CharNode (charSet codes ci) mn mx"
| "compile_term (PTerm (GroupAtom alts) mn mx _) ci =
     (if 1 < mx then FixedNode (flatten alts ci) mn mx
      else BranchNode (compile_alternatives alts ci) mn)"
  by pat_completeness auto
termination
  by (relation "measure (\<lambda>x. case x of Inl (alts, _) \<Rightarrow> size_list (size_list size) alts
        | Inr (Inl (ts, _)) \<Rightarrow> size_list size ts | Inr (Inr (t, _)) \<Rightarrow> size t)") auto

section \<open>First sets\<close>

definition union_set :: "char_set \<Rightarrow> char_set \<Rightarrow> char_set" where
  "union_set cs into = map (\<lambda>code. into ! code \<or> cs ! code) [0..<128]"

text \<open>\<open>firstSet\<close>: the set it accumulates and whether the alternatives match the empty string.\<close>

function (sequential) firstSet :: "alternatives \<Rightarrow> bool \<Rightarrow> char_set \<Rightarrow> char_set \<times> bool"
and first_of_sequence :: "pterm list \<Rightarrow> bool \<Rightarrow> char_set \<Rightarrow> char_set \<times> bool"
and first_of_atom :: "pterm \<Rightarrow> bool \<Rightarrow> char_set \<Rightarrow> char_set \<times> bool" where
  "firstSet [] ci into = (into, False)"
| "firstSet (terms # alts) ci into =
     (case first_of_sequence terms ci into of
        (into, sequenceNullable) \<Rightarrow>
          (case firstSet alts ci into of (into, nullable) \<Rightarrow> (into, sequenceNullable \<or> nullable)))"
| "first_of_sequence [] ci into = (into, True)"
| "first_of_sequence (t # ts) ci into =
     (case first_of_atom t ci into of
        (into, atomNullable) \<Rightarrow>
          if \<not> (atomNullable \<or> pt_min t = 0) then (into, False) else first_of_sequence ts ci into)"
| "first_of_atom (PTerm (CharAtom codes _ _) _ _ _) ci into = (union_set (charSet codes ci) into, False)"
| "first_of_atom (PTerm (GroupAtom alts) _ _ _) ci into = firstSet alts ci into"
  by pat_completeness auto
termination
  by (relation "measure (\<lambda>x. case x of Inl (alts, _) \<Rightarrow> size_list (size_list size) alts
        | Inr (Inl (ts, _)) \<Rightarrow> size_list size ts | Inr (Inr (t, _)) \<Rightarrow> size t)") auto

definition sp_first :: "safe_pattern \<Rightarrow> char_set" where
  "sp_first p = fst (firstSet (sp_alternatives p) (sp_caseInsensitive p) (replicate 128 False))"

definition sp_program :: "safe_pattern \<Rightarrow> match_node" where
  "sp_program p = BranchNode (compile_alternatives (sp_alternatives p) (sp_caseInsensitive p)) 1"

section \<open>The matcher\<close>

definition in_set :: "char_set \<Rightarrow> nat \<Rightarrow> bool" where
  "in_set cs code \<longleftrightarrow> code < 128 \<and> cs ! code"

definition accepts :: "char_set \<Rightarrow> ustring \<Rightarrow> nat \<Rightarrow> bool" where
  "accepts cs text position \<longleftrightarrow> position < length text \<and> in_set cs (text ! position)"

type_synonym matched = "work_meter \<Rightarrow> nat option metered"

text \<open>\<open>for (; count >= min; count -= 1)\<close>: \<open>k\<close> attempts, the first with \<open>min + k - 1\<close>
  iterations, one unit after each failure.\<close>

fun give_back :: "(nat \<Rightarrow> matched) \<Rightarrow> nat \<Rightarrow> nat \<Rightarrow> matched" where
  "give_back f mn 0 = m_return None"
| "give_back f mn (Suc k) =
     m_bind (f (mn + k)) (\<lambda>r. case r of
         Some e \<Rightarrow> m_return (Some e)
       | None \<Rightarrow> m_bind (m_spend 1) (\<lambda>_. give_back f mn k))"

text \<open>The loop over the alternatives of a branch.\<close>

fun try_all :: "matched list \<Rightarrow> matched \<Rightarrow> matched" where
  "try_all [] otherwise' = otherwise'"
| "try_all (f # fs) otherwise' =
     m_bind f (\<lambda>r. case r of Some e \<Rightarrow> m_return (Some e) | None \<Rightarrow> try_all fs otherwise')"

definition sets_match :: "char_set list \<Rightarrow> ustring \<Rightarrow> nat \<Rightarrow> bool" where
  "sets_match sets text pos \<longleftrightarrow> list_all (\<lambda>index. accepts (sets ! index) text (pos + index)) [0..<length sets]"

text \<open>The counting loop of a fixed node, with the iterations still allowed.\<close>

fun fixed_count :: "nat \<Rightarrow> char_set list \<Rightarrow> ustring \<Rightarrow> nat \<Rightarrow> nat \<Rightarrow> work_meter \<Rightarrow> nat metered" where
  "fixed_count 0 sets text pos count = m_return count"
| "fixed_count (Suc n) sets text pos count =
     (if length text < pos + length sets then m_return count
      else m_bind (m_spend (int (length sets))) (\<lambda>_.
        if \<not> sets_match sets text pos then m_return count
        else fixed_count n sets text (pos + length sets) (count + 1)))"

function (sequential) run :: "match_node list \<Rightarrow> ustring \<Rightarrow> nat \<Rightarrow> (nat \<Rightarrow> matched) \<Rightarrow> matched"
and run_alternatives :: "match_node list list \<Rightarrow> ustring \<Rightarrow> nat \<Rightarrow> (nat \<Rightarrow> matched) \<Rightarrow> matched list" where
  "run [] text position done' = done' position"
| "run (CharNode cs mn mx # nxt) text position done' =
     m_bind (m_spend 1) (\<lambda>_.
       let count = count_while (in_set cs) mx (drop position text)
       in m_bind (m_spend (int count)) (\<lambda>_.
            give_back (\<lambda>c. run nxt text (position + c) done') mn (count + 1 - mn)))"
| "run (FixedNode sets mn mx # nxt) text position done' =
     m_bind (m_spend 1) (\<lambda>_.
       m_bind (fixed_count mx sets text position 0) (\<lambda>count.
         give_back (\<lambda>c. run nxt text (position + c * length sets) done') mn (count + 1 - mn)))"
| "run (BranchNode alternatives mn # nxt) text position done' =
     m_bind (m_spend 1) (\<lambda>_.
       let after = (\<lambda>end'. run nxt text end' done');
           iteration = (if mn = 0 then (\<lambda>end'. if end' = position then m_return None else after end')
                        else after)
       in try_all (run_alternatives alternatives text position iteration)
            (if mn = 0 then after position else m_return None))"
| "run_alternatives [] text position done' = []"
| "run_alternatives (alternative # alternatives) text position done' =
     run alternative text position done' # run_alternatives alternatives text position done'"
  by pat_completeness auto
termination
  by (relation "measure (\<lambda>x. case x of Inl (nodes, _) \<Rightarrow> size_list size nodes
        | Inr (alts, _) \<Rightarrow> size_list (size_list size) alts)") auto

definition matchAt :: "safe_pattern \<Rightarrow> ustring \<Rightarrow> nat \<Rightarrow> matched" where
  "matchAt p text start =
     (if length text \<le> start then m_return None
      else m_bind (m_spend 1) (\<lambda>_.
        if \<not> in_set (sp_first p) (text ! start) then m_return None
        else run [sp_program p] text start (\<lambda>end'. m_return (Some end'))))"

section \<open>ECMAScript semantics\<close>

text \<open>The ends of all matches from a position in the order backtracking tries them. A code
  unit matches an ASCII character as \<open>Canonicalize\<close> of a non-\<open>u\<close> expression decides: equal,
  or equal up to ASCII case with \<open>i\<close>; a non-ASCII unit never matches.\<close>

definition char_matches :: "nat list \<Rightarrow> bool \<Rightarrow> nat \<Rightarrow> bool" where
  "char_matches codes ci u \<longleftrightarrow>
     u < 128 \<and> list_ex (\<lambda>c. c = u \<or> ci \<and> ascii_lower_unit c = ascii_lower_unit u) codes"

text \<open>\<open>RepeatMatcher\<close>, greedy: an iteration beyond the minimum that consumed nothing fails.\<close>

fun repeat_ends :: "(nat \<Rightarrow> nat list) \<Rightarrow> nat \<Rightarrow> nat \<Rightarrow> nat \<Rightarrow> nat list" where
  "repeat_ends m mn 0 i = [i]"
| "repeat_ends m mn (Suc mx) i =
     (let more = concat (map (\<lambda>y. if mn = 0 \<and> y = i then [] else repeat_ends m (mn - 1) mx y) (m i))
      in if 0 < mn then more else more @ [i])"

function (sequential) ends_alternatives :: "alternatives \<Rightarrow> bool \<Rightarrow> ustring \<Rightarrow> nat \<Rightarrow> nat list"
and ends_sequence :: "pterm list \<Rightarrow> bool \<Rightarrow> ustring \<Rightarrow> nat \<Rightarrow> nat list"
and ends_term :: "pterm \<Rightarrow> bool \<Rightarrow> ustring \<Rightarrow> nat \<Rightarrow> nat list"
and ends_atom :: "atom \<Rightarrow> bool \<Rightarrow> ustring \<Rightarrow> nat \<Rightarrow> nat list" where
  "ends_alternatives [] ci text i = []"
| "ends_alternatives (terms # alts) ci text i = ends_sequence terms ci text i @ ends_alternatives alts ci text i"
| "ends_sequence [] ci text i = [i]"
| "ends_sequence (t # ts) ci text i = concat (map (\<lambda>e. ends_sequence ts ci text e) (ends_term t ci text i))"
| "ends_term (PTerm a mn mx quantified) ci text i =
     (if quantified then repeat_ends (\<lambda>e. ends_atom a ci text e) mn mx i else ends_atom a ci text i)"
| "ends_atom (CharAtom codes _ _) ci text i =
     (if i < length text \<and> char_matches codes ci (text ! i) then [i + 1] else [])"
| "ends_atom (GroupAtom alts) ci text i = ends_alternatives alts ci text i"
  by pat_completeness auto
termination
  by (relation "measure (case_sum (case_sum (\<lambda>(a, _). size_list (size_list size) a) (\<lambda>(a, _). size_list size a))
        (case_sum (\<lambda>(a, _). size a) (\<lambda>(a, _). size a)))") auto

definition ecma_match :: "safe_pattern \<Rightarrow> ustring \<Rightarrow> nat \<Rightarrow> nat option" where
  "ecma_match p text start =
     (case ends_alternatives (sp_alternatives p) (sp_caseInsensitive p) text start of
        [] \<Rightarrow> None | e # _ \<Rightarrow> Some e)"

section \<open>Character sets\<close>

lemma length_charSet [simp]: "length (charSet codes ci) = 128"
proof -
  have "length (foldl (\<lambda>cs code.
         let cs = set_code code cs in
         if \<not> ci then cs
         else
           let cs = (if 65 \<le> code \<and> code \<le> 90 then set_code (code + 32) cs else cs) in
           if 97 \<le> code \<and> code \<le> 122 then set_code (code - 32) cs else cs) cs codes) = length cs" for cs
    by (induction codes arbitrary: cs) (simp_all add: Let_def set_code_def)
  then show ?thesis by (simp add: charSet_def)
qed

lemma in_set_charSet:
  assumes "list_all (\<lambda>c. c < 128) codes"
  shows "in_set (charSet codes ci) u = char_matches codes ci u"
proof -
  let ?f = "(\<lambda>cs code.
         let cs = set_code code cs in
         if \<not> ci then cs
         else
           let cs = (if 65 \<le> code \<and> code \<le> 90 then set_code (code + 32) cs else cs) in
           if 97 \<le> code \<and> code \<le> 122 then set_code (code - 32) cs else cs)"
  have step: "in_set (?f cs code) u \<longleftrightarrow> in_set cs u \<or> char_matches [code] ci u"
    if "length cs = 128" "code < 128" for cs code
    using that
    by (auto simp: in_set_def char_matches_def set_code_def Let_def nth_list_update ascii_lower_unit_def)
  have "in_set (foldl ?f cs codes) u \<longleftrightarrow> in_set cs u \<or> char_matches codes ci u" 
    if "length cs = 128" "list_all (\<lambda>c. c < 128) codes" for cs
    using that
  proof (induction codes arbitrary: cs)
    case Nil
    then show ?case by (simp add: char_matches_def)
  next
    case (Cons c codes)
    have "length (?f cs c) = 128" using Cons.prems by (simp add: set_code_def Let_def)
    with Cons.IH [of "?f cs c"] step [of cs c] Cons.prems show ?case
      by (auto simp: char_matches_def)
  qed
  from this [of "replicate 128 False"] assms show ?thesis
    by (auto simp: charSet_def in_set_def)
qed

section \<open>Metered computations with a known result\<close>

text \<open>\<open>computes f v n\<close>: with \<open>n\<close> units left \<open>f\<close> returns \<open>v\<close> and spends at most \<open>n\<close>; with fewer
  it returns \<open>v\<close> or throws the budget error.\<close>

definition computes :: "(work_meter \<Rightarrow> 'a metered) \<Rightarrow> 'a \<Rightarrow> int \<Rightarrow> bool" where
  "computes f v n \<longleftrightarrow> 0 \<le> n \<and>
     (\<forall>m. case f m of
            (m', Inr r) \<Rightarrow> r = v \<and> remaining m - n \<le> remaining m'
          | (m', Inl e) \<Rightarrow> e = WorkBudgetExceeded \<and> remaining m < n)"

lemma computes_nonneg: "computes f v n \<Longrightarrow> 0 \<le> n"
  by (simp add: computes_def)

lemma computes_mono: "computes f v n \<Longrightarrow> n \<le> n' \<Longrightarrow> computes f v n'"
  unfolding computes_def by (fastforce split: prod.splits sum.splits)

lemma computes_return: "computes (m_return v) v 0"
  by (simp add: computes_def m_return_def)

lemma computes_spend: "0 \<le> u \<Longrightarrow> computes (m_spend u) () u"
  unfolding computes_def
proof (intro conjI allI)
  fix m
  show "case m_spend u m of (m', Inl e) \<Rightarrow> e = WorkBudgetExceeded \<and> remaining m < u
     | (m', Inr r) \<Rightarrow> r = () \<and> remaining m - u \<le> remaining m'"
    using spend_result [of m u] spend_remaining [of m u]
    by (cases "spend m u") (auto simp: m_spend_def split: sum.splits if_splits)
qed simp

lemma computes_bind:
  assumes f: "computes f v n" and g: "computes (g v) w k"
  shows "computes (m_bind f g) w (n + k)"
  unfolding computes_def
proof (intro conjI allI)
  show "0 \<le> n + k" using computes_nonneg [OF f] computes_nonneg [OF g] by simp
  fix m
  obtain m1 r1 where fm: "f m = (m1, r1)" by (cases "f m")
  have fm': "case r1 of Inr r \<Rightarrow> r = v \<and> remaining m - n \<le> remaining m1
      | Inl e \<Rightarrow> e = WorkBudgetExceeded \<and> remaining m < n"
    using f fm unfolding computes_def by (metis (no_types, lifting) case_prod_conv)
  show "case m_bind f g m of (m', Inl e) \<Rightarrow> e = WorkBudgetExceeded \<and> remaining m < n + k
     | (m', Inr r) \<Rightarrow> r = w \<and> remaining m - (n + k) \<le> remaining m'"
  proof (cases r1)
    case (Inl e)
    with fm fm' computes_nonneg [OF g] show ?thesis by (simp add: m_bind_def)
  next
    case (Inr x)
    obtain m2 r2 where gm: "g v m1 = (m2, r2)" by (cases "g v m1")
    have gm': "case r2 of Inr r \<Rightarrow> r = w \<and> remaining m1 - k \<le> remaining m2
        | Inl e \<Rightarrow> e = WorkBudgetExceeded \<and> remaining m1 < k"
      using g gm unfolding computes_def by (metis (no_types, lifting) case_prod_conv)
    from Inr fm fm' gm gm' show ?thesis
      by (cases r2) (auto simp: m_bind_def)
  qed
qed

lemma computes_spend_bind:
  "0 \<le> u \<Longrightarrow> computes (g ()) w k \<Longrightarrow> computes (m_bind (m_spend u) g) w (u + k)"
  by (rule computes_bind [OF computes_spend])

lemma computes_result:
  "computes f v n \<Longrightarrow> f m = (m', Inr r) \<Longrightarrow> r = v"
  by (auto simp: computes_def dest!: spec [of _ m])

lemma computes_enough:
  assumes "computes f v n" and "n \<le> remaining m"
  obtains m' where "f m = (m', Inr v)" and "remaining m - n \<le> remaining m'"
proof (cases "f m")
  case (Pair m' r)
  from assms(1) have "case f m of (m', Inr r) \<Rightarrow> r = v \<and> remaining m - n \<le> remaining m'
      | (m', Inl e) \<Rightarrow> e = WorkBudgetExceeded \<and> remaining m < n"
    by (simp add: computes_def)
  with Pair assms(2) that show thesis by (cases r) auto
qed

lemma computes_throws: "computes f v n \<Longrightarrow> f m = (m', Inl e) \<Longrightarrow> e = WorkBudgetExceeded \<and> remaining m < n"
  by (auto simp: computes_def dest!: spec [of _ m])

text \<open>The first result in a priority list.\<close>

fun first_some :: "('a \<Rightarrow> 'b option) \<Rightarrow> 'a list \<Rightarrow> 'b option" where
  "first_some g [] = None"
| "first_some g (x # xs) = (case g x of Some e \<Rightarrow> Some e | None \<Rightarrow> first_some g xs)"

lemma first_some_append:
  "first_some g (xs @ ys) = (case first_some g xs of Some e \<Rightarrow> Some e | None \<Rightarrow> first_some g ys)"
  by (induction xs) (auto split: option.splits)

lemma first_some_concat: "first_some g (concat (map f xs)) = first_some (\<lambda>x. first_some g (f x)) xs"
  by (induction xs) (auto simp: first_some_append split: option.splits)

lemma first_some_map: "first_some g (map f xs) = first_some (\<lambda>x. g (f x)) xs"
  by (induction xs) (auto split: option.splits)

lemma first_some_filter:
  "first_some g (concat (map (\<lambda>y. if p y then [] else [y]) xs)) = first_some (\<lambda>y. if p y then None else g y) xs"
  by (induction xs) (auto split: option.splits)

lemma first_some_Some: "first_some g xs = Some e \<Longrightarrow> \<exists>x \<in> set xs. g x = Some e"
  by (induction xs) (auto split: option.splits)

lemma first_some_single [simp]: "first_some g [x] = g x"
  by (cases "g x") (simp_all add: first_some.simps)

lemma first_some_hd: "first_some Some xs = (case xs of [] \<Rightarrow> None | x # _ \<Rightarrow> Some x)"
  by (cases xs) auto

lemma computes_give_back:
  assumes "\<And>c. computes (f c) (h c) n"
  shows "computes (give_back f mn k) (first_some h (rev [mn ..< mn + k])) (int k * (n + 1))"
proof (induction k)
  case 0
  then show ?case by (simp add: computes_return)
next
  case (Suc k)
  have n: "0 \<le> n" using computes_nonneg [OF assms] .
  have "computes (case h (mn + k) of Some e \<Rightarrow> m_return (Some e)
       | None \<Rightarrow> m_bind (m_spend 1) (\<lambda>_. give_back f mn k))
     (first_some h (rev [mn ..< mn + Suc k])) (1 + int k * (n + 1))"
    using Suc n by (cases "h (mn + k)")
      (auto intro: computes_spend_bind computes_mono [OF computes_return])
  from computes_bind [OF assms [of "mn + k"], where g = "\<lambda>r. case r of Some e \<Rightarrow> m_return (Some e)
       | None \<Rightarrow> m_bind (m_spend 1) (\<lambda>_. give_back f mn k)", OF this]
  have "computes (give_back f mn (Suc k)) (first_some h (rev [mn ..< mn + Suc k])) (n + (1 + int k * (n + 1)))"
    by simp
  then show ?case by (rule computes_mono) (simp add: algebra_simps)
qed

section \<open>Repetition of a deterministic atom\<close>

text \<open>The consecutive iterations of a step that consumes \<open>w\<close> units or fails.\<close>

fun det_count :: "(nat \<Rightarrow> bool) \<Rightarrow> nat \<Rightarrow> nat \<Rightarrow> nat \<Rightarrow> nat" where
  "det_count ok w 0 i = 0"
| "det_count ok w (Suc n) i = (if ok i then Suc (det_count ok w n (i + w)) else 0)"

lemma det_count_le: "det_count ok w n i \<le> n"
  by (induction n arbitrary: i) auto

lemma repeat_ends_det:
  assumes "0 < w" and "mn \<le> mx"
  shows "repeat_ends (\<lambda>e. if ok e then [e + w] else []) mn mx i
    = map (\<lambda>c. i + c * w) (rev [mn ..< det_count ok w mx i + 1])"
  using assms(2)
proof (induction mx arbitrary: mn i)
  case 0
  then show ?case by simp
next
  case (Suc mx)
  show ?case
  proof (cases "ok i")
    case False
    then show ?thesis by (cases mn) auto
  next
    case True
    let ?n = "det_count ok w mx (i + w)"
    have shift: "map (\<lambda>c. i + w + c * w) (rev [k ..< ?n + 1]) = map (\<lambda>c. i + c * w) (rev [Suc k ..< ?n + 2])" for k
      by (simp add: map_Suc_upt [symmetric] rev_map del: upt_Suc)
    show ?thesis
    proof (cases mn)
      case 0
      have "[0 ..< ?n + 2] = 0 # [1 ..< ?n + 2]" by (simp add: upt_conv_Cons del: upt_Suc)
      with Suc.IH [of 0 "i + w"] True 0 assms(1) shift [of 0] show ?thesis
        by (simp del: upt_Suc)
    next
      case (Suc mn')
      with Suc.IH [of mn' "i + w"] Suc.prems True shift [of mn'] show ?thesis
        by (simp del: upt_Suc)
    qed
  qed
qed

lemma count_while_det:
  "count_while (in_set cs) n (drop i text) = det_count (accepts cs text) 1 n i"
proof (induction n arbitrary: i)
  case (Suc n)
  show ?case
  proof (cases "i < length text")
    case True
    then have "drop i text = text ! i # drop (i + 1) text" by (simp add: Cons_nth_drop_Suc)
    with True Suc [of "i + 1"] show ?thesis by (simp add: accepts_def)
  qed (simp add: accepts_def)
qed simp


section \<open>Repeated groups\<close>

lemma sets_match_Nil [simp]: "sets_match [] text i"
  by (simp add: sets_match_def)

lemma sets_match_Cons:
  "sets_match (cs # sets) text i \<longleftrightarrow> accepts cs text i \<and> sets_match sets text (i + 1)"
proof -
  have "[0 ..< length (cs # sets)] = 0 # map Suc [0 ..< length sets]"
    by (simp add: map_Suc_upt upt_conv_Cons del: upt_Suc)
  then show ?thesis
    by (simp only: sets_match_def list.pred_inject list.pred_map) (simp add: comp_def)
qed

lemma sets_match_append:
  "sets_match (xs @ ys) text i \<longleftrightarrow> sets_match xs text i \<and> sets_match ys text (i + length xs)"
  by (induction xs arbitrary: i) (auto simp: sets_match_Cons)

lemma sets_match_bound: "sets_match sets text i \<Longrightarrow> sets \<noteq> [] \<Longrightarrow> i + length sets \<le> length text"
proof (induction sets arbitrary: i)
  case (Cons cs sets)
  then show ?case using Cons.IH [of "i + 1"]
    by (cases "sets = []") (auto simp: sets_match_Cons accepts_def)
qed simp

lemma flatten_not_Nil:
  "wf_terms ts \<Longrightarrow> ts \<noteq> [] \<Longrightarrow> flatten_terms ts ci \<noteq> []"
  "wf_term t \<Longrightarrow> flatten_term t ci \<noteq> []"
  by (induction ts ci and t ci rule: flatten_terms_flatten_term.induct) auto

lemma flatten_ends:
  "wf_terms ts \<Longrightarrow> \<not> some_term_repeats ts \<Longrightarrow> ends_sequence ts ci text i =
     (if sets_match (flatten_terms ts ci) text i then [i + length (flatten_terms ts ci)] else [])"
  "wf_term t \<Longrightarrow> \<not> term_repeats t \<Longrightarrow> ends_term t ci text i =
     (if sets_match (flatten_term t ci) text i then [i + length (flatten_term t ci)] else [])"
proof (induction ts ci and t ci arbitrary: i and i rule: flatten_terms_flatten_term.induct)
  case (2 t ts ci)
  then show ?case by (auto simp: sets_match_append add.assoc)
next
  case (3 codes literal source mn mx q ci)
  then show ?case by (auto simp: sets_match_Cons accepts_def in_set_charSet)
next
  case (5 terms alts mn mx q ci)
  then have "alts = []" by (cases alts) auto
  with 5 show ?case by auto
qed auto

lemma group_det:
  assumes "wf_term (PTerm (GroupAtom alts) mn mx q)" and "\<not> repeatsOrBranches alts"
  shows "ends_alternatives alts ci text i =
     (if sets_match (flatten alts ci) text i then [i + length (flatten alts ci)] else [])"
    and "flatten alts ci \<noteq> []"
proof -
  from assms obtain terms where alts: "alts = [terms]" "\<not> some_term_repeats terms" "wf_terms terms" "terms \<noteq> []"
  proof -
    from assms(1) obtain terms rest where "alts = terms # rest" by (cases alts) auto
    with assms that show thesis by (cases rest) auto
  qed
  then show "ends_alternatives alts ci text i =
     (if sets_match (flatten alts ci) text i then [i + length (flatten alts ci)] else [])"
    "flatten alts ci \<noteq> []"
    by (simp_all add: flatten_def flatten_ends flatten_not_Nil)
qed

lemma computes_fixed_count:
  assumes "sets \<noteq> []"
  shows "computes (fixed_count n sets text pos count)
     (count + det_count (sets_match sets text) (length sets) n pos) (int (n * length sets))"
proof (induction n arbitrary: pos count)
  case 0
  then show ?case by (simp add: computes_return)
next
  case (Suc n)
  show ?case
  proof (cases "length text < pos + length sets")
    case True
    then have "\<not> sets_match sets text pos" using sets_match_bound [OF _ assms] by force
    with True show ?thesis by (auto intro: computes_mono [OF computes_return])
  next
    case False
    show ?thesis
    proof (cases "sets_match sets text pos")
      case True
      have "computes (m_bind (m_spend (int (length sets))) (\<lambda>_. fixed_count n sets text (pos + length sets) (count + 1)))
        (count + 1 + det_count (sets_match sets text) (length sets) n (pos + length sets))
        (int (length sets) + int (n * length sets))"
        using Suc [of "pos + length sets" "count + 1"] by (intro computes_spend_bind) simp_all
      with True False show ?thesis by simp
    next
      case no: False
      have "computes (m_bind (m_spend (int (length sets))) (\<lambda>_. m_return count)) count (int (length sets) + 0)"
        by (rule computes_spend_bind) (simp_all add: computes_return)
      then have "computes (m_bind (m_spend (int (length sets))) (\<lambda>_. m_return count)) count (int (Suc n * length sets))"
        by (rule computes_mono) simp
      with no False show ?thesis by simp
    qed
  qed
qed

section \<open>Cost of one attempt\<close>

function (sequential) alternatives_cost :: "match_node list list \<Rightarrow> int \<Rightarrow> int"
and run_cost :: "match_node list \<Rightarrow> int \<Rightarrow> int"
and node_cost :: "match_node \<Rightarrow> int \<Rightarrow> int" where
  "alternatives_cost [] d = 0"
| "alternatives_cost (nodes # alts) d = run_cost nodes d + alternatives_cost alts d"
| "run_cost [] d = d"
| "run_cost (node # nodes) d = node_cost node (run_cost nodes d)"
| "node_cost (CharNode cs mn mx) d = 1 + int mx + int (mx + 1 - mn) * (d + 1)"
| "node_cost (FixedNode sets mn mx) d = 1 + int (mx * length sets) + int (mx + 1 - mn) * (d + 1)"
| "node_cost (BranchNode alts mn) d = 1 + alternatives_cost alts d + (if mn = 0 then d else 0)"
  by pat_completeness auto
termination
  by (relation "measure (\<lambda>x. case x of Inl (alts, _) \<Rightarrow> size_list (size_list size) alts
        | Inr (Inl (ts, _)) \<Rightarrow> size_list size ts | Inr (Inr (t, _)) \<Rightarrow> size t)") auto

lemma count_give_back:
  assumes "\<And>c. computes (f c) (h c) d" and "cnt \<le> mx"
  shows "computes (give_back f mn (cnt + 1 - mn)) (first_some h (rev [mn ..< cnt + 1]))
    (int (mx + 1 - mn) * (d + 1))"
proof -
  have d: "0 \<le> d" using computes_nonneg [OF assms(1)] .
  have "computes (give_back f mn (cnt + 1 - mn)) (first_some h (rev [mn ..< mn + (cnt + 1 - mn)]))
      (int (cnt + 1 - mn) * (d + 1))"
    using computes_give_back [OF assms(1)] .
  moreover have "[mn ..< mn + (cnt + 1 - mn)] = [mn ..< cnt + 1]"
    by (cases "mn \<le> cnt + 1") (simp_all del: upt_Suc)
  moreover have "int (cnt + 1 - mn) * (d + 1) \<le> int (mx + 1 - mn) * (d + 1)"
    using assms(2) d by (intro mult_right_mono) simp_all
  ultimately show ?thesis by (simp only: computes_mono)
qed

lemma computes_char:
  assumes "list_all (\<lambda>c. c < 128) codes" and "mn \<le> mx"
    and "\<And>e. computes (run nxt text e done') (g e) d"
  shows "computes (run (CharNode (charSet codes ci) mn mx # nxt) text i done')
    (first_some g (repeat_ends (\<lambda>e. ends_atom (CharAtom codes literal source) ci text e) mn mx i))
    (1 + (int mx + int (mx + 1 - mn) * (d + 1)))"
proof -
  let ?cs = "charSet codes ci"
  let ?cnt = "count_while (in_set ?cs) mx (drop i text)"
  have m: "(\<lambda>e. ends_atom (CharAtom codes literal source) ci text e)
      = (\<lambda>e. if accepts ?cs text e then [e + 1] else [])"
    by (auto simp: accepts_def in_set_charSet [OF assms(1)])
  have ends: "repeat_ends (\<lambda>e. ends_atom (CharAtom codes literal source) ci text e) mn mx i
      = map (\<lambda>c. i + c) (rev [mn ..< ?cnt + 1])"
    unfolding m repeat_ends_det [OF zero_less_one assms(2)] count_while_det by simp
  have gb: "computes (give_back (\<lambda>c. run nxt text (i + c) done') mn (?cnt + 1 - mn))
      (first_some (\<lambda>c. g (i + c)) (rev [mn ..< ?cnt + 1])) (int (mx + 1 - mn) * (d + 1))"
    by (rule count_give_back [OF assms(3) count_while_le])
  have c: "computes (m_bind (m_spend (int ?cnt)) (\<lambda>_. give_back (\<lambda>c. run nxt text (i + c) done') mn (?cnt + 1 - mn)))
      (first_some (\<lambda>c. g (i + c)) (rev [mn ..< ?cnt + 1])) (int mx + int (mx + 1 - mn) * (d + 1))"
    by (rule computes_mono [OF computes_spend_bind [OF _ gb]]) (simp_all add: count_while_le)
  show ?thesis
    unfolding ends first_some_map run.simps Let_def
    by (rule computes_spend_bind [OF _ c]) simp
qed

lemma computes_fixed:
  assumes "wf_term (PTerm (GroupAtom alts) mn mx q)" and "1 < mx"
    and "\<And>e. computes (run nxt text e done') (g e) d"
  shows "computes (run (FixedNode (flatten alts ci) mn mx # nxt) text i done')
    (first_some g (repeat_ends (\<lambda>e. ends_atom (GroupAtom alts) ci text e) mn mx i))
    (1 + (int (mx * length (flatten alts ci)) + int (mx + 1 - mn) * (d + 1)))"
proof -
  let ?sets = "flatten alts ci" let ?w = "length ?sets"
  let ?cnt = "det_count (sets_match ?sets text) ?w mx i"
  have nr: "\<not> repeatsOrBranches alts" and mn: "mn \<le> mx" using assms(1,2) by auto
  note det = group_det [OF assms(1) nr]
  have m: "(\<lambda>e. ends_atom (GroupAtom alts) ci text e)
      = (\<lambda>e. if sets_match ?sets text e then [e + ?w] else [])"
    by (auto simp: det(1))
  have ends: "repeat_ends (\<lambda>e. ends_atom (GroupAtom alts) ci text e) mn mx i
      = map (\<lambda>c. i + c * ?w) (rev [mn ..< ?cnt + 1])"
    unfolding m by (rule repeat_ends_det) (simp_all add: det(2) mn)
  have gb: "computes (give_back (\<lambda>c. run nxt text (i + c * ?w) done') mn (?cnt + 1 - mn))
      (first_some (\<lambda>c. g (i + c * ?w)) (rev [mn ..< ?cnt + 1])) (int (mx + 1 - mn) * (d + 1))"
    by (rule count_give_back [OF assms(3) det_count_le])
  have fc: "computes (fixed_count mx ?sets text i 0) ?cnt (int (mx * ?w))"
    using computes_fixed_count [OF det(2), where n = mx and pos = i and count = 0] by simp
  have c: "computes (m_bind (fixed_count mx ?sets text i 0)
        (\<lambda>count. give_back (\<lambda>c. run nxt text (i + c * ?w) done') mn (count + 1 - mn)))
      (first_some (\<lambda>c. g (i + c * ?w)) (rev [mn ..< ?cnt + 1])) (int (mx * ?w) + int (mx + 1 - mn) * (d + 1))"
    by (rule computes_bind [OF fc, where g = "\<lambda>count. give_back (\<lambda>c. run nxt text (i + c * ?w) done') mn (count + 1 - mn)"])
      (rule gb)
  show ?thesis
    unfolding ends first_some_map run.simps
    by (rule computes_spend_bind [OF _ c]) simp
qed

text \<open>A group tried at most once.\<close>

lemma repeat_ends_once:
  "repeat_ends m 0 (Suc 0) i = concat (map (\<lambda>y. if y = i then [] else [y]) (m i)) @ [i]"
  "repeat_ends m (Suc 0) (Suc 0) i = m i"
  by (simp_all cong: if_cong)

lemma ends_group_once:
  assumes "wf_term (PTerm (GroupAtom alts) mn mx q)" and "\<not> 1 < mx"
  shows "first_some g (ends_term (PTerm (GroupAtom alts) mn mx q) ci text i) =
    (if mn = 0 then
       (case first_some (\<lambda>e. if e = i then None else g e) (ends_alternatives alts ci text i) of
          Some e \<Rightarrow> Some e | None \<Rightarrow> g i)
     else first_some g (ends_alternatives alts ci text i))"
proof -
  from assms have mx: "mx = Suc 0" and "mn \<le> 1" "q \<or> mn = 1" by auto
  then consider "mn = 1" "q" | "mn = 1" "\<not> q" | "mn = 0" "q" by linarith
  then show ?thesis
    by cases (simp_all add: mx repeat_ends_once first_some_append first_some_filter
      del: repeat_ends.simps first_some.simps cong: option.case_cong)
qed

lemma computes_run:
  "wf_alternatives alts \<Longrightarrow> (\<And>e. computes (done' e) (g e) d) \<Longrightarrow> computes otherwise' v k \<Longrightarrow>
     computes (try_all (run_alternatives (compile_alternatives alts ci) text i done') otherwise')
       (case first_some g (ends_alternatives alts ci text i) of Some e \<Rightarrow> Some e | None \<Rightarrow> v)
       (alternatives_cost (compile_alternatives alts ci) d + k)"
  "wf_terms ts \<Longrightarrow> (\<And>e. computes (done' e) (g e) d) \<Longrightarrow>
     computes (run (compileSequence ts ci) text i done') (first_some g (ends_sequence ts ci text i))
       (run_cost (compileSequence ts ci) d)"
  "wf_term t \<Longrightarrow> (\<And>e. computes (run nxt text e done') (g e) d) \<Longrightarrow>
     computes (run (compile_term t ci # nxt) text i done') (first_some g (ends_term t ci text i))
       (node_cost (compile_term t ci) d)"
proof (induction alts ci and ts ci and t ci
    arbitrary: done' g d i otherwise' v k and done' g d i and done' g d i nxt
    rule: compile_alternatives_compileSequence_compile_term.induct)
  case (1 ci)
  then show ?case by simp
next
  case (2 terms alts ci)
  let ?r = "run (compileSequence terms ci) text i done'"
  let ?v = "first_some g (ends_sequence terms ci text i)"
  let ?rest = "try_all (run_alternatives (compile_alternatives alts ci) text i done') otherwise'"
  let ?w = "case first_some g (ends_alternatives alts ci text i) of Some e \<Rightarrow> Some e | None \<Rightarrow> v"
  let ?n = "alternatives_cost (compile_alternatives alts ci) d + k"
  have r: "computes ?r ?v (run_cost (compileSequence terms ci) d)"
    using "2.IH"(1) [of done' g d i] "2.prems" by simp
  have rest: "computes ?rest ?w ?n"
    using "2.IH"(2) [of done' g d otherwise' v k i] "2.prems" by simp
  have "computes (case ?v of Some e \<Rightarrow> m_return (Some e) | None \<Rightarrow> ?rest)
      (case ?v of Some e \<Rightarrow> Some e | None \<Rightarrow> ?w) ?n"
    using rest computes_nonneg [OF rest]
    by (cases ?v) (auto intro: computes_mono [OF computes_return])
  from computes_bind [OF r, where g = "\<lambda>x. case x of Some e \<Rightarrow> m_return (Some e) | None \<Rightarrow> ?rest", OF this]
  have "computes (m_bind ?r (\<lambda>x. case x of Some e \<Rightarrow> m_return (Some e) | None \<Rightarrow> ?rest))
      (case ?v of Some e \<Rightarrow> Some e | None \<Rightarrow> ?w) (run_cost (compileSequence terms ci) d + ?n)" .
  then show ?case
    by (cases ?v) (simp_all add: first_some_append add.assoc)
next
  case (3 ci)
  then show ?case by (simp del: first_some.simps)
next
  case (4 t ts ci)
  have "computes (run (compileSequence ts ci) text e done') (first_some g (ends_sequence ts ci text e))
      (run_cost (compileSequence ts ci) d)" for e
    using "4.IH"(2) [of done' g d e] "4.prems" by simp
  with "4.IH"(1) [of "compileSequence ts ci" done' "\<lambda>e. first_some g (ends_sequence ts ci text e)"] "4.prems"(1)
  show ?case by (simp add: first_some_concat)
next
  case (5 codes literal source mn mx q ci)
  then have wf: "list_all (\<lambda>c. c < 128) codes" "mn \<le> mx" and q: "q \<or> mn = 1 \<and> mx = 1" by auto
  have "ends_term (PTerm (CharAtom codes literal source) mn mx q) ci text i
      = repeat_ends (\<lambda>e. ends_atom (CharAtom codes literal source) ci text e) mn mx i"
    using q repeat_ends_once(2) [of "\<lambda>e. ends_atom (CharAtom codes literal source) ci text e" i]
    by (cases q) (simp_all del: repeat_ends.simps ends_atom.simps)
  with computes_char [OF wf "5.prems"(2)] show ?case
    by (simp only: compile_term.simps node_cost.simps add.assoc)
next
  case (6 alts mn mx q ci)
  show ?case
  proof (cases "1 < mx")
    case True
    then have "q" using "6.prems"(1) by auto
    with computes_fixed [OF "6.prems"(1) True "6.prems"(2)] True show ?thesis
      by (simp only: compile_term.simps if_True node_cost.simps add.assoc ends_term.simps)
  next
    case False
    have wf: "wf_alternatives alts" using "6.prems"(1) by simp
    let ?iter = "if mn = 0 then (\<lambda>e. if e = i then m_return None else run nxt text e done')
        else (\<lambda>e. run nxt text e done')"
    let ?G = "if mn = 0 then (\<lambda>e. if e = i then None else g e) else g"
    have d: "0 \<le> d" using computes_nonneg [OF "6.prems"(2)] .
    have iter: "computes (?iter e) (?G e) d" for e
      using "6.prems"(2) [of e] d by (auto intro: computes_mono [OF computes_return])
    have other: "computes (if mn = 0 then run nxt text i done' else m_return None)
        (if mn = 0 then g i else None) (if mn = 0 then d else 0)"
      using "6.prems"(2) [of i] by (simp add: computes_return)
    note ih = "6.IH" [OF False wf iter other, of i]
    have "computes (m_bind (m_spend 1) (\<lambda>_. try_all
            (run_alternatives (compile_alternatives alts ci) text i ?iter)
            (if mn = 0 then run nxt text i done' else m_return None)))
        (case first_some ?G (ends_alternatives alts ci text i) of Some e \<Rightarrow> Some e
           | None \<Rightarrow> (if mn = 0 then g i else None))
        (1 + (alternatives_cost (compile_alternatives alts ci) d + (if mn = 0 then d else 0)))"
      by (rule computes_spend_bind [OF _ ih]) simp
    then show ?thesis
      unfolding ends_group_once [OF "6.prems"(1) False]
      using False by (cases "mn = 0") (auto simp: Let_def add.assoc split: option.splits)
  qed
qed

section \<open>Lengths of matches\<close>

lemma repeat_ends_SucE:
  assumes "e \<in> set (repeat_ends m mn (Suc mx) i)"
  obtains (stop) "mn = 0" "e = i"
  | (iterate) y where "y \<in> set (m i)" "e \<in> set (repeat_ends m (mn - 1) mx y)" "mn = 0 \<Longrightarrow> y \<noteq> i"
  using assms by (auto simp: Let_def split: if_splits)

lemma repeat_ends_bounds:
  assumes "\<And>j e. e \<in> set (m j) \<Longrightarrow> j + lo \<le> e \<and> e \<le> j + hi"
  shows "mn \<le> mx \<Longrightarrow> e \<in> set (repeat_ends m mn mx i) \<Longrightarrow> i + mn * lo \<le> e \<and> e \<le> i + mx * hi"
proof (induction mx arbitrary: mn i)
  case 0
  then show ?case by simp
next
  case (Suc mx)
  from Suc.prems(2) show ?case
  proof (cases rule: repeat_ends_SucE)
    case stop
    then show ?thesis by simp
  next
    case (iterate y)
    have "y + (mn - 1) * lo \<le> e \<and> e \<le> y + mx * hi"
      using Suc.IH [of "mn - 1" y] Suc.prems(1) iterate(2) by simp
    moreover have "i + lo \<le> y \<and> y \<le> i + hi" by (rule assms [OF iterate(1)])
    moreover have "mn * lo \<le> lo + (mn - 1) * lo" by (cases mn) auto
    ultimately show ?thesis by simp
  qed
qed

lemma ends_bounds:
  "wf_alternatives alts \<Longrightarrow> e \<in> set (ends_alternatives alts ci text i) \<Longrightarrow>
     i + minimumLength alts \<le> e \<and> e \<le> i + maximumLength alts"
  "wf_terms ts \<Longrightarrow> e \<in> set (ends_sequence ts ci text i) \<Longrightarrow>
     i + min_sequence ts \<le> e \<and> e \<le> i + max_sequence ts"
  "wf_term t \<Longrightarrow> e \<in> set (ends_term t ci text i) \<Longrightarrow> i + min_term t \<le> e \<and> e \<le> i + max_term t"
  "wf_atom a \<Longrightarrow> e \<in> set (ends_atom a ci text i) \<Longrightarrow>
     (case a of CharAtom _ _ _ \<Rightarrow> e = i + 1
      | GroupAtom alts \<Rightarrow> i + minimumLength alts \<le> e \<and> e \<le> i + maximumLength alts)"
proof (induction alts ci "text" i and ts ci "text" i and t ci "text" i and a ci "text" i
    arbitrary: e and e and e and e
    rule: ends_alternatives_ends_sequence_ends_term_ends_atom.induct)
  case (2 terms alts ci "text" i)
  show ?case
  proof (cases alts)
    case Nil
    with 2 show ?thesis by auto
  next
    case (Cons terms' alts')
    have "minimumLength (terms # alts) = min (min_sequence terms) (minimumLength alts)"
      "maximumLength (terms # alts) = max (max_sequence terms) (maximumLength alts)"
      by (simp_all add: Cons)
    with 2 show ?thesis by fastforce
  qed
next
  case (4 t ts ci "text" i)
  from "4.prems" obtain y where y: "y \<in> set (ends_term t ci text i)" "e \<in> set (ends_sequence ts ci text y)"
    by auto
  with "4.prems" have "wf_term t" "wf_terms ts" by auto
  with "4.IH"(1) [OF _ y(1)] "4.IH"(2) [OF y(1) _ y(2)] show ?case by simp
next
  case (5 a mn mx q ci "text" i)
  define lo where "lo = (case a of CharAtom _ _ _ \<Rightarrow> 1 | GroupAtom alts \<Rightarrow> minimumLength alts)"
  define hi where "hi = (case a of CharAtom _ _ _ \<Rightarrow> 1 | GroupAtom alts \<Rightarrow> maximumLength alts)"
  have t: "min_term (PTerm a mn mx q) = mn * lo" "max_term (PTerm a mn mx q) = mx * hi"
    by (cases a; simp add: lo_def hi_def)+
  have wf: "wf_atom a" "mn \<le> mx" "q \<or> mn = 1 \<and> mx = 1"
    using "5.prems"(1) by (cases a; auto simp: wf_atom_def)+
  show ?case
  proof (cases q)
    case True
    have "j + lo \<le> e \<and> e \<le> j + hi" if "e \<in> set (ends_atom a ci text j)" for j e
      using "5.IH"(1) [OF True wf(1) that] by (cases a) (auto simp: lo_def hi_def)
    from repeat_ends_bounds [OF this wf(2)] "5.prems"(2) True show ?thesis
      unfolding t by simp
  next
    case False
    with "5.IH"(2) [OF False wf(1), of e] "5.prems"(2) wf(3) show ?thesis
      unfolding t by (cases a) (auto simp: lo_def hi_def)
  qed
qed (auto simp: wf_atom_def split: if_splits)

lemma repeat_ends_inside:
  assumes "\<And>j e. e \<in> set (m j) \<Longrightarrow> j \<le> n \<Longrightarrow> e \<le> n"
  shows "i \<le> n \<Longrightarrow> e \<in> set (repeat_ends m mn mx i) \<Longrightarrow> e \<le> n"
proof (induction mx arbitrary: mn i)
  case (Suc mx)
  from Suc.prems(2) show ?case
    by (cases rule: repeat_ends_SucE) (use Suc.prems(1) Suc.IH assms in blast)+
qed simp

lemma ends_inside:
  "e \<in> set (ends_alternatives alts ci text i) \<Longrightarrow> i \<le> length text \<Longrightarrow> e \<le> length text"
  "e \<in> set (ends_sequence ts ci text i) \<Longrightarrow> i \<le> length text \<Longrightarrow> e \<le> length text"
  "e \<in> set (ends_term t ci text i) \<Longrightarrow> i \<le> length text \<Longrightarrow> e \<le> length text"
  "e \<in> set (ends_atom a ci text i) \<Longrightarrow> i \<le> length text \<Longrightarrow> e \<le> length text"
proof (induction alts ci "text" i and ts ci "text" i and t ci "text" i and a ci "text" i
    arbitrary: e and e and e and e
    rule: ends_alternatives_ends_sequence_ends_term_ends_atom.induct)
  case (5 a mn mx q ci "text" i)
  show ?case
  proof (cases q)
    case True
    have "e \<in> set (repeat_ends (\<lambda>e. ends_atom a ci text e) mn mx i)" using "5.prems"(1) True by simp
    from repeat_ends_inside [OF "5.IH"(1) [OF True] "5.prems"(2) this] show ?thesis .
  next
    case False
    with 5 show ?thesis by simp
  qed
next
  case (4 t ts ci "text" i)
  from "4.prems"(1) obtain y where y: "y \<in> set (ends_term t ci text i)" "e \<in> set (ends_sequence ts ci text y)"
    by auto
  from "4.IH"(1) [OF y(1) "4.prems"(2)] have "y \<le> length text" .
  then show ?case by (rule "4.IH"(2) [OF y])
next
  case (2 terms alts ci "text" i)
  from "2.prems"(1) consider "e \<in> set (ends_sequence terms ci text i)"
    | "e \<in> set (ends_alternatives alts ci text i)" by auto
  then show ?case using "2.IH" "2.prems"(2) by cases blast+
next
  case (7 alts ci "text" i)
  from "7.IH" [of e] "7.prems" show ?case by simp
qed (auto split: if_splits)

section \<open>First sets\<close>

lemma length_union_set [simp]: "length (union_set cs into) = 128"
  by (simp add: union_set_def)

lemma in_union_set: "in_set (union_set cs into) u \<longleftrightarrow> in_set cs u \<or> in_set into u"
  by (auto simp: in_set_def union_set_def)

lemma first_mono:
  "in_set into u \<Longrightarrow> in_set (fst (firstSet alts ci into)) u"
  "in_set into u \<Longrightarrow> in_set (fst (first_of_sequence ts ci into)) u"
  "in_set into u \<Longrightarrow> in_set (fst (first_of_atom t ci into)) u"
  by (induction alts ci into and ts ci into and t ci into
      rule: firstSet_first_of_sequence_first_of_atom.induct)
    (auto simp: in_union_set split: prod.splits)

lemma repeat_ends_first:
  assumes "\<And>j e. e \<in> set (m j) \<Longrightarrow> (j < e \<and> Q j) \<or> (e = j \<and> nl)"
  shows "e \<in> set (repeat_ends m mn mx i) \<Longrightarrow> (i < e \<and> Q i) \<or> (e = i \<and> (nl \<or> mn = 0 \<or> mx = 0))"
proof (induction mx arbitrary: mn i)
  case (Suc mx)
  from Suc.prems show ?case
  proof (cases rule: repeat_ends_SucE)
    case (iterate y)
    from assms [OF iterate(1)] Suc.IH [OF iterate(2)] show ?thesis
      by (cases "y = i") (use iterate(3) in auto)
  qed auto
qed simp

lemma first_sound:
  "wf_alternatives alts \<Longrightarrow> e \<in> set (ends_alternatives alts ci text i) \<Longrightarrow>
     (i < e \<and> i < length text \<and> in_set (fst (firstSet alts ci into)) (text ! i)) \<or>
     (e = i \<and> snd (firstSet alts ci into))"
  "wf_terms ts \<Longrightarrow> e \<in> set (ends_sequence ts ci text i) \<Longrightarrow>
     (i < e \<and> i < length text \<and> in_set (fst (first_of_sequence ts ci into)) (text ! i)) \<or>
     (e = i \<and> snd (first_of_sequence ts ci into))"
  "wf_term t \<Longrightarrow> e \<in> set (ends_term t ci text i) \<Longrightarrow>
     (i < e \<and> i < length text \<and> in_set (fst (first_of_atom t ci into)) (text ! i)) \<or>
     (e = i \<and> (snd (first_of_atom t ci into) \<or> pt_min t = 0))"
proof (induction alts ci into and ts ci into and t ci into arbitrary: e i and e i and e i
    rule: firstSet_first_of_sequence_first_of_atom.induct)
  case (2 terms alts ci into)
  obtain S1 n1 where f1: "first_of_sequence terms ci into = (S1, n1)" by (cases "first_of_sequence terms ci into")
  obtain S2 n2 where f2: "firstSet alts ci S1 = (S2, n2)" by (cases "firstSet alts ci S1")
  note ih1 = "2.IH"(1) [of e i, unfolded f1] and ih2 = "2.IH"(2) [of S1 n1 e i, OF f1 [symmetric], unfolded f2]
  from "2.prems" ih1 ih2 first_mono(1) [of S1 "text ! i" alts ci] show ?case
    by (auto simp: f1 f2)
next
  case (4 t ts ci into)
  obtain S1 n1 where f1: "first_of_atom t ci into = (S1, n1)" by (cases "first_of_atom t ci into")
  from "4.prems" obtain y where y: "y \<in> set (ends_term t ci text i)" "e \<in> set (ends_sequence ts ci text y)"
    and wf: "wf_term t" "wf_terms ts" by auto
  have iy: "i \<le> y" and ye: "y \<le> e" using ends_bounds(3) [OF wf(1) y(1)] ends_bounds(2) [OF wf(2) y(2)] by auto
  note ih1 = "4.IH"(1) [OF wf(1) y(1), unfolded f1]
  show ?case
  proof (cases "n1 \<or> pt_min t = 0")
    case False
    with ih1 f1 ye show ?thesis by auto
  next
    case True
    then have nn: "\<not> \<not> (n1 \<or> pt_min t = 0)" by simp
    note ih2 = "4.IH"(2) [OF f1 [symmetric] nn wf(2) y(2)]
    from ih1 ih2 True ye first_mono(2) [of S1 "text ! i" ts ci] show ?thesis
      by (cases "y = i") (auto simp: f1)
  qed
next
  case (5 codes literal source mn mx q ci into)
  then have wf: "list_all (\<lambda>c. c < 128) codes" "q \<or> mn = 1 \<and> mx = 1" "1 \<le> mx" by auto
  let ?Q = "\<lambda>i. i < length text \<and> in_set (union_set (charSet codes ci) into) (text ! i)"
  have a: "(j < e \<and> ?Q j) \<or> (e = j \<and> False)"
    if "e \<in> set (ends_atom (CharAtom codes literal source) ci text j)" for j e
    using that by (auto simp: in_union_set in_set_charSet [OF wf(1)] split: if_splits)
  from "5.prems"(2) wf repeat_ends_first [OF a, where e = e and mn = mn and mx = mx and i = i] a [of e i] show ?case
    by (cases q) (auto simp del: ends_atom.simps)
next
  case (6 alts mn mx q ci into)
  then have wf: "wf_alternatives alts" "q \<or> mn = 1 \<and> mx = 1" "1 \<le> mx" by auto
  let ?Q = "\<lambda>i. i < length text \<and> in_set (fst (firstSet alts ci into)) (text ! i)"
  have a: "(j < e \<and> ?Q j) \<or> (e = j \<and> snd (firstSet alts ci into))"
    if "e \<in> set (ends_atom (GroupAtom alts) ci text j)" for j e
    using "6.IH" [OF wf(1), of e j] that by simp
  from "6.prems"(2) wf repeat_ends_first [OF a, where e = e and mn = mn and mx = mx and i = i] a [of e i] show ?case
    by (cases q) (auto simp del: ends_atom.simps)
qed auto


section \<open>An attempt at a position\<close>

definition attempt_cost :: "safe_pattern \<Rightarrow> int" where
  "attempt_cost p = 1 + node_cost (sp_program p) 0"

lemma ecma_match_first_some:
  "ecma_match p text start =
     first_some Some (ends_alternatives (sp_alternatives p) (sp_caseInsensitive p) text start)"
  by (simp add: ecma_match_def first_some_hd split: list.splits)

lemma ecma_match_Some:
  assumes "validatePattern source hasContext ci = Inr p" and "ecma_match p text start = Some e"
  shows "e \<in> set (ends_alternatives (sp_alternatives p) ci text start)"
    and "start + minimumLength (sp_alternatives p) \<le> e" and "e \<le> start + sp_maxLength p"
    and "start < length text" and "in_set (sp_first p) (text ! start)" and "e \<le> length text"
proof -
  from assms(1) show mem: "e \<in> set (ends_alternatives (sp_alternatives p) ci text start)"
    by (rule validatePattern_Inr) (use assms(2) in \<open>auto simp: ecma_match_def split: list.splits\<close>)
  from assms(1) show "start + minimumLength (sp_alternatives p) \<le> e" and "e \<le> start + sp_maxLength p"
    by (rule validatePattern_Inr; use ends_bounds(1) mem in auto)+
  from assms(1) have "start < e"
    by (rule validatePattern_Inr) (use ends_bounds(1) [OF _ mem] in \<open>auto simp: MIN_MATCH_LENGTH_def\<close>)
  moreover from assms(1) have "(start < e \<and> start < length text \<and>
      in_set (fst (firstSet (sp_alternatives p) ci (replicate 128 False))) (text ! start)) \<or> e = start"
    by (rule validatePattern_Inr) (use first_sound(1) [OF _ mem] in blast)
  ultimately show "start < length text" "in_set (sp_first p) (text ! start)"
    using assms(1) by (auto simp: sp_first_def elim!: validatePattern_Inr)
  with ends_inside(1) [OF mem] show "e \<le> length text" by simp
qed

lemma matchAt_computes:
  assumes "validatePattern source hasContext ci = Inr p"
  shows "computes (matchAt p text start) (ecma_match p text start) (attempt_cost p)"
proof -
  have wf: "wf_alternatives (sp_alternatives p)" and ci: "sp_caseInsensitive p = ci"
    using assms by (auto elim: validatePattern_Inr)
  have "computes (try_all (run_alternatives (compile_alternatives (sp_alternatives p) ci) text start
        (\<lambda>e. m_return (Some e))) (m_return None))
      (case first_some Some (ends_alternatives (sp_alternatives p) ci text start) of Some e \<Rightarrow> Some e | None \<Rightarrow> None)
      (alternatives_cost (compile_alternatives (sp_alternatives p) ci) 0 + 0)"
    by (rule computes_run(1) [OF wf]) (rule computes_return)+
  moreover have "(case first_some Some (ends_alternatives (sp_alternatives p) ci text start) of Some e \<Rightarrow> Some e | None \<Rightarrow> None)
      = ecma_match p text start"
    by (simp add: ecma_match_first_some ci split: option.splits)
  ultimately have r: "computes (try_all (run_alternatives (compile_alternatives (sp_alternatives p) ci) text start
        (\<lambda>e. m_return (Some e))) (m_return None)) (ecma_match p text start)
      (alternatives_cost (compile_alternatives (sp_alternatives p) ci) 0 + 0)" by simp
  have prog: "computes (run [sp_program p] text start (\<lambda>e. m_return (Some e))) (ecma_match p text start)
      (node_cost (sp_program p) 0)"
    using computes_spend_bind [OF _ r, of 1] by (simp add: sp_program_def ci)
  have nn: "0 \<le> node_cost (sp_program p) 0" using computes_nonneg [OF prog] .
  show ?thesis
  proof (cases "length text \<le> start")
    case True
    then have "ecma_match p text start = None"
      using ecma_match_Some(4) [OF assms, of "text" start] by (cases "ecma_match p text start") auto
    with True show ?thesis
      using nn by (auto simp: matchAt_def attempt_cost_def intro: computes_mono [OF computes_return])
  next
    case False
    have "computes (if \<not> in_set (sp_first p) (text ! start) then m_return None
        else run [sp_program p] text start (\<lambda>e. m_return (Some e))) (ecma_match p text start) (node_cost (sp_program p) 0)"
    proof (cases "in_set (sp_first p) (text ! start)")
      case True
      with prog show ?thesis by simp
    next
      case no: False
      then have "ecma_match p text start = None"
        using ecma_match_Some(5) [OF assms, of "text" start] by (cases "ecma_match p text start") auto
      with no nn show ?thesis by (auto intro: computes_mono [OF computes_return])
    qed
    from computes_spend_bind [OF _ this, of 1] False show ?thesis
      by (simp add: matchAt_def attempt_cost_def)
  qed
qed

section \<open>The anchor\<close>

text \<open>The run of literals \<open>findAnchor\<close> picks.\<close>

definition literal_run :: "pterm list \<Rightarrow> nat \<times> nat \<Rightarrow> bool" where
  "literal_run terms = (\<lambda>(s, l). MIN_ANCHOR_LENGTH \<le> l \<and> s + l \<le> length terms \<and>
     list_all anchor_literal (sublist_at terms s (s + l)))"

lemma anchor_loop_run:
  "anchor_loop terms index best = Some r \<Longrightarrow> pred_option (literal_run terms) best \<Longrightarrow> literal_run terms r"
proof (induction terms index best rule: anchor_loop.induct)
  case (1 terms index best)
  show ?case
  proof (cases "length terms \<le> index")
    case True
    with "1.prems" show ?thesis by (subst (asm) anchor_loop.simps) simp
  next
    case False
    define len where "len = length (takeWhile anchor_literal (drop index terms))"
    define best' where "best' = (if MIN_ANCHOR_LENGTH \<le> len \<and> (case best of None \<Rightarrow> 0 | Some (_, l) \<Rightarrow> l) < len
                    then Some (index, len) else best)"
    have "len \<le> length (drop index terms)"
      unfolding len_def by (rule length_takeWhile_le)
    moreover have "list_all anchor_literal (sublist_at terms index (index + len))"
      by (auto simp: sublist_at_def len_def takeWhile_eq_take [symmetric] list_all_iff dest: set_takeWhileD)
    ultimately have "pred_option (literal_run terms) best'"
      using "1.prems"(2) False by (auto simp: best'_def literal_run_def)
    moreover have "anchor_loop terms (index + max 1 len) best' = Some r"
      using "1.prems"(1) by (subst (asm) anchor_loop.simps) (simp only: Let_def False if_False len_def best'_def)
    ultimately show ?thesis
      using "1.IH" [OF False len_def best'_def] by simp
  qed
qed

lemma concat_map_concat: "concat (map f (concat (map g xs))) = concat (map (\<lambda>x. concat (map f (g x))) xs)"
  by (induction xs) simp_all

lemma ends_sequence_append:
  "ends_sequence (xs @ ys) ci text i = concat (map (\<lambda>e. ends_sequence ys ci text e) (ends_sequence xs ci text i))"
proof (induction xs arbitrary: i)
  case (Cons t xs)
  have "ends_sequence (xs @ ys) ci text
      = (\<lambda>i. concat (map (\<lambda>e. ends_sequence ys ci text e) (ends_sequence xs ci text i)))"
    by (rule ext) (rule Cons)
  then show ?case by (simp add: concat_map_concat)
qed simp

text \<open>A run of literals matches its text and nothing else.\<close>

lemma literal_sequence:
  assumes "list_all anchor_literal ts" and "wf_terms ts" and "e \<in> set (ends_sequence ts ci text i)"
  shows "e = i + length ts \<and> e \<le> max i (length text) \<and>
    (\<forall>k < length ts. char_matches [term_code (ts ! k)] ci (text ! (i + k)))"
  using assms
proof (induction ts arbitrary: i)
  case (Cons t ts)
  obtain codes source mn mx where t: "t = PTerm (CharAtom codes True source) mn mx False"
    using Cons.prems(1) by (cases t rule: anchor_literal.cases) auto
  with Cons.prems(2) obtain c where c: "codes = [c]" by (cases codes) auto
  from Cons.prems(3) have here: "i < length text" "char_matches [c] ci (text ! i)"
    and rest: "e \<in> set (ends_sequence ts ci text (i + 1))"
    by (auto simp: t c split: if_splits)
  have ih: "e = i + 1 + length ts \<and> e \<le> max (i + 1) (length text) \<and>
    (\<forall>k < length ts. char_matches [term_code (ts ! k)] ci (text ! (i + 1 + k)))"
    using Cons.IH [OF _ _ rest] Cons.prems by simp
  have "char_matches [term_code ((t # ts) ! k)] ci (text ! (i + k))" if "k < length (t # ts)" for k
    using ih here that by (cases k) (auto simp: t c)
  with ih here(1) show ?case by auto
qed simp

lemma wf_terms_append [simp]: "wf_terms (xs @ ys) \<longleftrightarrow> wf_terms xs \<and> wf_terms ys"
  by (induction xs) auto

lemma findAnchor_in_match:
  assumes wf: "wf_alternatives alts" and a: "findAnchor alts ci = Some a"
    and e: "e \<in> set (ends_alternatives alts ci text i)"
  shows "\<exists>off. an_offsetMin a \<le> off \<and> off \<le> an_offsetMax a \<and> i + off + length (an_text a) \<le> e \<and>
    starts_at (if ci then asciiLower text else text) (an_text a) (i + off)"
proof -
  from a obtain terms start len where alts: "alts = [terms]" and run: "anchor_loop terms 0 None = Some (start, len)"
    and text': "an_text a = (let l = map term_code (sublist_at terms start (start + len)) in if ci then asciiLower l else l)"
    and off: "an_offsetMin a = min_sequence (take start terms)" "an_offsetMax a = max_sequence (take start terms)"
    by (auto simp: findAnchor_def Let_def split: list.splits option.splits if_splits)
  define lits rest where "lits = sublist_at terms start (start + len)" and "rest = drop (start + len) terms"
  have r: "start + len \<le> length terms" "list_all anchor_literal lits" "length lits = len"
    using anchor_loop_run [OF run] by (auto simp: literal_run_def lits_def)
  have split: "terms = take start terms @ lits @ rest"
    by (simp add: lits_def rest_def sublist_at_def)
      (metis add.commute append_take_drop_id drop_drop)
  from wf alts have "wf_terms (take start terms @ lits @ rest)" using split by simp
  then have wfs: "wf_terms (take start terms)" "wf_terms lits" "wf_terms rest" by simp_all
  from e alts have "e \<in> set (ends_sequence (take start terms @ lits @ rest) ci text i)" using split by simp
  then obtain y z where y: "y \<in> set (ends_sequence (take start terms) ci text i)"
    and z: "z \<in> set (ends_sequence lits ci text y)" and e': "e \<in> set (ends_sequence rest ci text z)"
    by (auto simp: ends_sequence_append)
  note yb = ends_bounds(2) [OF wfs(1) y]
  note lb = literal_sequence [OF r(2) wfs(2) z]
  have ze: "z \<le> e" using ends_bounds(2) [OF wfs(3) e'] by simp
  have pos: "0 < len" using anchor_loop_run [OF run] by (auto simp: literal_run_def MIN_ANCHOR_LENGTH_def)
  let ?t = "if ci then asciiLower text else text"
  have zl: "z = y + len" "y + len \<le> length text" using lb pos r(3) by (auto simp: max_def split: if_splits)
  have at': "starts_at ?t (an_text a) y"
  proof (rule starts_atI)
    show "y + length (an_text a) \<le> length ?t" using zl(2) r(3)
      by (simp add: text' Let_def asciiLower_def lits_def [symmetric])
    fix k assume "k < length (an_text a)"
    then have k: "k < len" using r(3) by (simp add: text' Let_def asciiLower_def lits_def [symmetric] split: if_splits)
    then have "char_matches [term_code (lits ! k)] ci (text ! (y + k))" using lb r(3) by simp
    moreover have "y + k < length text" using zl(2) k by simp
    ultimately show "?t ! (y + k) = an_text a ! k"
      using k r(3) by (auto simp: text' Let_def asciiLower_def char_matches_def lits_def [symmetric])
  qed
  have "length (an_text a) = len"
    using r(3) by (simp add: text' Let_def asciiLower_def lits_def [symmetric])
  then show ?thesis
    using yb zl(1) ze at' by (intro exI [of _ "y - i"]) (auto simp: off)
qed


section \<open>A sample pattern\<close>

definition sample_pattern :: safe_pattern where
  "sample_pattern =
     \<lparr>sp_alternatives = [[PTerm (CharAtom [107] True [107]) 1 1 False,
          PTerm (CharAtom [101] True [101]) 1 1 False, PTerm (CharAtom [121] True [121]) 1 1 False,
          PTerm (CharAtom DIGITS False [91, 48, 45, 57, 93]) 1 2 True]],
      sp_caseInsensitive = True,
      sp_anchor = Some \<lparr>an_text = [107, 101, 121], an_offsetMin = 0, an_offsetMax = 0\<rparr>,
      sp_maxLength = 5\<rparr>"

lemmas parser_numerals =
  p_alternatives.simps(2) [where n = "pred_numeral k" for k, folded numeral_eq_Suc]
  p_sequence.simps(2) [where n = "pred_numeral k" for k, folded numeral_eq_Suc]
  p_terms.simps(2) [where n = "pred_numeral k" for k, folded numeral_eq_Suc]
  p_term.simps(2) [where n = "pred_numeral k" for k, folded numeral_eq_Suc]
  p_atom.simps(2) [where n = "pred_numeral k" for k, folded numeral_eq_Suc]
  p_group.simps(2) [where n = "pred_numeral k" for k, folded numeral_eq_Suc]
  count_while.simps(3) [where n = "pred_numeral k" for k, folded numeral_eq_Suc]

lemma validate_sample: "validatePattern (js ''key'' @ [92, 100] @ js ''{1,2}'') False True = Inr sample_pattern"
  by (simp add: validatePattern_def parse_pattern_def parser_numerals js_def p_peek_def unit_at_def
     sample_pattern_def escapeLiteral_def ESCAPABLE_def finish_term_def quantifier_def p_escape_def braces_def
     p_number_def is_digit_def digits_value_def MAX_BOUND_def MIN_MATCH_LENGTH_def MAX_MATCH_LENGTH_def
     MAX_PATTERN_LENGTH_def findAnchor_def anchor_loop.simps MIN_ANCHOR_LENGTH_def asciiLower_def
     ascii_lower_unit_def sublist_at_def Let_def is_high_def is_low_def)


lemma in_set_empty [simp]: "\<not> in_set (replicate 128 False) u"
  by (simp add: in_set_def)

lemma sample_match:
  "matchAt sample_pattern (js ''xKEY42'') 1 (WorkMeter 100 0 None) = (WorkMeter 100 11 None, Inr (Some 6))"
  by (simp add: matchAt_def sample_pattern_def sp_first_def sp_program_def js_def m_bind_def m_spend_def
     m_return_def in_union_set in_set_charSet char_matches_def ascii_lower_unit_def DIGITS_def code_range_def Let_def
     upt_rec parser_numerals numeral_2_eq_2)

lemma sample_ecma: "ecma_match sample_pattern (js ''xKEY42'') 1 = Some 6"
  using computes_result [OF matchAt_computes [OF validate_sample] sample_match] by simp

lemma sample_cost: "attempt_cost sample_pattern = 16"
  by (simp add: attempt_cost_def sample_pattern_def sp_program_def)

section \<open>Properties\<close>

text \<open>The pattern parser always terminates with an answer of the contract: the fuel of the
  model is never exhausted, for any input text.\<close>

theorem validatePattern_total: "validatePattern source hasContext ci \<noteq> Inl OutOfFuel"
proof -
  have "parse_pattern source \<noteq> Inl OutOfFuel"
    unfolding parse_pattern_def
    by (rule and_then_not_fuel) (use parser_fuel(1) [of source] in \<open>auto split: if_splits\<close>)
  then show ?thesis
    by (auto simp: validatePattern_def Let_def and_then_def split: sum.splits)
qed

text \<open>C22: every accepted pattern is within the contract: its tree is well formed (no empty
  branch or class, ASCII only, bounds at most 64, no quantified or branching group repeated
  more than once), its matches have between 3 and 256 characters, and without a context it
  has a literal anchor.\<close>

theorem validatePattern_sound:
  assumes "validatePattern source hasContext ci = Inr p"
  shows "wf_alternatives (sp_alternatives p) \<and> 3 \<le> minimumLength (sp_alternatives p) \<and>
    sp_maxLength p = maximumLength (sp_alternatives p) \<and> sp_maxLength p \<le> 256 \<and>
    sp_anchor p = findAnchor (sp_alternatives p) ci \<and> (\<not> hasContext \<longrightarrow> sp_anchor p \<noteq> None)"
  using assms
  by (rule validatePattern_Inr)
    (use assms in \<open>auto simp: MIN_MATCH_LENGTH_def MAX_MATCH_LENGTH_def validatePattern_def Let_def and_then_Inr
       split: if_splits\<close>)

theorem validatePattern_sound_witness:
  "3 \<le> minimumLength (sp_alternatives sample_pattern) \<and> sp_maxLength sample_pattern \<le> 256"
  using validatePattern_sound [OF validate_sample] by simp

text \<open>C1: an accepted pattern matches exactly as ECMAScript's leftmost-first backtracking does:
  whenever the metered matcher returns, it returns the end of the first match in priority
  order, or no match when there is none; and when it throws, less than the pattern's static
  cost was left.\<close>

theorem matchAt_is_ecmascript:
  assumes "validatePattern source hasContext ci = Inr p"
  shows "(matchAt p text start m = (m', Inr r) \<longrightarrow> r = ecma_match p text start) \<and>
    (matchAt p text start m = (m', Inl e) \<longrightarrow> e = WorkBudgetExceeded \<and> remaining m < attempt_cost p)"
  using computes_result [OF matchAt_computes [OF assms]] computes_throws [OF matchAt_computes [OF assms]]
  by (intro conjI impI) simp_all

theorem matchAt_is_ecmascript_witness:
  "ecma_match sample_pattern (js ''xKEY42'') 1 = Some 6"
  using matchAt_is_ecmascript [OF validate_sample, of "js ''xKEY42''" 1 "WorkMeter 100 0 None"] sample_match
  by simp

text \<open>C15: an attempt always ends: with the pattern's static cost left, the matcher returns and
  spends at most that cost, whatever the text.\<close>

theorem matchAt_terminates:
  assumes "validatePattern source hasContext ci = Inr p" and "attempt_cost p \<le> remaining m"
  shows "\<exists>m'. matchAt p text start m = (m', Inr (ecma_match p text start)) \<and>
    remaining m - attempt_cost p \<le> remaining m'"
  using computes_enough [OF matchAt_computes [OF assms(1)] assms(2)] by metis

theorem matchAt_terminates_witness:
  "\<exists>m'. matchAt sample_pattern (js ''key'') 0 (WorkMeter 16 0 None)
      = (m', Inr (ecma_match sample_pattern (js ''key'') 0)) \<and> 0 \<le> remaining m'"
  using matchAt_terminates [OF validate_sample, of "WorkMeter 16 0 None" "js ''key''" 0] sample_cost by simp

text \<open>C16: every match has the anchor's literal text at a distance from its start within the
  anchor's bounds, inside the match, up to ASCII case when the pattern ignores it: the
  scanner loses no match by looking only around occurrences of the anchor.\<close>

theorem anchor_in_every_match:
  assumes "validatePattern source hasContext ci = Inr p" and "sp_anchor p = Some a"
    and "ecma_match p text start = Some e"
  shows "\<exists>off. an_offsetMin a \<le> off \<and> off \<le> an_offsetMax a \<and> start + off + length (an_text a) \<le> e \<and>
    starts_at (if ci then asciiLower text else text) (an_text a) (start + off)"
  using validatePattern_sound [OF assms(1)]
  by (intro findAnchor_in_match) (use assms(2) ecma_match_Some(1) [OF assms(1,3)] in auto)

theorem anchor_in_every_match_witness:
  "\<exists>off. 0 \<le> off \<and> off \<le> 0 \<and> 1 + off + 3 \<le> (6 :: nat) \<and>
    starts_at (asciiLower (js ''xKEY42'')) [107, 101, 121] (1 + off)"
  using anchor_in_every_match [OF validate_sample _ sample_ecma, of "\<lparr>an_text = [107, 101, 121], an_offsetMin = 0, an_offsetMax = 0\<rparr>"]
  by (simp add: sample_pattern_def)

text \<open>A match lies inside the text, has between 3 and 256 code units, and starts with a
  unit of the pattern's first set.\<close>

theorem match_bounds:
  assumes "validatePattern source hasContext ci = Inr p" and "ecma_match p text start = Some e"
  shows "start + 3 \<le> e \<and> e \<le> start + 256 \<and> e \<le> length text \<and> in_set (sp_first p) (text ! start)"
  using assms(1)
  by (rule validatePattern_Inr)
    (use ecma_match_Some [OF assms] in \<open>auto simp: MIN_MATCH_LENGTH_def MAX_MATCH_LENGTH_def\<close>)

theorem match_bounds_witness: "in_set (sp_first sample_pattern) (js ''xKEY42'' ! 1) \<and> (6 :: nat) \<le> length (js ''xKEY42'')"
  using match_bounds [OF validate_sample sample_ecma] by simp


end
