(* ===== verification/Unicode.thy ===== *)
theory Unicode
  imports Js_String
begin

text \<open>
  The Unicode data of the JavaScript engine the program calls: character properties of the
  regular expressions with the \<open>u\<close> flag, \<open>String.prototype.normalize\<close> and
  \<open>toLowerCase\<close>. The tables are not in the repository, so they are a parameter of every
  definition that uses them; the functions on code points take the value \<open>codePointAt\<close>
  gives (a lone surrogate is its own code point).
\<close>

record unicode =
  uc_word :: "nat \<Rightarrow> bool"
  uc_mark :: "nat \<Rightarrow> bool"
  uc_ignorable :: "nat \<Rightarrow> bool"
  uc_format :: "nat \<Rightarrow> bool"
  uc_pictographic :: "nat \<Rightarrow> bool"
  uc_letter :: "nat \<Rightarrow> bool"
  uc_variation :: "nat \<Rightarrow> bool"
  uc_nfkc :: "ustring \<Rightarrow> ustring"
  uc_nfkd :: "ustring \<Rightarrow> ustring"
  uc_lower :: "ustring \<Rightarrow> ustring"

text \<open>A concrete instance for evaluation: ASCII letters and digits are word characters, no
  other property holds and normalisation is the identity on ASCII.\<close>

definition ascii_unicode :: unicode where
  "ascii_unicode =
     \<lparr>uc_word = (\<lambda>c. (48 \<le> c \<and> c \<le> 57) \<or> (65 \<le> c \<and> c \<le> 90) \<or> (97 \<le> c \<and> c \<le> 122)),
      uc_mark = (\<lambda>_. False), uc_ignorable = (\<lambda>_. False), uc_format = (\<lambda>_. False),
      uc_pictographic = (\<lambda>_. False),
      uc_letter = (\<lambda>c. (65 \<le> c \<and> c \<le> 90) \<or> (97 \<le> c \<and> c \<le> 122)),
      uc_variation = (\<lambda>_. False), uc_nfkc = (\<lambda>s. s), uc_nfkd = (\<lambda>s. s),
      uc_lower = map (\<lambda>c. if 65 \<le> c \<and> c \<le> 90 then c + 32 else c)\<rparr>"

text \<open>The matches of \<open>/[...]+/gu\<close>: maximal runs of characters that satisfy a predicate, with
  their offsets.\<close>

function runs_of :: "(ustring \<Rightarrow> bool) \<Rightarrow> nat \<Rightarrow> ustring list \<Rightarrow> (nat \<times> ustring) list" where
  "runs_of p position cs =
     (let skipped = takeWhile (\<lambda>c. \<not> p c) cs; rest = dropWhile (\<lambda>c. \<not> p c) cs
      in if rest = [] then []
         else let w = concat (takeWhile p rest); start = position + length (concat skipped)
              in (start, w) # runs_of p (start + length w) (dropWhile p rest))"
  by pat_completeness auto
termination
proof (relation "measure (\<lambda>(_, _, cs). length cs)", simp, goal_cases)
  case (1 p position cs)
  define rest where "rest = dropWhile (\<lambda>c. \<not> p c) cs"
  have "rest \<noteq> []" using 1 by (simp add: rest_def)
  then have "p (hd rest)" using hd_dropWhile [of "\<lambda>c. \<not> p c" cs] by (auto simp: rest_def)
  then have "dropWhile p rest = dropWhile p (tl rest)" using \<open>rest \<noteq> []\<close> by (cases rest) auto
  moreover have "length (dropWhile p (tl rest)) \<le> length (tl rest)" by (rule length_dropWhile_le)
  moreover have "length (tl rest) < length rest" using \<open>rest \<noteq> []\<close> by (cases rest) auto
  moreover have "length rest \<le> length cs" unfolding rest_def by (rule length_dropWhile_le)
  ultimately have "length (dropWhile p rest) < length cs" by (metis le_less_trans less_le_trans)
  then show ?case using 1 by (simp add: rest_def)
qed

declare runs_of.simps [simp del]

end
