(* ===== verification/Sha256.thy ===== *)
theory Sha256
  imports Prelude "HOL-Library.Word"
begin

unbundle bit_operations_syntax

text \<open>
  The synchronous SHA-256 of \<open>core/src/sha256.ts\<close>. The \<open>Int32Array\<close>/\<open>Uint32Array\<close>
  values are 32-bit words (the \<open>| 0\<close> coercions and the \<open>>>>\<close> reads are the same bits),
  the byte arrays lists of 8-bit words. An instance keeps its 128-byte block buffer between
  calls. The second half states FIPS 180-4 independently (padding, message schedule as a
  recursion on the round number, rotations) and proves that \<open>digest\<close> computes it whatever
  an earlier call left in the buffer.
\<close>

text \<open>The tables of the source, written in decimal.\<close>

definition sha_K :: "32 word list" where
  "sha_K = [
  1116352408, 1899447441, 3049323471, 3921009573, 961987163, 1508970993,
  2453635748, 2870763221, 3624381080, 310598401, 607225278, 1426881987,
  1925078388, 2162078206, 2614888103, 3248222580, 3835390401, 4022224774,
  264347078, 604807628, 770255983, 1249150122, 1555081692, 1996064986,
  2554220882, 2821834349, 2952996808, 3210313671, 3336571891, 3584528711,
  113926993, 338241895, 666307205, 773529912, 1294757372, 1396182291,
  1695183700, 1986661051, 2177026350, 2456956037, 2730485921, 2820302411,
  3259730800, 3345764771, 3516065817, 3600352804, 4094571909, 275423344,
  430227734, 506948616, 659060556, 883997877, 958139571, 1322822218,
  1537002063, 1747873779, 1955562222, 2024104815, 2227730452, 2361852424,
  2428436474, 2756734187, 3204031479, 3329325298]"

definition sha_INITIAL :: "32 word list" where
  "sha_INITIAL = [
  1779033703, 3144134277, 1013904242, 2773480762, 1359893119, 2600822924,
  528734635, 1541459225]"

lemma length_sha_K [simp]: "length sha_K = 64"
  by (simp add: sha_K_def)

record sha256 =
  sha_state :: "32 word list"
  sha_block :: "8 word list"

definition new_sha256 :: sha256 where
  "new_sha256 = \<lparr>sha_state = replicate 8 0, sha_block = replicate 128 0\<rparr>"

section \<open>The compression function\<close>

text \<open>A typed-array read out of range is \<open>undefined\<close>, which the shift reads as 0.\<close>

definition byte_at :: "8 word list \<Rightarrow> nat \<Rightarrow> 32 word" where
  "byte_at bytes i = (if i < length bytes then ucast (bytes ! i) else 0)"

definition load_word :: "8 word list \<Rightarrow> nat \<Rightarrow> 32 word" where
  "load_word bytes at =
     (push_bit 24 (byte_at bytes at) OR push_bit 16 (byte_at bytes (at + 1))
      OR push_bit 8 (byte_at bytes (at + 2)) OR byte_at bytes (at + 3))"

definition schedule_s0 :: "32 word \<Rightarrow> 32 word" where
  "schedule_s0 x =
     ((drop_bit 7 x OR push_bit 25 x) XOR (drop_bit 18 x OR push_bit 14 x) XOR drop_bit 3 x)"

definition schedule_s1 :: "32 word \<Rightarrow> 32 word" where
  "schedule_s1 y =
     ((drop_bit 17 y OR push_bit 15 y) XOR (drop_bit 19 y OR push_bit 13 y) XOR drop_bit 10 y)"

definition extend_word :: "32 word list \<Rightarrow> nat \<Rightarrow> 32 word" where
  "extend_word w i = w ! (i - 16) + schedule_s0 (w ! (i - 15)) + w ! (i - 7) + schedule_s1 (w ! (i - 2))"

text \<open>\<open>this.words\<close>: the loops overwrite all 64 entries in order, so no entry of an earlier
  call is read; the model appends each new entry.\<close>

definition words_of_block :: "8 word list \<Rightarrow> nat \<Rightarrow> 32 word list" where
  "words_of_block bytes offset =
     foldl (\<lambda>w i. w @ [extend_word w i])
       (map (\<lambda>i. load_word bytes (offset + i * 4)) [0..<16]) [16..<64]"

type_synonym sha_vars =
  "32 word \<times> 32 word \<times> 32 word \<times> 32 word \<times> 32 word \<times> 32 word \<times> 32 word \<times> 32 word"

fun sha_round :: "sha_vars \<Rightarrow> 32 word \<Rightarrow> 32 word \<Rightarrow> sha_vars" where
  "sha_round (a, b, c, d, e, f, g, h) k w =
     (let s1 = (drop_bit 6 e OR push_bit 26 e) XOR (drop_bit 11 e OR push_bit 21 e)
                 XOR (drop_bit 25 e OR push_bit 7 e);
          choice = (e AND f) XOR (NOT e AND g);
          t1 = h + s1 + choice + k + w;
          s0 = (drop_bit 2 a OR push_bit 30 a) XOR (drop_bit 13 a OR push_bit 19 a)
                 XOR (drop_bit 22 a OR push_bit 10 a);
          majority = (a AND b) XOR (a AND c) XOR (b AND c)
      in (t1 + s0 + majority, a, b, c, d + t1, e, f, g))"

fun vars_of :: "32 word list \<Rightarrow> sha_vars" where
  "vars_of [a, b, c, d, e, f, g, h] = (a, b, c, d, e, f, g, h)"
| "vars_of _ = (0, 0, 0, 0, 0, 0, 0, 0)"

fun list_of_vars :: "sha_vars \<Rightarrow> 32 word list" where
  "list_of_vars (a, b, c, d, e, f, g, h) = [a, b, c, d, e, f, g, h]"

definition sha_compress :: "32 word list \<Rightarrow> 8 word list \<Rightarrow> nat \<Rightarrow> 32 word list" where
  "sha_compress state bytes offset =
     (let w = words_of_block bytes offset;
          vars = foldl (\<lambda>v i. sha_round v (sha_K ! i) (w ! i)) (vars_of state) [0..<64]
      in map2 (+) state (list_of_vars vars))"

section \<open>Digest\<close>

text \<open>The \<open>while\<close> loop over whole blocks of the message.\<close>

function digest_blocks :: "32 word list \<Rightarrow> 8 word list \<Rightarrow> nat \<Rightarrow> nat \<Rightarrow> 32 word list \<times> nat" where
  "digest_blocks state message len offset =
     (if 64 \<le> len - offset then digest_blocks (sha_compress state message offset) message len (offset + 64)
      else (state, offset))"
  by pat_completeness auto
termination by (relation "measure (\<lambda>(_, _, len, offset). len - offset)") auto

declare digest_blocks.simps [simp del]

text \<open>\<open>block[i] = ...\<close> for a typed array: a write out of range is ignored.\<close>

definition write_bytes :: "8 word list \<Rightarrow> nat \<Rightarrow> 8 word list \<Rightarrow> 8 word list" where
  "write_bytes block i bytes = foldl (\<lambda>b (k, x). b[i + k := x]) block (enumerate 0 bytes)"

text \<open>\<open>bits >>> n\<close> on a number: reduced to 32 bits first; the array keeps the low byte.\<close>

definition byte_of :: "nat \<Rightarrow> nat \<Rightarrow> 8 word" where
  "byte_of n shift = of_nat ((n mod 2 ^ 32) div 2 ^ shift)"

definition length_bytes :: "nat \<Rightarrow> 8 word list" where
  "length_bytes len =
     (let bits = len * 8; high = bits div 0x100000000 in
      [byte_of high 24, byte_of high 16, byte_of high 8, byte_of high 0,
       byte_of bits 24, byte_of bits 16, byte_of bits 8, byte_of bits 0])"

definition digest :: "sha256 \<Rightarrow> 8 word list \<Rightarrow> nat \<Rightarrow> sha256" where
  "digest s message len =
     (let (state, offset) = digest_blocks sha_INITIAL message len 0;
          rest = len - offset;
          paddedLength = (if rest < 56 then 64 else 128);
          block = write_bytes (sha_block s) 0 (sublist_at message offset len);
          block = write_bytes block rest [0x80];
          block = write_bytes block (rest + 1) (replicate (paddedLength - 8 - (rest + 1)) 0);
          block = write_bytes block (paddedLength - 8) (length_bytes len);
          state = sha_compress state block 0;
          state = (if paddedLength = 128 then sha_compress state block 64 else state)
      in \<lparr>sha_state = state, sha_block = block\<rparr>)"

text \<open>\<open>Sha256.blocks\<close>.\<close>

definition sha_blocks :: "nat \<Rightarrow> nat" where
  "sha_blocks len = (len + 8) div 64 + 1"

definition hex_digit :: "nat \<Rightarrow> nat" where
  "hex_digit d = (if d < 10 then 48 + d else 87 + d)"

definition hex_byte :: "32 word \<Rightarrow> nat list" where
  "hex_byte b = [hex_digit (unat b div 16), hex_digit (unat b mod 16)]"

definition digestHex :: "32 word list \<Rightarrow> nat list" where
  "digestHex words =
     concat (map (\<lambda>i. let word = (if i < length words then words ! i else 0) in
        hex_byte (drop_bit 24 word) @ hex_byte (drop_bit 16 word AND 0xff)
        @ hex_byte (drop_bit 8 word AND 0xff) @ hex_byte (word AND 0xff)) [0..<8])"

definition sha256Hex :: "8 word list \<Rightarrow> nat list" where
  "sha256Hex message = digestHex (sha_state (digest new_sha256 message (length message)))"

section \<open>FIPS 180-4\<close>

lemma rotate_right_32:
  fixes x :: "32 word"
  assumes "0 < n" and "n < 32"
  shows "drop_bit n x OR push_bit (32 - n) x = word_rotr n x"
proof (rule bit_eqI)
  fix k assume k: "possible_bit TYPE(32 word) k"
  then have k': "k < 32" by (simp add: possible_bit_word)
  have r: "bit (word_rotr n x) k = bit x ((k + n) mod 32)"
    using k' by (simp add: bit_word_rotr_iff)
  have l: "bit (drop_bit n x OR push_bit (32 - n) x) k
      = (bit x (n + k) \<or> 32 - n \<le> k \<and> bit x (k - (32 - n)))"
    using k k' by (auto simp: bit_simps)
  have out: "\<not> bit x (n + k)" if "32 \<le> n + k"
    using that bit_imp_le_length [of x "n + k"] by auto
  show "bit (drop_bit n x OR push_bit (32 - n) x) k = bit (word_rotr n x) k"
  proof (cases "k + n < 32")
    case True
    then show ?thesis unfolding r l by (auto simp: add.commute)
  next
    case False
    then have "(k + n) mod 32 = k - (32 - n)" using k' assms by (simp add: mod_if)
    with False out assms show ?thesis unfolding r l by auto
  qed
qed

text \<open>Padding: a one bit, zeros up to 8 bytes before a block boundary, the bit length.\<close>

definition fips_pad :: "8 word list \<Rightarrow> 8 word list" where
  "fips_pad m =
     m @ [0x80] @ replicate ((119 - length m mod 64) mod 64) 0
       @ map (\<lambda>i. of_nat (length m * 8 div 256 ^ (7 - i))) [0..<8]"

definition fips_word :: "8 word list \<Rightarrow> nat \<Rightarrow> 32 word" where
  "fips_word M t =
     push_bit 24 (ucast (M ! (4 * t))) OR push_bit 16 (ucast (M ! (4 * t + 1)))
       OR push_bit 8 (ucast (M ! (4 * t + 2))) OR ucast (M ! (4 * t + 3))"

fun fips_W :: "8 word list \<Rightarrow> nat \<Rightarrow> 32 word" where
  "fips_W M t =
     (if t < 16 then fips_word M t
      else (let x = fips_W M (t - 2); y = fips_W M (t - 15) in
        (word_rotr 17 x XOR word_rotr 19 x XOR drop_bit 10 x) + fips_W M (t - 7)
        + (word_rotr 7 y XOR word_rotr 18 y XOR drop_bit 3 y) + fips_W M (t - 16)))"

declare fips_W.simps [simp del]

fun fips_round :: "sha_vars \<Rightarrow> 32 word \<times> 32 word \<Rightarrow> sha_vars" where
  "fips_round (a, b, c, d, e, f, g, h) (k, w) =
     (let T1 = h + (word_rotr 6 e XOR word_rotr 11 e XOR word_rotr 25 e)
                 + ((e AND f) XOR (NOT e AND g)) + k + w;
          T2 = (word_rotr 2 a XOR word_rotr 13 a XOR word_rotr 22 a)
                 + ((a AND b) XOR (a AND c) XOR (b AND c))
      in (T1 + T2, a, b, c, d + T1, e, f, g))"

definition fips_step :: "32 word list \<Rightarrow> 8 word list \<Rightarrow> 32 word list" where
  "fips_step H M =
     map2 (+) H (list_of_vars (foldl fips_round (vars_of H) (zip sha_K (map (fips_W M) [0..<64]))))"

function fips_chunks :: "8 word list \<Rightarrow> 8 word list list" where
  "fips_chunks m = (if length m < 64 then [] else take 64 m # fips_chunks (drop 64 m))"
  by pat_completeness auto
termination by (relation "measure length") auto

declare fips_chunks.simps [simp del]

definition fips_sha256 :: "8 word list \<Rightarrow> 32 word list" where
  "fips_sha256 m = foldl fips_step sha_INITIAL (fips_chunks (fips_pad m))"

lemma load_word_fips:
  assumes "offset + 64 \<le> length bytes" and "t < 16"
  shows "load_word bytes (offset + t * 4) = fips_word (take 64 (drop offset bytes)) t"
  using assms by (simp add: load_word_def fips_word_def byte_at_def add.assoc mult.commute)

lemma words_of_block_prefix:
  assumes "offset + 64 \<le> length bytes" and "n \<le> 48"
  shows "foldl (\<lambda>w i. w @ [extend_word w i])
       (map (\<lambda>i. load_word bytes (offset + i * 4)) [0..<16]) [16..<16 + n]
     = map (fips_W (take 64 (drop offset bytes))) [0..<16 + n]"
  using assms(2)
proof (induction n)
  case 0
  then show ?case
    using load_word_fips [OF assms(1)] by (simp add: fips_W.simps)
next
  case (Suc n)
  let ?M = "take 64 (drop offset bytes)"
  have e: "extend_word (map (fips_W ?M) [0..<16 + n]) (16 + n) = fips_W ?M (16 + n)"
    by (subst fips_W.simps)
      (simp add: extend_word_def schedule_s0_def schedule_s1_def Let_def
         rotate_right_32 [of 7, simplified] rotate_right_32 [of 18, simplified]
         rotate_right_32 [of 17, simplified] rotate_right_32 [of 19, simplified] add_ac)
  from Suc have "foldl (\<lambda>w i. w @ [extend_word w i])
       (map (\<lambda>i. load_word bytes (offset + i * 4)) [0..<16]) [16..<16 + n]
     = map (fips_W ?M) [0..<16 + n]" by simp
  with e show ?case by (simp only: add_Suc_right upt_Suc_append le_add1 foldl_append foldl.simps map_append list.map)
qed

lemma words_of_block_fips:
  assumes "offset + 64 \<le> length bytes"
  shows "words_of_block bytes offset = map (fips_W (take 64 (drop offset bytes))) [0..<64]"
proof -
  have "(16 :: nat) + 48 = 64" by simp
  with words_of_block_prefix [OF assms, of 48] show ?thesis
    by (simp only: words_of_block_def le_refl)
qed

lemma sha_round_fips: "sha_round v k w = fips_round v (k, w)"
  by (cases "(v, k, w)" rule: sha_round.cases) (simp add: Let_def add_ac
         rotate_right_32 [of 6, simplified] rotate_right_32 [of 11, simplified]
         rotate_right_32 [of 25, simplified] rotate_right_32 [of 2, simplified]
         rotate_right_32 [of 13, simplified] rotate_right_32 [of 22, simplified])

lemma foldl_index_zip:
  "length xs = n \<Longrightarrow> length ys = n \<Longrightarrow>
     foldl (\<lambda>v i. f v (xs ! i, ys ! i)) v [0..<n] = foldl f v (zip xs ys)"
proof -
  assume "length xs = n" "length ys = n"
  then have "zip xs ys = map (\<lambda>i. (xs ! i, ys ! i)) [0..<n]"
    by (intro nth_equalityI) auto
  then show ?thesis by (simp add: foldl_map)
qed

lemma sha_compress_fips:
  assumes "offset + 64 \<le> length bytes"
  shows "sha_compress state bytes offset = fips_step state (take 64 (drop offset bytes))"
  unfolding sha_compress_def fips_step_def Let_def words_of_block_fips [OF assms] sha_round_fips
  by (subst foldl_index_zip) auto

lemma digest_blocks_fips:
  assumes "len \<le> length message" and "offset \<le> len"
  shows "digest_blocks state message len offset
     = (foldl fips_step state (fips_chunks (take (64 * ((len - offset) div 64)) (drop offset message))),
        offset + 64 * ((len - offset) div 64))"
  using assms
proof (induction state message len offset rule: digest_blocks.induct)
  case (1 state message len offset)
  show ?case
  proof (cases "64 \<le> len - offset")
    case True
    let ?n = "(len - (offset + 64)) div 64"
    have n: "(len - offset) div 64 = Suc ?n"
    proof -
      obtain r where "len = offset + 64 + r" using True by (metis le_Suc_ex le_diff_conv2 nat_le_linear add.commute "1.prems")
      then show ?thesis by simp
    qed
    have chunks: "fips_chunks (take (64 * Suc ?n) (drop offset message))
        = take 64 (drop offset message) # fips_chunks (take (64 * ?n) (drop (offset + 64) message))"
    proof -
      have "64 * Suc ?n \<le> len - offset"
        using times_div_less_eq_dividend [of 64 "len - offset"] n by simp
      also have "\<dots> \<le> length (drop offset message)"
        using "1.prems" by simp
      finally have "64 * Suc ?n \<le> length (drop offset message)" .
      then show ?thesis
        by (subst fips_chunks.simps) (simp add: drop_take add.commute)
    qed
    have "sha_compress state message offset = fips_step state (take 64 (drop offset message))"
      using True "1.prems" by (intro sha_compress_fips) auto
    with True "1.IH" "1.prems" chunks n show ?thesis
      by (subst digest_blocks.simps) simp
  next
    case False
    then show ?thesis
      by (subst digest_blocks.simps) (simp add: fips_chunks.simps)
  qed
qed

lemma write_bytes_append:
  assumes "length pre = i" and "length old = length bytes"
  shows "write_bytes (pre @ old @ post) i bytes = pre @ bytes @ post"
proof -
  have "foldl (\<lambda>b (k, x). b[i + k := x]) (pre @ old @ post) (enumerate n bytes)
      = pre @ take n old @ bytes @ post" if "length pre = i" "length old = n + length bytes" for old n
    using that
  proof (induction bytes arbitrary: n old)
    case (Cons x bytes)
    have "(pre @ old @ post)[i + n := x] = pre @ (old[n := x]) @ post"
      using Cons.prems by (simp add: list_update_append)
    with Cons.IH [of "old[n := x]" "Suc n"] Cons.prems show ?case
      by (simp add: take_Suc_conv_app_nth)
  qed simp
  from this [of old 0] assms show ?thesis by (simp add: write_bytes_def)
qed


lemma fips_chunks_append:
  "64 dvd length xs \<Longrightarrow> fips_chunks (xs @ ys) = fips_chunks xs @ fips_chunks ys"
proof (induction xs rule: fips_chunks.induct)
  case (1 xs)
  show ?case
  proof (cases "length xs < 64")
    case True
    with "1.prems" have "xs = []" by (metis length_0_conv nat_dvd_not_less neq0_conv)
    then show ?thesis by (simp add: fips_chunks.simps [of "[]"])
  next
    case False
    with 1 have "fips_chunks (drop 64 xs @ ys) = fips_chunks (drop 64 xs) @ fips_chunks ys"
      by (simp add: dvd_minus_self)
    with False show ?thesis
      by (subst (1 2) fips_chunks.simps) simp
  qed
qed

lemma fips_chunks_64: "length xs = 64 \<Longrightarrow> fips_chunks xs = [xs]"
  by (subst fips_chunks.simps) (simp add: fips_chunks.simps)

lemma fips_chunks_128: "length xs = 128 \<Longrightarrow> fips_chunks xs = [take 64 xs, drop 64 xs]"
  by (subst fips_chunks.simps) (simp add: fips_chunks_64)

lemma length_length_bytes [simp]: "length (length_bytes len) = 8"
  by (simp add: length_bytes_def Let_def)

lemma byte_of_div: "shift \<le> 24 \<Longrightarrow> byte_of n shift = of_nat (n div 2 ^ shift)"
proof -
  assume s: "shift \<le> 24"
  have "n mod 2 ^ 32 div 2 ^ shift = (n div 2 ^ shift) mod 2 ^ (32 - shift)"
    using s by (simp add: div_exp_mod_exp_eq)
  moreover have "(n div 2 ^ shift) mod 2 ^ (32 - shift) mod 2 ^ 8 = (n div 2 ^ shift) mod 2 ^ 8"
    by (rule mod_mod_cancel, rule le_imp_power_dvd) (use s in simp)
  ultimately show ?thesis
    by (simp add: byte_of_def word_of_nat_eq_iff take_bit_eq_mod)
qed

lemma length_bytes_fips:
  "length_bytes len = map (\<lambda>i. of_nat (len * 8 div 256 ^ (7 - i))) [0..<8]"
proof -
  have "length_bytes len = map of_nat
     [len * 8 div 2 ^ (32 + 24), len * 8 div 2 ^ (32 + 16), len * 8 div 2 ^ (32 + 8), len * 8 div 2 ^ (32 + 0),
      len * 8 div 2 ^ 24, len * 8 div 2 ^ 16, len * 8 div 2 ^ 8, len * 8 div 2 ^ 0]"
    by (simp add: length_bytes_def byte_of_div Let_def flip: div_mult2_eq)
  also have "\<dots> = map of_nat (map (\<lambda>i. len * 8 div 256 ^ (7 - i)) [0..<8])"
    by (simp add: upt_rec)
  finally show ?thesis by (simp add: comp_def)
qed

lemma foldl_digest_tail:
  assumes "length tail = 64 \<or> length tail = 128" and "64 dvd length pre"
  shows "foldl fips_step st (fips_chunks (pre @ tail)) =
     (let s1 = fips_step (foldl fips_step st (fips_chunks pre)) (take 64 tail)
      in if length tail = 128 then fips_step s1 (drop 64 tail) else s1)"
  using assms by (auto simp: fips_chunks_append fips_chunks_64 fips_chunks_128 Let_def)


lemma write_bytes_take:
  assumes "i + length bytes \<le> length block"
  shows "write_bytes block i bytes = take i block @ bytes @ drop (i + length bytes) block"
proof -
  have "block = take i block @ take (length bytes) (drop i block) @ drop (i + length bytes) block"
    by (metis add.commute append_take_drop_id drop_drop)
  then have "write_bytes block i bytes = write_bytes
      (take i block @ take (length bytes) (drop i block) @ drop (i + length bytes) block) i bytes"
    by simp
  also have "\<dots> = take i block @ bytes @ drop (i + length bytes) block"
    using assms by (intro write_bytes_append) auto
  finally show ?thesis .
qed

text \<open>The four writes of \<open>digest\<close> fill the block from the left; the stale bytes are left only
  behind the padded length.\<close>

lemma digest_block:
  assumes "length block = 128" and "length body = r" and "r + 9 \<le> P" and "P \<le> 128"
  shows "write_bytes (write_bytes (write_bytes (write_bytes block 0 body) r [0x80]) (r + 1)
             (replicate (P - 8 - (r + 1)) 0)) (P - 8) (length_bytes len)
       = (body @ [0x80] @ replicate (P - 8 - (r + 1)) 0 @ length_bytes len) @ drop P block"
proof -
  from assms(3) obtain k where "P = r + 9 + k" by (metis le_Suc_ex)
  with assms show ?thesis by (simp add: write_bytes_take drop_Cons' add_ac)
qed

lemma mod_gap:
  assumes "rest < (64 :: nat)"
  shows "(119 - rest) mod 64 = (if rest < 56 then 55 - rest else 119 - rest)"
proof (cases "rest < 56")
  case True
  then have "119 - rest = (55 - rest) + 64" by simp
  then have "(119 - rest) mod 64 = (55 - rest) mod 64" by (simp only: mod_add_self2)
  with True show ?thesis by simp
next
  case False
  with assms show ?thesis by simp
qed

lemma digest_final:
  assumes len: "len \<le> length message" and block: "length (sha_block s) = 128"
  shows "sha_state (digest s message len) = fips_sha256 (take len message)"
    and "length (sha_block (digest s message len)) = 128"
proof -
  define q where "q = len div 64"
  define m where "m = take len message"
  define rest where "rest = len - 64 * q"
  define P where "P = (if rest < 56 then 64 else 128 :: nat)"
  define tail where "tail = drop (64 * q) m @ [0x80] @ replicate (P - 8 - (rest + 1)) 0 @ length_bytes len"
  have rest: "rest < 64" "rest = len mod 64"
    by (simp_all add: rest_def q_def minus_mult_div_eq_mod)
  have lm: "length m = len" using len by (simp add: m_def)
  have le: "64 * q \<le> len" by (simp add: q_def)
  have P: "rest + 9 \<le> P" "P \<le> 128" "P = 64 \<or> P = 128" using rest(1) by (auto simp: P_def)
  have tail_len: "length tail = P"
    using P le by (simp add: tail_def lm rest_def)
  have body: "sublist_at message (64 * q) len = drop (64 * q) m"
    by (simp add: sublist_at_def m_def drop_take)
  have blocks: "digest_blocks sha_INITIAL message len 0
      = (foldl fips_step sha_INITIAL (fips_chunks (take (64 * q) m)), 64 * q)"
    using digest_blocks_fips [OF len, of 0] le by (simp add: q_def m_def min_absorb1)
  have filled: "write_bytes (write_bytes (write_bytes (write_bytes (sha_block s) 0 (drop (64 * q) m)) rest
      [0x80]) (rest + 1) (replicate (P - 8 - (rest + 1)) 0)) (P - 8) (length_bytes len)
      = tail @ drop P (sha_block s)"
    unfolding tail_def by (rule digest_block [OF block _ P(1,2)]) (simp add: lm rest_def)
  have written: "digest s message len = 
     (let st = foldl fips_step sha_INITIAL (fips_chunks (take (64 * q) m)); b = tail @ drop P (sha_block s);
          st = sha_compress st b 0
      in \<lparr>sha_state = (if P = 128 then sha_compress st b 64 else st), sha_block = b\<rparr>)"
    by (simp only: digest_def blocks Let_def prod.case rest_def [symmetric] P_def [symmetric] body
        filled)
  show "length (sha_block (digest s message len)) = 128"
    using P(2) block by (simp add: written tail_len Let_def)
  have pad: "fips_pad m = take (64 * q) m @ tail"
  proof -
    have "P - 8 - (rest + 1) = (119 - len mod 64) mod 64"
      using mod_gap [OF rest(1)] by (simp add: P_def flip: rest(2))
    then show ?thesis
      unfolding fips_pad_def tail_def lm length_bytes_fips [symmetric]
      by simp
  qed
  have c0: "sha_compress st (tail @ drop P (sha_block s)) 0 = fips_step st (take 64 tail)" for st
    using P(3) tail_len by (subst sha_compress_fips) auto
  have c1: "sha_compress st (tail @ drop P (sha_block s)) 64 = fips_step st (drop 64 tail)"
    if "P = 128" for st
    using that tail_len by (subst sha_compress_fips) auto
  have "fips_sha256 m = foldl fips_step sha_INITIAL (fips_chunks (take (64 * q) m @ tail))"
    by (simp add: fips_sha256_def pad)
  also have "\<dots> = sha_state (digest s message len)"
  proof -
    have "64 dvd length (take (64 * q) m)" using le lm by (simp add: min_absorb2)
    moreover have "length tail = 64 \<or> length tail = 128" using P(3) tail_len by simp
    ultimately show ?thesis using c1
      by (simp only: foldl_digest_tail written Let_def c0 c1 tail_len sha256.simps split: if_split) simp
  qed
  finally show "sha_state (digest s message len) = fips_sha256 (take len message)"
    by (simp add: m_def)
qed

lemma length_fips_chunks: "length (fips_chunks m) = length m div 64"
proof (induction m rule: fips_chunks.induct)
  case (1 m)
  show ?case
  proof (cases "length m < 64")
    case False
    then have "length m = (length m - 64) + 64" by simp
    then have "length m div 64 = Suc ((length m - 64) div 64)" by (metis div_add_self2 Suc_eq_plus1 zero_neq_numeral)
    with False 1 show ?thesis by (subst fips_chunks.simps) simp
  qed (simp add: fips_chunks.simps)
qed

section \<open>Properties\<close>

text \<open>C17: whatever an earlier call left in the reusable block buffer, \<open>digest\<close> of the first
  \<open>len\<close> bytes of a message is its FIPS 180-4 SHA-256: the block loop, the two padding
  layouts, the bit length and the compression function agree with the standard's padding,
  schedule and rounds.\<close>

theorem digest_is_fips_sha256:
  assumes "len \<le> length message" and "length (sha_block s) = 128"
  shows "sha_state (digest s message len) = fips_sha256 (take len message)"
  using digest_final(1) [OF assms] .

theorem digest_is_fips_sha256_witness:
  "sha_state (digest (digest new_sha256 (replicate 200 7) 200) [97, 98, 99, 100] 3) = fips_sha256 [97, 98, 99]"
proof -
  let ?s = "digest new_sha256 (replicate 200 7) 200"
  have "length (sha_block ?s) = 128"
    by (rule digest_final(2)) (simp_all add: new_sha256_def)
  then show ?thesis
    using digest_is_fips_sha256 [of 3 "[97, 98, 99, 100]" ?s] by (simp add: eval_nat_numeral)
qed

text \<open>\<open>Sha256.blocks\<close>, which the work meter charges before hashing, is the number of
  compressions of the message's digest.\<close>

theorem sha_blocks_compressions: "sha_blocks (length m) = length (fips_chunks (fips_pad m))"
proof -
  let ?n = "length m"
  have "length (fips_pad m) = ?n + 9 + (119 - ?n mod 64) mod 64"
    by (simp add: fips_pad_def)
  also have "\<dots> = 64 * ((?n + 8) div 64 + 1)"
  proof (cases "?n mod 64 < 56")
    case True
    define q r where "q = ?n div 64" and "r = ?n mod 64"
    then have n: "?n = 64 * q + r" "r < 56" using True by simp_all
    then have "(?n + 8) div 64 = q" by simp
    moreover have "(119 - r) mod 64 = 55 - r" using n mod_gap [of r] by simp
    ultimately show ?thesis using n by (simp flip: r_def)
  next
    case False
    define q r where "q = ?n div 64" and "r = ?n mod 64"
    then have n: "?n = 64 * q + r" "r < 64" "56 \<le> r" using False by simp_all
    define k where "k = r - 56"
    with n have k: "r = 56 + k" "k < 8" by simp_all
    have "?n + 8 = k + 64 * (q + 1)" using n k by simp
    then have "(?n + 8) div 64 = q + 1" using k(2) by (simp only: div_mult_self2 div_less)
    moreover have "(119 - r) mod 64 = 119 - r" using n mod_gap [of r] by simp
    ultimately show ?thesis using n by (simp flip: r_def)
  qed
  finally show ?thesis by (simp add: length_fips_chunks sha_blocks_def)
qed

end
