(* ===== verification/Terms.thy ===== *)
theory Terms
  imports Unicode Sha256 Work Pattern_Syntax
begin

text \<open>
  Confidential terms (\<open>core/src/custom/terms.ts\<close>): word extraction, salted digests and the
  n-gram search with its memo, its growing byte buffer and its reused hash state.
\<close>

section \<open>Words\<close>

record text_word =
  w_start :: nat
  w_end :: nat
  w_bytes :: "8 word list"
  w_id :: nat

definition encode_bytes :: "ustring \<Rightarrow> 8 word list" where
  "encode_bytes s = map of_nat (utf8_encode s)"

definition ascii_only :: "ustring \<Rightarrow> bool" where
  "ascii_only s \<longleftrightarrow> list_all (\<lambda>c. (32 \<le> c \<and> c \<le> 126) \<or> c = 9 \<or> c = 10 \<or> c = 13) s"

text \<open>\<open>toLowerCase\<close> of an ASCII text is \<open>asciiLower\<close>.\<close>

definition normalizeWord :: "unicode \<Rightarrow> ustring \<Rightarrow> ustring" where
  "normalizeWord U w =
     (if ascii_only w then asciiLower w
      else uc_lower U (concat (filter (\<lambda>c. \<not> uc_mark U (cp_of c)) (chars (uc_nfkd U w)))))"

definition word_matches :: "unicode \<Rightarrow> ustring \<Rightarrow> (nat \<times> ustring) list" where
  "word_matches U s = runs_of (\<lambda>c. uc_word U (cp_of c)) 0 (chars s)"

definition normalizeTerm :: "unicode \<Rightarrow> ustring \<Rightarrow> ustring" where
  "normalizeTerm U term' =
     join_with [32] (filter (\<lambda>w. w \<noteq> []) (map (\<lambda>(_, w). normalizeWord U w) (word_matches U term')))"

text \<open>The loop of \<open>textWords\<close> with its two maps; an entry is the bytes and the id of a
  normalised word, \<open>None\<close> where a raw word normalises to nothing.\<close>

type_synonym word_entry = "8 word list \<times> nat"

fun lookup_word ::
  "unicode \<Rightarrow> ustring \<Rightarrow> (ustring \<times> word_entry option) list \<times> (ustring \<times> word_entry) list \<Rightarrow>
   word_entry option \<times> (ustring \<times> word_entry option) list \<times> (ustring \<times> word_entry) list" where
  "lookup_word U raw (byRaw, byNormalized) =
     (case map_of byRaw raw of
        Some entry \<Rightarrow> (entry, byRaw, byNormalized)
      | None \<Rightarrow>
          let normalized = normalizeWord U raw in
          if normalized = [] then (None, (raw, None) # byRaw, byNormalized)
          else
            (case map_of byNormalized normalized of
               Some entry \<Rightarrow> (Some entry, (raw, Some entry) # byRaw, byNormalized)
             | None \<Rightarrow>
                 let entry = (encode_bytes normalized, length byNormalized)
                 in (Some entry, (raw, Some entry) # byRaw, (normalized, entry) # byNormalized)))"

fun text_words_loop ::
  "unicode \<Rightarrow> (nat \<times> ustring) list \<Rightarrow>
   (ustring \<times> word_entry option) list \<times> (ustring \<times> word_entry) list \<Rightarrow>
   text_word list \<Rightarrow> work_meter \<Rightarrow> text_word list metered" where
  "text_words_loop U [] maps ws = m_return ws"
| "text_words_loop U ((start, raw) # matches) maps ws =
     m_bind (m_spend 1) (\<lambda>_.
       case lookup_word U raw maps of
         (None, maps) \<Rightarrow> text_words_loop U matches maps ws
       | (Some (bytes, wid), maps) \<Rightarrow>
           text_words_loop U matches maps
             (ws @ [\<lparr>w_start = start, w_end = start + length raw, w_bytes = bytes, w_id = wid\<rparr>]))"

definition textWords :: "unicode \<Rightarrow> ustring \<Rightarrow> work_meter \<Rightarrow> text_word list metered" where
  "textWords U s = text_words_loop U (word_matches U s) ([], []) []"

definition termDigest :: "8 word list \<Rightarrow> ustring \<Rightarrow> ustring" where
  "termDigest salt normalized =
     (let body = encode_bytes normalized;
          message = write_bytes (write_bytes (replicate (length salt + length body) 0) 0 salt)
                      (length salt) body
      in digestHex (sha_state (digest new_sha256 message (length message))))"

section \<open>Salts\<close>

definition strip_padding :: "ustring \<Rightarrow> ustring" where
  "strip_padding s = rev (dropWhile (\<lambda>c. c = 61) (rev s))"

definition b64_index :: "nat \<Rightarrow> nat option" where
  "b64_index c =
     index_of (js ''ABCDEFGHIJKLMNOPQRSTUVWXYZabcdefghijklmnopqrstuvwxyz0123456789+/'') [c] 0"

text \<open>The bit buffer of \<open>decodeBase64\<close>, a 32-bit integer as \<open><<\<close> and \<open>|\<close> keep it; \<open>None\<close> is
  the \<open>invalid_base64\<close> error.\<close>

fun decode_salt_loop :: "ustring \<Rightarrow> 32 word \<Rightarrow> nat \<Rightarrow> 8 word list \<Rightarrow> 8 word list option" where
  "decode_salt_loop [] buffer bits bytes = Some bytes"
| "decode_salt_loop (c # cs) buffer bits bytes =
     (case b64_index c of
        None \<Rightarrow> None
      | Some index \<Rightarrow>
          let buffer = push_bit 6 buffer OR of_nat index; bits = bits + 6 in
          if 8 \<le> bits then
            decode_salt_loop cs buffer (bits - 8) (bytes @ [ucast (drop_bit (bits - 8) buffer AND 0xff)])
          else decode_salt_loop cs buffer bits bytes)"

definition decodeSalt :: "ustring \<Rightarrow> 8 word list option" where
  "decodeSalt value = decode_salt_loop (strip_padding value) 0 0 []"

definition digestPrefix :: "ustring \<Rightarrow> nat" where
  "digestPrefix digest' =
     foldl (\<lambda>n c. n * 16 + (case hex_value c of Some d \<Rightarrow> d | None \<Rightarrow> 0)) 0 (js_slice digest' 0 8)"

section \<open>The n-gram search\<close>

definition MEMO_WORDS :: nat where "MEMO_WORDS = 2097152"
definition MEMO_ENTRIES :: nat where "MEMO_ENTRIES = 500000"

record term_hit =
  th_start :: nat
  th_end :: nat
  th_digest :: ustring
  th_words :: nat

definition matchingDigest :: "32 word list \<Rightarrow> ustring set \<Rightarrow> nat set \<Rightarrow> ustring option" where
  "matchingDigest state digests prefs =
     (if unat (state ! 0) \<notin> prefs then None
      else let d = digestHex state in if d \<in> digests then Some d else None)"

record hash_state =
  hs_sha :: sha256
  hs_buffer :: "8 word list"
  hs_seen :: "(nat \<times> ustring option) list"

definition ngram_key :: "nat \<Rightarrow> nat option \<Rightarrow> nat \<Rightarrow> nat option" where
  "ngram_key count key wid =
     (if count = 1 \<and> wid < MEMO_WORDS then Some wid
      else if count = 2 \<and> key \<noteq> None \<and> wid < MEMO_WORDS then Some (MEMO_WORDS * (the key + 1) + wid)
      else None)"

text \<open>The buffer after the word is appended, grown where it is too short.\<close>

definition append_word :: "8 word list \<Rightarrow> nat \<Rightarrow> nat \<Rightarrow> 8 word list \<Rightarrow> 8 word list \<times> nat" where
  "append_word buffer len count bytes =
     (let needed = len + (if 1 < count then 1 else 0) + length bytes;
          buffer = (if length buffer < needed
                    then write_bytes (replicate (needed * 2) 0) 0 (take len buffer) else buffer);
          buffer = (if 1 < count then write_bytes buffer len [0x20] else buffer);
          len = (if 1 < count then len + 1 else len)
      in (write_bytes buffer len bytes, len + length bytes))"

fun ngram_loop ::
  "nat \<Rightarrow> text_word list \<Rightarrow> nat \<Rightarrow> nat \<Rightarrow> nat \<Rightarrow> nat option \<Rightarrow> ustring set \<Rightarrow> nat set \<Rightarrow>
   hash_state \<times> term_hit list \<Rightarrow> work_meter \<Rightarrow> (hash_state \<times> term_hit list) metered" where
  "ngram_loop 0 ws first count len key digests prefs acc = m_return acc"
| "ngram_loop (Suc n) ws first count len key digests prefs (hs, hits) =
     (if length ws \<le> first + count - 1 then m_return (hs, hits)
      else
        let word = ws ! (first + count - 1);
            key = ngram_key count key (w_id word);
            (buffer, len) = append_word (hs_buffer hs) len count (w_bytes word);
            hs = hs\<lparr>hs_buffer := buffer\<rparr>;
            remembered = (case key of None \<Rightarrow> None | Some k \<Rightarrow> map_of (hs_seen hs) k)
        in m_bind
          (case remembered of
             Some d \<Rightarrow> m_bind (m_spend 1) (\<lambda>_. m_return (hs, d))
           | None \<Rightarrow>
               m_bind (m_spend (int (sha_blocks len) * HASH_BLOCK_COST)) (\<lambda>_.
                 let sha = digest (hs_sha hs) buffer len;
                     d = matchingDigest (sha_state sha) digests prefs;
                     seen = (case key of
                         Some k \<Rightarrow> if length (hs_seen hs) < MEMO_ENTRIES then (k, d) # hs_seen hs else hs_seen hs
                       | None \<Rightarrow> hs_seen hs)
                 in m_return (hs\<lparr>hs_sha := sha, hs_seen := seen\<rparr>, d)))
          (\<lambda>(hs, d).
             let hits = (case d of
                 None \<Rightarrow> hits
               | Some d \<Rightarrow> hits @ [\<lparr>th_start = w_start (ws ! first), th_end = w_end word,
                                   th_digest = d, th_words = count\<rparr>])
             in ngram_loop n ws first (count + 1) len key digests prefs (hs, hits)))"

fun first_loop ::
  "nat \<Rightarrow> nat \<Rightarrow> text_word list \<Rightarrow> nat \<Rightarrow> nat \<Rightarrow> ustring set \<Rightarrow> nat set \<Rightarrow>
   hash_state \<times> term_hit list \<Rightarrow> work_meter \<Rightarrow> (hash_state \<times> term_hit list) metered" where
  "first_loop 0 first ws saltLength maxWords digests prefs acc = m_return acc"
| "first_loop (Suc n) first ws saltLength maxWords digests prefs acc =
     m_bind (ngram_loop maxWords ws first 1 saltLength None digests prefs acc) (\<lambda>acc.
       first_loop n (first + 1) ws saltLength maxWords digests prefs acc)"

definition findTermHits ::
  "text_word list \<Rightarrow> 8 word list \<Rightarrow> nat \<Rightarrow> ustring set \<Rightarrow> nat set \<Rightarrow> work_meter \<Rightarrow> term_hit list metered" where
  "findTermHits ws salt maxWords digests prefs =
     m_bind
       (first_loop (length ws) 0 ws (length salt) maxWords digests prefs
          (\<lparr>hs_sha = new_sha256, hs_buffer = write_bytes (replicate (length salt + 256) 0) 0 salt,
            hs_seen = []\<rparr>, []))
       (\<lambda>(_, hits). m_return hits)"

section \<open>Specification of the search\<close>

text \<open>The bytes hashed for an n-gram: the salt and the words joined by single spaces.\<close>

fun ngram_message :: "8 word list \<Rightarrow> text_word list \<Rightarrow> nat \<Rightarrow> nat \<Rightarrow> 8 word list" where
  "ngram_message salt ws first 0 = salt"
| "ngram_message salt ws first (Suc count) =
     ngram_message salt ws first count @ (if 0 < count then [0x20] else []) @ w_bytes (ws ! (first + count))"

definition digest_match :: "ustring set \<Rightarrow> 8 word list \<Rightarrow> ustring option" where
  "digest_match digests message =
     (let d = digestHex (fips_sha256 message) in if d \<in> digests then Some d else None)"

definition ngram_hits :: "text_word list \<Rightarrow> 8 word list \<Rightarrow> ustring set \<Rightarrow> nat \<Rightarrow> nat \<Rightarrow> term_hit list" where
  "ngram_hits ws salt digests first count =
     (case digest_match digests (ngram_message salt ws first count) of
        None \<Rightarrow> []
      | Some d \<Rightarrow> [\<lparr>th_start = w_start (ws ! first), th_end = w_end (ws ! (first + count - 1)),
                    th_digest = d, th_words = count\<rparr>])"

definition all_hits :: "text_word list \<Rightarrow> 8 word list \<Rightarrow> nat \<Rightarrow> ustring set \<Rightarrow> term_hit list" where
  "all_hits ws salt maxWords digests =
     concat (map (\<lambda>first. concat (map (ngram_hits ws salt digests first)
       [1 ..< min maxWords (length ws - first) + 1])) [0 ..< length ws])"

text \<open>Words of one text share an id only where they share the normalised bytes.\<close>

definition ids_consistent :: "text_word list \<Rightarrow> bool" where
  "ids_consistent ws \<longleftrightarrow> (\<forall>w \<in> set ws. \<forall>w' \<in> set ws. w_id w = w_id w' \<longrightarrow> w_bytes w = w_bytes w')"

section \<open>Digests\<close>

lemma length_fips_sha256: "length (fips_sha256 m) = 8"
proof -
  have "length (fips_step H M) = min (length H) 8" for H M
  proof -
    have "length (list_of_vars v) = 8" for v by (cases v rule: list_of_vars.cases) simp
    then show ?thesis by (simp add: fips_step_def)
  qed
  then have "length (foldl fips_step H Ms) = 8" if "length H = 8" for H Ms
    using that by (induction Ms arbitrary: H) simp_all
  then show ?thesis by (simp add: fips_sha256_def sha_INITIAL_def)
qed

lemma hex_value_digit: "d < 16 \<Longrightarrow> hex_value (hex_digit d) = Some d"
  by (auto simp: hex_value_def hex_digit_def is_digit_def)

lemma hex_fold:
  assumes "(x :: 32 word) < 256"
  shows "foldl (\<lambda>n c. n * 16 + (case hex_value c of Some d \<Rightarrow> d | None \<Rightarrow> 0)) n (hex_byte x)
    = n * 256 + unat x"
proof -
  have "unat x < 256" using assms by (simp add: word_less_nat_alt)
  then have "unat x div 16 < 16" "unat x mod 16 < 16" by simp_all
  then show ?thesis
    by (simp add: hex_byte_def hex_value_digit algebra_simps)
qed

lemma length_hex_byte [simp]: "length (hex_byte x) = 2"
  by (simp add: hex_byte_def)

lemma length_digestHex: "length (digestHex st) = 64"
  by (simp add: digestHex_def Let_def upt_rec)

lemma nat_bytes_32:
  "((n div 16777216 * 256 + n div 65536 mod 256) * 256 + n div 256 mod 256) * 256 + n mod 256 = (n :: nat)"
proof -
  have "n div 16777216 = n div 65536 div 256" "n div 65536 = n div 256 div 256"
    by (simp_all flip: div_mult2_eq)
  then show ?thesis
    using div_mult_mod_eq [of "n div 65536" 256] div_mult_mod_eq [of "n div 256" 256] div_mult_mod_eq [of n 256]
    by simp
qed

lemma unat_low_byte: "unat ((x :: 32 word) AND 0xff) = unat x mod 256"
proof -
  have "x AND 0xff = take_bit 8 x" by (simp add: take_bit_eq_mask mask_eq_exp_minus_1)
  then show ?thesis by (simp only: unsigned_take_bit_eq) (simp add: take_bit_eq_mod)
qed

lemma unat_drop: "unat (drop_bit n (x :: 32 word)) = unat x div 2 ^ n"
  by (simp only: unat_drop_bit_eq) (simp only: drop_bit_eq_div)

lemma word_bytes_32:
  fixes w :: "32 word"
  shows "drop_bit 24 w < 256" "drop_bit 16 w AND 0xff < 256" "drop_bit 8 w AND 0xff < 256" "w AND 0xff < 256"
    and "((unat (drop_bit 24 w) * 256 + unat (drop_bit 16 w AND 0xff)) * 256 + unat (drop_bit 8 w AND 0xff)) * 256
      + unat (w AND 0xff) = unat w"
proof -
  have "unat w < 2 ^ 32" using unsigned_less [of w] by simp
  then have "unat w div 2 ^ 24 < 256" by (simp add: less_mult_imp_div_less)
  then show "drop_bit 24 w < 256"
    by (simp add: word_less_nat_alt unat_drop)
  show "drop_bit 16 w AND 0xff < 256" "drop_bit 8 w AND 0xff < 256" "w AND 0xff < 256"
    by (simp_all only: word_less_nat_alt unat_low_byte) simp_all
  show "((unat (drop_bit 24 w) * 256 + unat (drop_bit 16 w AND 0xff)) * 256 + unat (drop_bit 8 w AND 0xff)) * 256
      + unat (w AND 0xff) = unat w"
    unfolding unat_low_byte unat_drop using nat_bytes_32 [of "unat w"] by simp
qed

lemma digestPrefix_digestHex:
  assumes "length st = 8"
  shows "digestPrefix (digestHex st) = unat (st ! 0)"
proof -
  let ?w = "st ! 0"
  have "js_slice (digestHex st) 0 8 = hex_byte (drop_bit 24 ?w) @ hex_byte (drop_bit 16 ?w AND 0xff)
      @ hex_byte (drop_bit 8 ?w AND 0xff) @ hex_byte (?w AND 0xff)"
    using assms by (simp add: js_slice_def sublist_at_def digestHex_def Let_def upt_rec)
  then have "digestPrefix (digestHex st)
      = ((unat (drop_bit 24 ?w) * 256 + unat (drop_bit 16 ?w AND 0xff)) * 256 + unat (drop_bit 8 ?w AND 0xff)) * 256
      + unat (?w AND 0xff)"
    unfolding digestPrefix_def by (simp add: hex_fold word_bytes_32(1-4))
  then show ?thesis by (simp only: word_bytes_32(5))
qed


lemma matchingDigest_fips:
  assumes "sha_state sha = fips_sha256 m" and "\<forall>d \<in> digests. digestPrefix d \<in> prefs"
  shows "matchingDigest (sha_state sha) digests prefs = digest_match digests m"
proof -
  have "unat (sha_state sha ! 0) = digestPrefix (digestHex (fips_sha256 m))"
    using digestPrefix_digestHex [OF length_fips_sha256] assms(1) by simp
  then show ?thesis
    using assms by (auto simp: matchingDigest_def digest_match_def Let_def)
qed

section \<open>The buffer\<close>

lemma append_word_result:
  assumes "append_word buffer len count bytes = (buffer', len')" and "len \<le> length buffer"
  shows "take len' buffer' = take len buffer @ (if 1 < count then [0x20] else []) @ bytes"
    and "len' = len + (if 1 < count then 1 else 0) + length bytes" and "len' \<le> length buffer'"
proof -
  define b1 where "b1 = (if length buffer < len + (if 1 < count then 1 else 0) + length bytes
     then write_bytes (replicate ((len + (if 1 < count then 1 else 0) + length bytes) * 2) 0) 0 (take len buffer)
     else buffer)"
  have b1: "take len b1 = take len buffer" "len + (if 1 < count then 1 else 0) + length bytes \<le> length b1"
    using assms(2) by (auto simp: b1_def write_bytes_take)
  have l: "len' = len + (if 1 < count then 1 else 0) + length bytes"
    and b: "buffer' = write_bytes (if 1 < count then write_bytes b1 len [0x20] else b1)
       (if 1 < count then len + 1 else len) bytes"
    using assms(1) by (auto simp: append_word_def Let_def b1_def split: if_splits)
  show "len' = len + (if 1 < count then 1 else 0) + length bytes" by (rule l)
  show "take len' buffer' = take len buffer @ (if 1 < count then [0x20] else []) @ bytes"
    "len' \<le> length buffer'"
  proof (atomize (full), cases "1 < count")
    case True
    define b2 where "b2 = take len b1 @ [0x20] @ drop (len + 1) b1"
    have len: "len < length b1" "len + 1 + length bytes \<le> length b1" using b1(2) True by simp_all
    then have b2: "length b2 = length b1" "take (len + 1) b2 = take len b1 @ [0x20]" by (simp_all add: b2_def)
    have "write_bytes b1 len [0x20] = b2" using len(1) by (simp add: write_bytes_take b2_def)
    with True have b': "buffer' = write_bytes b2 (len + 1) bytes" by (simp add: b)
    have "buffer' = take (len + 1) b2 @ bytes @ drop (len + 1 + length bytes) b2"
      unfolding b' by (rule write_bytes_take) (use len(2) b2(1) in simp)
    with True l len b2 b1(1) assms(2) show "take len' buffer' = take len buffer @ (if 1 < count then [0x20] else []) @ bytes
        \<and> len' \<le> length buffer'"
      by (simp add: min_absorb2)
  next
    case False
    then have len: "len + length bytes \<le> length b1" using b1(2) by simp
    then have "buffer' = take len b1 @ bytes @ drop (len + length bytes) b1"
      using False by (simp add: b write_bytes_take)
    with False l len b1(1) assms(2) show "take len' buffer' = take len buffer @ (if 1 < count then [0x20] else []) @ bytes
        \<and> len' \<le> length buffer'"
      by (simp add: min_absorb2)
  qed
qed

section \<open>Correctness of the search\<close>

definition seen_ok :: "text_word list \<Rightarrow> 8 word list \<Rightarrow> ustring set \<Rightarrow> (nat \<times> ustring option) list \<Rightarrow> bool" where
  "seen_ok ws salt digests seen \<longleftrightarrow> (\<forall>(k, d) \<in> set seen.
     (\<forall>w \<in> set ws. w_id w < MEMO_WORDS \<longrightarrow> k = w_id w \<longrightarrow> d = digest_match digests (salt @ w_bytes w)) \<and>
     (\<forall>w \<in> set ws. \<forall>w' \<in> set ws. w_id w < MEMO_WORDS \<longrightarrow> w_id w' < MEMO_WORDS \<longrightarrow>
        k = MEMO_WORDS * (w_id w + 1) + w_id w' \<longrightarrow>
        d = digest_match digests (salt @ w_bytes w @ [0x20] @ w_bytes w')))"

definition hs_inv :: "text_word list \<Rightarrow> 8 word list \<Rightarrow> ustring set \<Rightarrow> hash_state \<Rightarrow> bool" where
  "hs_inv ws salt digests hs \<longleftrightarrow>
     length (sha_block (hs_sha hs)) = 128 \<and> length salt \<le> length (hs_buffer hs) \<and>
     take (length salt) (hs_buffer hs) = salt \<and> seen_ok ws salt digests (hs_seen hs)"

definition key_ok :: "text_word list \<Rightarrow> nat \<Rightarrow> nat \<Rightarrow> nat option \<Rightarrow> bool" where
  "key_ok ws first count key \<longleftrightarrow>
     (count = 2 \<longrightarrow> key = (if w_id (ws ! first) < MEMO_WORDS then Some (w_id (ws ! first)) else None))"

lemma seen_lookup:
  assumes "seen_ok ws salt digests seen" and "first + count \<le> length ws" and "0 < count"
    and "key_ok ws first count key" and "ngram_key count key (w_id (ws ! (first + count - 1))) = Some k"
    and "map_of seen k = Some d"
  shows "d = digest_match digests (ngram_message salt ws first count)"
proof -
  from assms(6) have mem: "(k, d) \<in> set seen" by (rule map_of_SomeD)
  from assms(2,3) have w: "ws ! (first + count - 1) \<in> set ws" "ws ! first \<in> set ws" by auto
  from assms(5) consider "count = 1" | "count = 2" by (auto simp: ngram_key_def split: if_splits)
  then show ?thesis
  proof cases
    case 1
    with assms(5) have "k = w_id (ws ! first)" "w_id (ws ! first) < MEMO_WORDS"
      by (auto simp: ngram_key_def split: if_splits)
    with 1 mem assms(1) w(2) show ?thesis by (fastforce simp: seen_ok_def)
  next
    case 2
    with assms(4,5) have "w_id (ws ! first) < MEMO_WORDS" "w_id (ws ! (first + 1)) < MEMO_WORDS"
      "k = MEMO_WORDS * (w_id (ws ! first) + 1) + w_id (ws ! (first + 1))"
      by (auto simp: ngram_key_def key_ok_def split: if_splits)
    moreover have "ngram_message salt ws first 2 = salt @ w_bytes (ws ! first) @ [0x20] @ w_bytes (ws ! (first + 1))"
      by (simp add: numeral_2_eq_2)
    ultimately show ?thesis using 2 mem assms(1) w by (fastforce simp: seen_ok_def)
  qed
qed

lemma memo_key_inject:
  assumes "MEMO_WORDS * (a + 1) + b = MEMO_WORDS * (a' + 1) + b'" and "b < MEMO_WORDS" "b' < MEMO_WORDS"
  shows "a = a' \<and> b = b'"
proof -
  have "(MEMO_WORDS * (a + 1) + b) div MEMO_WORDS = a + 1" "(MEMO_WORDS * (a' + 1) + b') div MEMO_WORDS = a' + 1"
    using assms(2,3) by (simp_all add: MEMO_WORDS_def)
  then have "a + 1 = a' + 1" by (simp only: assms(1))
  with assms(1) show ?thesis by simp
qed

lemma seen_insert:
  assumes "seen_ok ws salt digests seen" and ids: "ids_consistent ws"
    and "first + count \<le> length ws" and "0 < count"
    and "key_ok ws first count key" and "ngram_key count key (w_id (ws ! (first + count - 1))) = Some k"
  shows "seen_ok ws salt digests ((k, digest_match digests (ngram_message salt ws first count)) # seen)"
proof -
  from assms(3,4) have w: "ws ! (first + count - 1) \<in> set ws" "ws ! first \<in> set ws" by auto
  from assms(6) consider "count = 1" | "count = 2" by (auto simp: ngram_key_def split: if_splits)
  then show ?thesis
  proof cases
    case 1
    with assms(6) have k: "k = w_id (ws ! first)" "k < MEMO_WORDS"
      by (auto simp: ngram_key_def split: if_splits)
    then have "k \<noteq> MEMO_WORDS * (i + 1) + j" for i j by (simp add: MEMO_WORDS_def)
    moreover have "w_bytes w = w_bytes (ws ! first)" if "w \<in> set ws" "k = w_id w" for w
      using that k(1) ids w(2) unfolding ids_consistent_def by metis
    ultimately show ?thesis
      unfolding seen_ok_def 1 using assms(1)
      by (simp add: seen_ok_def)
  next
    case 2
    with assms(5,6) have k: "w_id (ws ! first) < MEMO_WORDS" "w_id (ws ! (first + 1)) < MEMO_WORDS"
      "k = MEMO_WORDS * (w_id (ws ! first) + 1) + w_id (ws ! (first + 1))"
      by (auto simp: ngram_key_def key_ok_def split: if_splits)
    have m: "ngram_message salt ws first 2 = salt @ w_bytes (ws ! first) @ [0x20] @ w_bytes (ws ! (first + 1))"
      by (simp add: numeral_2_eq_2)
    have nk: "k \<noteq> i" if "i < MEMO_WORDS" for i using that k(3) by (simp add: MEMO_WORDS_def)
    have pair: "w_bytes u = w_bytes (ws ! first) \<and> w_bytes v = w_bytes (ws ! (first + 1))"
      if "u \<in> set ws" "v \<in> set ws" "w_id v < MEMO_WORDS" "k = MEMO_WORDS * (w_id u + 1) + w_id v" for u v
    proof -
      have "w_id (ws ! first) = w_id u \<and> w_id (ws ! (first + 1)) = w_id v"
        using memo_key_inject k that(3,4) by metis
      moreover have "ws ! (first + 1) \<in> set ws" using w(1) 2 by simp
      ultimately show ?thesis using ids w(2) that(1,2) unfolding ids_consistent_def by metis
    qed
    show ?thesis
      unfolding seen_ok_def 2 m
      using assms(1) nk pair by (simp add: seen_ok_def)
  qed
qed


lemma ngram_loop_result:
  assumes pre: "\<forall>d \<in> digests. digestPrefix d \<in> prefs" and ids: "ids_consistent ws"
  shows "ngram_loop n ws first count len key digests prefs (hs, hits) m = (m', Inr (hs', hits')) \<Longrightarrow>
    0 < count \<Longrightarrow> key_ok ws first count key \<Longrightarrow> hs_inv ws salt digests hs \<Longrightarrow>
    len \<le> length (hs_buffer hs) \<Longrightarrow> take len (hs_buffer hs) = ngram_message salt ws first (count - 1) \<Longrightarrow>
    len = length (ngram_message salt ws first (count - 1)) \<Longrightarrow>
    hs_inv ws salt digests hs' \<and>
    hits' = hits @ concat (map (ngram_hits ws salt digests first)
       [count ..< min (count + n) (length ws - first + 1)])"
proof (induction n arbitrary: count len key hs hits m)
  case 0
  then show ?case by (simp add: m_return_def)
next
  case (Suc n)
  let ?msg = "ngram_message salt ws first"
  show ?case
  proof (cases "length ws \<le> first + count - 1")
    case True
    then have "[count ..< min (count + Suc n) (length ws - first + 1)] = []" using Suc.prems(2) by auto
    with True Suc.prems(1,4) show ?thesis by (simp add: m_return_def del: upt_Suc)
  next
    case False
    then have inside: "first + count \<le> length ws" using Suc.prems(2) by simp
    define word where "word = ws ! (first + count - 1)"
    define key' where "key' = ngram_key count key (w_id word)"
    obtain buffer len' where aw: "append_word (hs_buffer hs) len count (w_bytes word) = (buffer, len')"
      by (cases "append_word (hs_buffer hs) len count (w_bytes word)")
    note ab = append_word_result [OF aw Suc.prems(5)]
    obtain c where c: "count = Suc c" using Suc.prems(2) by (cases count) auto
    have msg: "take len' buffer = ?msg count" "len' = length (?msg count)"
      using ab Suc.prems(6,7) by (auto simp: c word_def)
    define hs1 where "hs1 = hs\<lparr>hs_buffer := buffer\<rparr>"
    define lookup where "lookup = (case (case key' of None \<Rightarrow> None | Some k \<Rightarrow> map_of (hs_seen hs1) k) of
             Some d \<Rightarrow> m_bind (m_spend 1) (\<lambda>_. m_return (hs1, d))
           | None \<Rightarrow>
               m_bind (m_spend (int (sha_blocks len') * HASH_BLOCK_COST)) (\<lambda>_.
                 let sha = digest (hs_sha hs1) buffer len';
                     d = matchingDigest (sha_state sha) digests prefs;
                     seen = (case key' of
                         Some k \<Rightarrow> if length (hs_seen hs1) < MEMO_ENTRIES then (k, d) # hs_seen hs1 else hs_seen hs1
                       | None \<Rightarrow> hs_seen hs1)
                 in m_return (hs1\<lparr>hs_sha := sha, hs_seen := seen\<rparr>, d)))"
    have inv1: "hs_inv ws salt digests hs1"
    proof -
      have "length salt \<le> len'" "take (length salt) (?msg count) = salt"
      proof -
        have "length salt \<le> length (?msg j) \<and> take (length salt) (?msg j) = salt" for j
          by (induction j) auto
        then show "length salt \<le> len'" "take (length salt) (?msg count) = salt" by (auto simp: msg(2))
      qed
      then have "take (length salt) buffer = salt" "length salt \<le> length buffer"
        using msg(1) ab(3) by (metis min_absorb1 take_take, simp)
      with Suc.prems(4) show ?thesis by (simp add: hs_inv_def hs1_def)
    qed
    have result: "d = digest_match digests (?msg count) \<and> hs_inv ws salt digests hs2 \<and> hs_buffer hs2 = buffer"
      if "lookup m0 = (m1, Inr (hs2, d))" for m0 m1 hs2 d
    proof (cases "case key' of None \<Rightarrow> None | Some k \<Rightarrow> map_of (hs_seen hs1) k")
      case (Some d0)
      then obtain k where k: "key' = Some k" "map_of (hs_seen hs1) k = Some d0" by (auto split: option.splits)
      have "d0 = digest_match digests (?msg count)"
        by (rule seen_lookup [OF _ inside Suc.prems(2,3) _ k(2)])
          (use inv1 k(1) in \<open>auto simp: hs_inv_def key'_def word_def\<close>)
      with that Some inv1 show ?thesis
        by (auto simp: lookup_def m_bind_Inr m_return_def hs1_def)
    next
      case None
      define sha where "sha = digest (hs_sha hs) buffer len'"
      have blk: "length (sha_block (hs_sha hs)) = 128" using Suc.prems(4) by (simp add: hs_inv_def)
      have "sha_state sha = fips_sha256 (?msg count)"
        unfolding sha_def using digest_final(1) [OF ab(3) blk] msg(1) by simp
      then have d: "matchingDigest (sha_state sha) digests prefs = digest_match digests (?msg count)"
        by (rule matchingDigest_fips [OF _ pre])
      have blk2: "length (sha_block sha) = 128" unfolding sha_def by (rule digest_final(2) [OF ab(3) blk])
      have seen: "seen_ok ws salt digests ((k, digest_match digests (?msg count)) # hs_seen hs1)" if "key' = Some k" for k
        by (rule seen_insert [OF _ ids inside Suc.prems(2,3)])
          (use inv1 that in \<open>auto simp: hs_inv_def key'_def word_def\<close>)
      from that None show ?thesis
        using inv1 blk2 [unfolded sha_def] seen d [unfolded sha_def]
        by (auto simp: lookup_def m_bind_Inr m_return_def Let_def hs_inv_def hs1_def
            split: option.splits if_splits)
    qed
    define hits2 where "hits2 d = (case d of None \<Rightarrow> hits | Some d \<Rightarrow> hits @ [\<lparr>th_start = w_start (ws ! first),
       th_end = w_end word, th_digest = d, th_words = count\<rparr>])" for d
    have "ngram_loop (Suc n) ws first count len key digests prefs (hs, hits)
        = m_bind lookup (\<lambda>(hs2, d). ngram_loop n ws first (count + 1) len' key' digests prefs (hs2, hits2 d))"
      using False
      by (simp only: ngram_loop.simps if_False Let_def word_def [symmetric] key'_def [symmetric] aw prod.case
         hs1_def [symmetric] lookup_def hits2_def)
    with Suc.prems(1) obtain m0 hs2 d where l: "lookup m = (m0, Inr (hs2, d))"
      and rest: "ngram_loop n ws first (count + 1) len' key' digests prefs (hs2, hits2 d) m0 = (m', Inr (hs', hits'))"
      by (auto simp: m_bind_Inr)
    note r = result [OF l]
    have key2: "key_ok ws first (count + 1) key'"
      by (auto simp: key_ok_def key'_def ngram_key_def word_def)
    have "hs_inv ws salt digests hs' \<and> hits' = hits2 d @ concat (map (ngram_hits ws salt digests first)
       [count + 1 ..< min (count + 1 + n) (length ws - first + 1)])"
      by (rule Suc.IH [OF rest _ key2]) (use r ab(3) msg in auto)
    moreover have "[count ..< min (count + Suc n) (length ws - first + 1)]
        = count # [count + 1 ..< min (count + 1 + n) (length ws - first + 1)]"
    proof -
      have "count < min (count + Suc n) (length ws - first + 1)" using inside by (auto simp: min_def)
      then show ?thesis by (simp only: upt_conv_Cons add_Suc_right add_Suc Suc_eq_plus1 [symmetric] add_0_right)
    qed
    moreover have "hits2 d = hits @ ngram_hits ws salt digests first count"
      using r by (simp add: ngram_hits_def word_def hits2_def split: option.splits)
    ultimately show ?thesis by (simp del: upt_Suc)
  qed
qed

lemma first_loop_result:
  assumes pre: "\<forall>d \<in> digests. digestPrefix d \<in> prefs" and ids: "ids_consistent ws"
  shows "first_loop n first ws (length salt) maxWords digests prefs (hs, hits) m = (m', Inr (hs', hits')) \<Longrightarrow>
    hs_inv ws salt digests hs \<Longrightarrow>
    hs_inv ws salt digests hs' \<and>
    hits' = hits @ concat (map (\<lambda>first. concat (map (ngram_hits ws salt digests first)
       [1 ..< min maxWords (length ws - first) + 1])) [first ..< first + n])"
proof (induction n arbitrary: first hs hits m)
  case 0
  then show ?case by (simp add: m_return_def)
next
  case (Suc n)
  from Suc.prems(1) obtain m1 hs1 hits1 where
    l: "ngram_loop maxWords ws first 1 (length salt) None digests prefs (hs, hits) m = (m1, Inr (hs1, hits1))"
    and r: "first_loop n (first + 1) ws (length salt) maxWords digests prefs (hs1, hits1) m1 = (m', Inr (hs', hits'))"
    by (auto simp: m_bind_Inr)
  have e: "min (1 + maxWords) (length ws - first + 1) = min maxWords (length ws - first) + 1" by simp
  have key: "key_ok ws first 1 None" by (simp add: key_ok_def)
  have salt: "length salt \<le> length (hs_buffer hs)" "take (length salt) (hs_buffer hs) = ngram_message salt ws first (1 - 1)"
    "length salt = length (ngram_message salt ws first (1 - 1))"
    using Suc.prems(2) by (simp_all add: hs_inv_def)
  note ng = ngram_loop_result [OF pre ids l zero_less_one key Suc.prems(2) salt, unfolded e]
  then have inv: "hs_inv ws salt digests hs1" and h: "hits1 = hits @ concat (map (ngram_hits ws salt digests first)
       [1 ..< min maxWords (length ws - first) + 1])"
    by blast+
  have "[first ..< first + Suc n] = first # [first + 1 ..< first + 1 + n]"
    using upt_conv_Cons [of first "first + Suc n"] by (simp del: upt_Suc)
  with Suc.IH [OF r inv] h show ?case by (simp del: upt_Suc)
qed

lemma findTermHits_result:
  assumes "\<forall>d \<in> digests. digestPrefix d \<in> prefs" and "ids_consistent ws"
    and "findTermHits ws salt maxWords digests prefs m = (m', Inr hits)"
  shows "hits = all_hits ws salt maxWords digests"
proof -
  have inv: "hs_inv ws salt digests \<lparr>hs_sha = new_sha256, hs_buffer = write_bytes (replicate (length salt + 256) 0) 0 salt,
            hs_seen = []\<rparr>"
    by (simp add: hs_inv_def new_sha256_def write_bytes_take seen_ok_def)
  from assms(3) obtain hs' m1 where
    fl: "first_loop (length ws) 0 ws (length salt) maxWords digests prefs
       (\<lparr>hs_sha = new_sha256, hs_buffer = write_bytes (replicate (length salt + 256) 0) 0 salt,
         hs_seen = []\<rparr>, []) m = (m1, Inr (hs', hits))"
    by (auto simp: findTermHits_def m_bind_Inr m_return_def)
  from first_loop_result [OF assms(1,2) fl inv] show ?thesis
    by (simp add: all_hits_def del: upt_Suc)
qed

text \<open>\<open>textWords\<close> gives equal ids only to equal normalised words.\<close>

definition entries_ok :: "(ustring \<times> word_entry option) list \<times> (ustring \<times> word_entry) list \<Rightarrow> bool" where
  "entries_ok maps \<longleftrightarrow>
     distinct (map (\<lambda>e. snd (snd e)) (snd maps)) \<and>
     (\<forall>e \<in> set (snd maps). snd (snd e) < length (snd maps)) \<and>
     (\<forall>e \<in> set (fst maps). pred_option (\<lambda>w. w \<in> snd ` set (snd maps)) (snd e))"

lemma lookup_word_result:
  assumes "lookup_word U raw maps = (entry, maps')" and "entries_ok maps"
  shows "entries_ok maps' \<and> snd ` set (snd maps) \<subseteq> snd ` set (snd maps') \<and>
    pred_option (\<lambda>w. w \<in> snd ` set (snd maps')) entry"
proof (cases maps)
  case (Pair byRaw byNormalized)
  show ?thesis
  proof (cases "map_of byRaw raw")
    case (Some e)
    then have "(raw, e) \<in> set byRaw" by (rule map_of_SomeD)
    with assms(2) Pair have "pred_option (\<lambda>w. w \<in> snd ` set byNormalized) e"
      by (force simp: entries_ok_def)
    with assms Pair Some show ?thesis by auto
  next
    case None
    consider "normalizeWord U raw = []"
      | e where "normalizeWord U raw \<noteq> []" "map_of byNormalized (normalizeWord U raw) = Some e"
      | "normalizeWord U raw \<noteq> []" "map_of byNormalized (normalizeWord U raw) = None" by fastforce
    then show ?thesis
    proof cases
      case 1
      with assms(1) Pair None have "entry = None" "maps' = ((raw, None) # byRaw, byNormalized)" by simp_all
      with assms(2) Pair show ?thesis by (simp add: entries_ok_def)
    next
      case 2
      then have "(normalizeWord U raw, e) \<in> set byNormalized" by (intro map_of_SomeD)
      then have "e \<in> snd ` set byNormalized" by force
      moreover from assms(1) Pair None 2 have "entry = Some e" "maps' = ((raw, Some e) # byRaw, byNormalized)"
        by (auto simp: Let_def)
      ultimately show ?thesis using assms(2) Pair by (simp add: entries_ok_def)
    next
      case 3
      let ?new = "(encode_bytes (normalizeWord U raw), length byNormalized)"
      from assms(1) Pair None 3 have m: "entry = Some ?new"
        "maps' = ((raw, Some ?new) # byRaw, (normalizeWord U raw, ?new) # byNormalized)"
        by (auto simp: Let_def)
      from assms(2) Pair have old: "distinct (map (\<lambda>e. snd (snd e)) byNormalized)"
        "\<forall>e \<in> set byNormalized. snd (snd e) < length byNormalized"
        "\<forall>e \<in> set byRaw. pred_option (\<lambda>w. w \<in> snd ` set byNormalized) (snd e)"
        by (simp_all add: entries_ok_def)
      have fresh: "length byNormalized \<notin> (\<lambda>e. snd (snd e)) ` set byNormalized"
        using old(2) by auto
      have mono: "pred_option (\<lambda>w. w \<in> A) e \<Longrightarrow> A \<subseteq> B \<Longrightarrow> pred_option (\<lambda>w. w \<in> B) e" for A B and e :: "word_entry option"
        by (cases e) auto
      have "\<forall>e \<in> set byRaw. pred_option (\<lambda>w. w \<in> insert ?new (snd ` set byNormalized)) (snd e)"
        using old(3) mono by blast
      with old fresh show ?thesis by (simp add: m Pair entries_ok_def less_Suc_eq) blast
    qed
  qed
qed

lemma text_words_result:
  "text_words_loop U matches maps ws m = (m', Inr ws') \<Longrightarrow>
     entries_ok maps \<Longrightarrow> (\<forall>w \<in> set ws. (w_bytes w, w_id w) \<in> snd ` set (snd maps)) \<Longrightarrow>
     ids_consistent ws'"
proof (induction U matches maps ws arbitrary: m rule: text_words_loop.induct)
  case (1 U maps ws)
  have "b = b'" if "(b, i) \<in> snd ` set (snd maps)" "(b', i) \<in> snd ` set (snd maps)" for b b' i
  proof -
    from that obtain s s' where m: "(s, b, i) \<in> set (snd maps)" "(s', b', i) \<in> set (snd maps)" by auto
    have "inj_on (\<lambda>e. snd (snd e)) (set (snd maps))"
      using 1(2) by (simp add: entries_ok_def distinct_map)
    from inj_onD [OF this _ m] show ?thesis by simp
  qed
  moreover have "ws' = ws" using 1(1) by (simp add: m_return_def)
  ultimately show ?case using 1(3) unfolding ids_consistent_def by metis
next
  case (2 U start raw matches maps ws)
  obtain entry maps' where l: "lookup_word U raw maps = (entry, maps')" by (cases "lookup_word U raw maps")
  note r = lookup_word_result [OF l "2.prems"(2)]
  have ws: "\<forall>w \<in> set ws. (w_bytes w, w_id w) \<in> snd ` set (snd maps')"
    using "2.prems"(3) r by blast
  show ?case
  proof (cases entry)
    case None
    with "2.prems"(1) l obtain m1 where "text_words_loop U matches maps' ws m1 = (m', Inr ws')"
      by (auto simp: m_bind_Inr)
    from "2.IH"(1) [OF l [symmetric] None this] r ws show ?thesis by blast
  next
    case (Some e)
    obtain bytes wid where e: "e = (bytes, wid)" by (cases e)
    with "2.prems"(1) l Some obtain m1 where t: "text_words_loop U matches maps'
        (ws @ [\<lparr>w_start = start, w_end = start + length raw, w_bytes = bytes, w_id = wid\<rparr>]) m1 = (m', Inr ws')"
      by (auto simp: m_bind_Inr)
    have "\<forall>w \<in> set (ws @ [\<lparr>w_start = start, w_end = start + length raw, w_bytes = bytes, w_id = wid\<rparr>]).
        (w_bytes w, w_id w) \<in> snd ` set (snd maps')"
      using r ws Some e by simp
    with "2.IH"(2) [OF l [symmetric] Some e [symmetric] t] r show ?thesis by blast
  qed
qed

section \<open>Properties\<close>

text \<open>C2: the n-gram search finds exactly the contract's hits: every run of 1 to
  \<open>maxWords\<close> words whose salted SHA-256 digest is published, in text order, and nothing
  else; the memo of short n-grams, the 32-bit prefix filter, the growing byte buffer and the
  reused hash state change no result.\<close>

theorem findTermHits_exact:
  assumes "\<forall>d \<in> digests. digestPrefix d \<in> prefs" and "textWords U s m0 = (m1, Inr ws)"
    and "findTermHits ws salt maxWords digests prefs m = (m', Inr hits)"
  shows "hits = all_hits ws salt maxWords digests"
proof -
  have "ids_consistent ws"
    using text_words_result [of U "word_matches U s" "([], [])" "[]"] assms(2)
    by (simp add: textWords_def entries_ok_def)
  with assms show ?thesis by (intro findTermHits_result)
qed


text \<open>A text of one word whose salted digest is published.\<close>

definition sample_word :: text_word where
  "sample_word = \<lparr>w_start = 0, w_end = 2, w_bytes = [97, 98], w_id = 0\<rparr>"

lemma sample_words:
  "textWords ascii_unicode (js ''AB'') (WorkMeter 9 0 None) = (WorkMeter 9 1 None, Inr [sample_word])"
  by (simp add: textWords_def word_matches_def runs_of.simps js_def is_high_def ascii_unicode_def m_bind_def
     m_spend_def m_return_def normalizeWord_def ascii_only_def asciiLower_def ascii_lower_unit_def
     encode_bytes_def utf8_encode_def code_points_def utf8_of_cp_def is_surrogate_def sample_word_def Let_def)

definition sample_digests :: "ustring set" where
  "sample_digests = {digestHex (fips_sha256 [7, 97, 98])}"

lemma sample_search:
  "\<exists>hits. findTermHits [sample_word] [7] 1 sample_digests (digestPrefix ` sample_digests) (WorkMeter 100 0 None)
     = (WorkMeter 100 80 None, Inr hits)"
  by (simp add: findTermHits_def sample_word_def append_word_def ngram_key_def m_bind_def
     m_return_def m_spend_def Let_def sha_blocks_def HASH_BLOCK_COST_def MEMO_WORDS_def)

theorem findTermHits_exact_witness:
  "\<exists>m hits. findTermHits [sample_word] [7] 1 sample_digests (digestPrefix ` sample_digests) (WorkMeter 100 0 None)
     = (m, Inr hits) \<and> map th_end hits = [2]"
proof -
  obtain hits where h: "findTermHits [sample_word] [7] 1 sample_digests (digestPrefix ` sample_digests)
      (WorkMeter 100 0 None) = (WorkMeter 100 80 None, Inr hits)" using sample_search by blast
  have "hits = all_hits [sample_word] [7] 1 sample_digests"
    by (rule findTermHits_exact [OF _ sample_words h]) simp
  also have "map th_end \<dots> = [2]"
    by (simp add: all_hits_def ngram_hits_def digest_match_def sample_digests_def sample_word_def Let_def)
  finally have "map th_end hits = [2]" .
  with h show ?thesis by (intro exI conjI)
qed


end
