(* ===== verification/Detect.thy ===== *)
theory Detect
  imports Rules_Schema Pattern_Match Terms
begin

text \<open>
  Detection of the xSOM rules (\<open>core/src/custom/detect.ts\<close>). A \<open>TextView\<close> and the work meter
  its callers pass along are one state; every operation is a state transformer that returns
  a value or throws \<open>WorkBudgetExceeded\<close> or \<open>TooManyMatches\<close> and leaves the state it reached.
  The engine's \<open>RegExp\<close> is a parameter \<open>R\<close>: flags, source and text to the ranges \<open>matchAll\<close>
  returns. Entropies are exact reals (the rounding of the doubles is not modelled).
\<close>

section \<open>Detectors and the view\<close>

record compiled_context =
  cc_keywords :: "ustring list"
  cc_window :: nat

record pattern_detector =
  pd_spec :: detector_spec
  pd_pattern :: safe_pattern
  pd_minEntropyTenths :: "nat option"
  pd_context :: "compiled_context option"

record terms_detector =
  td_spec :: detector_spec
  td_salt :: ustring
  td_digests :: "ustring set"
  td_maxWords :: nat
  td_context :: "compiled_context option"

datatype compiled_detector =
  PatternDetector pattern_detector
| TermsDetector terms_detector

record term_group =
  tg_salt :: "8 word list"
  tg_maxWords :: nat
  tg_digests :: "ustring set"
  tg_prefixes :: "nat set"
  tg_detectors :: "nat list"

type_synonym custom_match = "nat \<times> nat"

definition NATIVE_ATTEMPT_LIMIT :: nat where "NATIVE_ATTEMPT_LIMIT = 4096"
definition NATIVE_STEP_RATIO :: nat where "NATIVE_STEP_RATIO = 8"

definition compileContext :: "context_spec option \<Rightarrow> compiled_context option" where
  "compileContext context' =
     map_option (\<lambda>c. \<lparr>cc_keywords = map asciiLower (cx_keywords c), cc_window = cx_window c\<rparr>) context'"

text \<open>The map from salts to detector indexes, in insertion order.\<close>

fun by_salt :: "nat \<Rightarrow> compiled_detector list \<Rightarrow> (ustring \<times> nat list) list \<Rightarrow> (ustring \<times> nat list) list" where
  "by_salt index [] acc = acc"
| "by_salt index (PatternDetector _ # ds) acc = by_salt (Suc index) ds acc"
| "by_salt index (TermsDetector d # ds) acc =
     (let group = (case obj_get acc (td_salt d) of Some g \<Rightarrow> g | None \<Rightarrow> [])
      in by_salt (Suc index) ds (obj_set acc (td_salt d) (group @ [index])))"

fun as_terms :: "compiled_detector \<Rightarrow> terms_detector list" where
  "as_terms (TermsDetector d) = [d]"
| "as_terms (PatternDetector _) = []"

text \<open>\<open>decodeBase64\<close> throws on a salt outside the alphabet; the validator's \<open>SALT\<close> excludes it,
  so the default is not reached.\<close>

definition termGroups :: "compiled_detector list \<Rightarrow> term_group list" where
  "termGroups detectors =
     map (\<lambda>(salt, indexes).
       let members = concat (map (\<lambda>i. as_terms (detectors ! i)) indexes);
           digests = \<Union> (set (map td_digests members))
       in \<lparr>tg_salt = (case decodeSalt salt of Some s \<Rightarrow> s | None \<Rightarrow> []),
           tg_maxWords = foldr max (map td_maxWords members) 0,
           tg_digests = digests, tg_prefixes = digestPrefix ` digests, tg_detectors = indexes\<rparr>)
       (by_salt 0 detectors [])"

record text_view =
  tv_text :: ustring
  tv_lowered :: "ustring option"
  tv_words :: "text_word list option"
  tv_matches :: nat
  tv_maxMatches :: "nat option"
  tv_native :: "((bool \<times> ustring) \<times> custom_match list) list"
  tv_meter :: work_meter

definition new_view :: "ustring \<Rightarrow> work_meter \<Rightarrow> nat option \<Rightarrow> text_view" where
  "new_view s meter maxMatches =
     \<lparr>tv_text = s, tv_lowered = None, tv_words = None, tv_matches = 0, tv_maxMatches = maxMatches,
      tv_native = [], tv_meter = meter\<rparr>"

type_synonym 'a scanning = "text_view \<Rightarrow> text_view \<times> (work_error + 'a)"

definition v_return :: "'a \<Rightarrow> 'a scanning" where
  "v_return x view = (view, Inr x)"

definition v_bind :: "'a scanning \<Rightarrow> ('a \<Rightarrow> 'b scanning) \<Rightarrow> 'b scanning" where
  "v_bind f g view = (case f view of (view', Inl e) \<Rightarrow> (view', Inl e) | (view', Inr x) \<Rightarrow> g x view')"

definition v_get :: "(text_view \<Rightarrow> 'a) \<Rightarrow> 'a scanning" where
  "v_get f view = (view, Inr (f view))"

definition metered :: "(work_meter \<Rightarrow> 'a metered) \<Rightarrow> 'a scanning" where
  "metered f view = (case f (tv_meter view) of (m, r) \<Rightarrow> (view\<lparr>tv_meter := m\<rparr>, r))"

definition v_spend :: "nat \<Rightarrow> unit scanning" where
  "v_spend units = metered (m_spend (int units))"

fun v_filter :: "('a \<Rightarrow> bool scanning) \<Rightarrow> 'a list \<Rightarrow> 'a list scanning" where
  "v_filter p [] = v_return []"
| "v_filter p (x # xs) =
     v_bind (p x) (\<lambda>b. v_bind (v_filter p xs) (\<lambda>ys. v_return (if b then x # ys else ys)))"

text \<open>\<open>TextView.keep\<close>.\<close>

definition keep :: "nat \<Rightarrow> unit scanning" where
  "keep count view =
     (let view = view\<lparr>tv_matches := tv_matches view + count\<rparr> in
      (view, case tv_maxMatches view of
               Some limit \<Rightarrow> if limit < tv_matches view then Inl TooManyMatches else Inr ()
             | None \<Rightarrow> Inr ()))"

definition ceil_div :: "nat \<Rightarrow> nat \<Rightarrow> nat" where
  "ceil_div a b = (a + (b - 1)) div b"

text \<open>The getters \<open>lowered\<close> and \<open>words\<close>.\<close>

definition lowered :: "ustring scanning" where
  "lowered view =
     (case tv_lowered view of
        Some s \<Rightarrow> (view, Inr s)
      | None \<Rightarrow>
          v_bind (v_spend (ceil_div (length (tv_text view)) 64)) (\<lambda>_ view.
            let s = asciiLower (tv_text view) in (view\<lparr>tv_lowered := Some s\<rparr>, Inr s)) view)"

definition view_words :: "unicode \<Rightarrow> text_word list scanning" where
  "view_words U view =
     (case tv_words view of
        Some ws \<Rightarrow> (view, Inr ws)
      | None \<Rightarrow>
          v_bind (metered (textWords U (tv_text view))) (\<lambda>ws view.
            (view\<lparr>tv_words := Some ws\<rparr>, Inr ws)) view)"

section \<open>Context\<close>

fun backwards :: "ustring \<Rightarrow> nat \<Rightarrow> nat \<Rightarrow> nat" where
  "backwards s position 0 = position"
| "backwards s position (Suc count) =
     (if position = 0 then 0
      else
        let position = position - 1;
            position = (if 0 < position \<and> is_low (s ! position) \<and> is_high (s ! (position - 1))
                        then position - 1 else position)
        in backwards s position count)"

fun forwards :: "ustring \<Rightarrow> nat \<Rightarrow> nat \<Rightarrow> nat" where
  "forwards s position 0 = position"
| "forwards s position (Suc count) =
     (if length s \<le> position then position
      else if is_high (s ! position) \<and> position + 1 < length s \<and> is_low (s ! (position + 1))
      then forwards s (position + 2) count
      else forwards s (position + 1) count)"

definition contextHolds :: "custom_match \<Rightarrow> compiled_context \<Rightarrow> bool scanning" where
  "contextHolds match context' =
     v_bind (v_get tv_text) (\<lambda>s.
       let from' = backwards s (fst match) (cc_window context');
           to = forwards s (snd match) (cc_window context')
       in v_bind lowered (\<lambda>low.
            let around = js_slice low from' to in
            v_bind (v_spend (length around + cc_window context')) (\<lambda>_.
              v_return (list_ex (\<lambda>keyword. has_sub around keyword) (cc_keywords context')))))"

text \<open>Counts per code point in order of first occurrence, summed with \<open>Math.log2\<close>.\<close>

definition char_counts :: "ustring \<Rightarrow> (ustring \<times> nat) list" where
  "char_counts value =
     foldl (\<lambda>counts c. obj_set counts c ((case obj_get counts c of Some n \<Rightarrow> n | None \<Rightarrow> 0) + 1)) [] (chars value)"

definition shannonEntropy :: "ustring \<Rightarrow> real" where
  "shannonEntropy value =
     (let len = real (length (chars value)) in
      foldl (\<lambda>entropy (_, count). entropy - (real count / len) * log 2 (real count / len)) 0 (char_counts value))"

fun anyKeyword :: "ustring list \<Rightarrow> bool scanning" where
  "anyKeyword [] = v_return False"
| "anyKeyword (keyword # keywords) =
     v_bind (v_get (\<lambda>view. length (tv_text view))) (\<lambda>n.
       v_bind (v_spend (ceil_div n 64)) (\<lambda>_.
         v_bind lowered (\<lambda>low.
           if has_sub low keyword then v_return True else anyKeyword keywords)))"

section \<open>Pattern matches\<close>

type_synonym native_engine = "bool \<Rightarrow> ustring \<Rightarrow> ustring \<Rightarrow> custom_match list"

definition wholeTextMatches :: "native_engine \<Rightarrow> pattern_detector \<Rightarrow> custom_match list option scanning" where
  "wholeTextMatches R detector view =
     (let p = pd_pattern detector; key = (sp_caseInsensitive p, sourceOf (sp_alternatives p)) in
      if NATIVE_ATTEMPT_LIMIT < attemptBound p then (view, Inr None)
      else
        case map_of (tv_native view) key of
          Some cached \<Rightarrow> (view, Inr (Some cached))
        | None \<Rightarrow>
            let charge = ceil_div (length (tv_text view) * attemptBound p) NATIVE_STEP_RATIO in
            if remaining (tv_meter view) < int charge then (view, Inr None)
            else
              v_bind (v_spend charge) (\<lambda>_ view.
                let matches = R (fst key) (snd key) (tv_text view)
                in (view\<lparr>tv_native := (key, matches) # tv_native view\<rparr>, Inr (Some matches))) view)"

type_synonym interval = "nat \<times> int"

text \<open>The loop over the anchor's occurrences; the newest interval is the head of \<open>intervals\<close>.
  There are at most as many occurrences as positions, which is the fuel.\<close>

definition add_interval :: "interval \<Rightarrow> interval list \<Rightarrow> interval list" where
  "add_interval iv intervals =
     (case intervals of
        (s, e) # rest \<Rightarrow>
          if int (fst iv) \<le> e + 1 then (s, max e (snd iv)) # rest else iv # intervals
      | [] \<Rightarrow> [iv])"

fun anchor_intervals_loop ::
  "nat \<Rightarrow> ustring \<Rightarrow> pattern_anchor \<Rightarrow> nat option \<Rightarrow> interval list \<Rightarrow> interval list scanning" where
  "anchor_intervals_loop 0 haystack anchor found intervals = v_return intervals"
| "anchor_intervals_loop (Suc n) haystack anchor None intervals = v_return intervals"
| "anchor_intervals_loop (Suc n) haystack anchor (Some found) intervals =
     v_bind (v_spend 1) (\<lambda>_.
       anchor_intervals_loop n haystack anchor (index_of haystack (an_text anchor) (found + 1))
         (if found < an_offsetMin anchor then intervals
          else add_interval (found - an_offsetMax anchor, int found - int (an_offsetMin anchor)) intervals))"

definition anchorIntervals :: "pattern_detector \<Rightarrow> pattern_anchor \<Rightarrow> interval list scanning" where
  "anchorIntervals detector anchor =
     v_bind (if sp_caseInsensitive (pd_pattern detector) then lowered else v_get tv_text) (\<lambda>haystack.
       v_bind (v_spend (ceil_div (length haystack) 64)) (\<lambda>_.
         v_bind (anchor_intervals_loop (length haystack + 1) haystack anchor
                   (index_of haystack (an_text anchor) 0) []) (\<lambda>intervals.
           v_return (rev intervals))))"

text \<open>The \<open>while\<close> loop of one interval: a match is never empty, so an iteration moves the
  position, and the fuel (the positions left in the interval) is enough.\<close>

fun interval_loop ::
  "nat \<Rightarrow> safe_pattern \<Rightarrow> int \<Rightarrow> nat \<Rightarrow> custom_match list \<Rightarrow> (nat \<times> custom_match list) scanning" where
  "interval_loop 0 p end' position matches = v_return (position, matches)"
| "interval_loop (Suc n) p end' position matches =
     (if end' < int position then v_return (position, matches)
      else
        v_bind (v_get tv_text) (\<lambda>s.
          v_bind (metered (matchAt p s position)) (\<lambda>r.
            case r of
              None \<Rightarrow> interval_loop n p end' (position + 1) matches
            | Some e \<Rightarrow> interval_loop n p end' e (matches @ [(position, e)]))))"

fun intervals_loop ::
  "safe_pattern \<Rightarrow> interval list \<Rightarrow> nat \<Rightarrow> custom_match list \<Rightarrow> custom_match list scanning" where
  "intervals_loop p [] position matches = v_return matches"
| "intervals_loop p ((start, end') # intervals) position matches =
     v_bind (interval_loop (nat (end' + 1) - max position start) p end' (max position start) matches)
       (\<lambda>(position, matches). intervals_loop p intervals position matches)"

definition patternMatches :: "native_engine \<Rightarrow> pattern_detector \<Rightarrow> custom_match list scanning" where
  "patternMatches R detector =
     (case sp_anchor (pd_pattern detector) of
        Some anchor \<Rightarrow>
          v_bind (anchorIntervals detector anchor) (\<lambda>intervals.
            intervals_loop (pd_pattern detector) intervals 0 [])
      | None \<Rightarrow>
          (case pd_context detector of
             None \<Rightarrow> v_return []
           | Some context' \<Rightarrow>
               v_bind (anyKeyword (cc_keywords context')) (\<lambda>present.
                 if \<not> present then v_return []
                 else
                   v_bind (wholeTextMatches R detector) (\<lambda>native.
                     case native of
                       Some matches \<Rightarrow> v_return matches
                     | None \<Rightarrow>
                         v_bind (v_get (\<lambda>view. int (length (tv_text view)) - 1)) (\<lambda>end'.
                           intervals_loop (pd_pattern detector) [(0, end')] 0 [])))))"

definition keepPatternMatch :: "pattern_detector \<Rightarrow> custom_match \<Rightarrow> bool scanning" where
  "keepPatternMatch detector match =
     v_bind
       (case pd_minEntropyTenths detector of
          None \<Rightarrow> v_return True
        | Some tenths \<Rightarrow>
            v_bind (v_spend (snd match - fst match)) (\<lambda>_.
              v_get (\<lambda>view. \<not> shannonEntropy (js_slice (tv_text view) (fst match) (snd match)) < real tenths / 10)))
       (\<lambda>ok. if \<not> ok then v_return False
              else case pd_context detector of
                     None \<Rightarrow> v_return True
                   | Some context' \<Rightarrow> contextHolds match context')"

section \<open>Term candidates\<close>

text \<open>The comparator of \<open>resolveTermCandidates\<close>: by start, the longest first.\<close>

definition candidate_le :: "custom_match \<Rightarrow> custom_match \<Rightarrow> bool" where
  "candidate_le a b \<longleftrightarrow>
     fst a < fst b \<or> (fst a = fst b \<and> int (snd b) - int (fst b) \<le> int (snd a) - int (fst a))"

fun keep_disjoint :: "custom_match list \<Rightarrow> custom_match list \<Rightarrow> custom_match list" where
  "keep_disjoint [] kept = kept"
| "keep_disjoint (candidate # candidates) kept =
     (if kept \<noteq> [] \<and> fst candidate < snd (last kept) then keep_disjoint candidates kept
      else keep_disjoint candidates (kept @ [candidate]))"

definition resolveTermCandidates :: "custom_match list \<Rightarrow> custom_match list" where
  "resolveTermCandidates candidates = keep_disjoint (sort_by candidate_le candidates) []"

section \<open>All detectors\<close>

definition wanted_index :: "nat set option \<Rightarrow> nat \<Rightarrow> bool" where
  "wanted_index only index \<longleftrightarrow> (case only of None \<Rightarrow> True | Some s \<Rightarrow> index \<in> s)"

fun pattern_pass ::
  "native_engine \<Rightarrow> nat set option \<Rightarrow> nat \<Rightarrow> compiled_detector list \<Rightarrow> custom_match list list \<Rightarrow>
   custom_match list list scanning" where
  "pattern_pass R only index [] results = v_return results"
| "pattern_pass R only index (TermsDetector _ # ds) results = pattern_pass R only (Suc index) ds results"
| "pattern_pass R only index (PatternDetector d # ds) results =
     (if \<not> wanted_index only index then pattern_pass R only (Suc index) ds results
      else
        v_bind (patternMatches R d) (\<lambda>matches.
          v_bind (v_filter (keepPatternMatch d) matches) (\<lambda>kept.
            v_bind (keep (length kept)) (\<lambda>_.
              pattern_pass R only (Suc index) ds (results[index := kept])))))"

text \<open>The filter of one terms detector on the hits of its group.\<close>

definition hit_admitted :: "terms_detector \<Rightarrow> term_hit \<Rightarrow> bool scanning" where
  "hit_admitted d hit =
     (if \<not> (th_words hit \<le> td_maxWords d \<and> th_digest hit \<in> td_digests d) then v_return False
      else case td_context d of
             None \<Rightarrow> v_return True
           | Some context' \<Rightarrow> contextHolds (th_start hit, th_end hit) context')"

fun members_pass ::
  "compiled_detector list \<Rightarrow> nat set option \<Rightarrow> term_hit list \<Rightarrow> nat list \<Rightarrow> custom_match list list \<Rightarrow>
   custom_match list list scanning" where
  "members_pass detectors only hits [] results = v_return results"
| "members_pass detectors only hits (index # indexes) results =
     (if \<not> wanted_index only index then members_pass detectors only hits indexes results
      else case detectors ! index of
        PatternDetector _ \<Rightarrow> members_pass detectors only hits indexes results
      | TermsDetector d \<Rightarrow>
          v_bind (v_filter (hit_admitted d) hits) (\<lambda>candidates.
            let kept = resolveTermCandidates (map (\<lambda>h. (th_start h, th_end h)) candidates) in
            v_bind (keep (length kept)) (\<lambda>_.
              members_pass detectors only hits indexes (results[index := kept]))))"

fun groups_pass ::
  "compiled_detector list \<Rightarrow> nat set option \<Rightarrow> text_word list \<Rightarrow> term_group list \<Rightarrow>
   custom_match list list \<Rightarrow> custom_match list list scanning" where
  "groups_pass detectors only ws [] results = v_return results"
| "groups_pass detectors only ws (g # gs) results =
     v_bind (metered (findTermHits ws (tg_salt g) (tg_maxWords g) (tg_digests g) (tg_prefixes g))) (\<lambda>hits.
       v_bind (members_pass detectors only hits (tg_detectors g) results) (\<lambda>results.
         groups_pass detectors only ws gs results))"

definition detectAll ::
  "unicode \<Rightarrow> native_engine \<Rightarrow> compiled_detector list \<Rightarrow> term_group list \<Rightarrow> nat set option \<Rightarrow>
   custom_match list list scanning" where
  "detectAll U R detectors groups only =
     v_bind (pattern_pass R only 0 detectors (map (\<lambda>_. []) detectors)) (\<lambda>results.
       let wanted = filter (\<lambda>g. case only of None \<Rightarrow> True
                      | Some s \<Rightarrow> list_ex (\<lambda>index. index \<in> s) (tg_detectors g)) groups
       in if wanted = [] then v_return results
          else v_bind (view_words U) (\<lambda>ws. groups_pass detectors only ws wanted results))"

end
