(* ===== verification/Detect_Correct.thy ===== *)
theory Detect_Correct
  imports Detect
begin

text \<open>
  Correctness of the detection: the anchored interval search returns the leftmost
  non-overlapping matches of the whole text, the context window is the contract's window in
  code points, sharing a hashing pass between terms detectors changes no result, and
  \<open>detectAll\<close> returns for every detector exactly what the contract defines, within the limit on
  kept matches. Operations are proved with triples on the view: the value and the state of
  a run that returns.
\<close>

section \<open>Triples\<close>

definition triple :: "(text_view \<Rightarrow> bool) \<Rightarrow> 'a scanning \<Rightarrow> ('a \<Rightarrow> text_view \<Rightarrow> bool) \<Rightarrow> bool" where
  "triple P f Q \<longleftrightarrow> (\<forall>view view' x. P view \<longrightarrow> f view = (view', Inr x) \<longrightarrow> Q x view')"

lemma tripleI: "(\<And>view view' x. P view \<Longrightarrow> f view = (view', Inr x) \<Longrightarrow> Q x view') \<Longrightarrow> triple P f Q"
  by (auto simp: triple_def)

lemma tripleD: "triple P f Q \<Longrightarrow> P view \<Longrightarrow> f view = (view', Inr x) \<Longrightarrow> Q x view'"
  by (auto simp: triple_def)

lemma triple_bind: "triple P f Q \<Longrightarrow> (\<And>x. triple (Q x) (g x) T) \<Longrightarrow> triple P (v_bind f g) T"
  unfolding triple_def v_bind_def by (fastforce split: prod.splits sum.splits)

lemma triple_return: "(\<And>view. P view \<Longrightarrow> Q x view) \<Longrightarrow> triple P (v_return x) Q"
  by (auto simp: triple_def v_return_def)

lemma triple_get: "(\<And>view. P view \<Longrightarrow> Q (f view) view) \<Longrightarrow> triple P (v_get f) Q"
  by (auto simp: triple_def v_get_def)

lemma triple_weaken:
  "triple P f Q \<Longrightarrow> (\<And>view. P' view \<Longrightarrow> P view) \<Longrightarrow> (\<And>x view. Q x view \<Longrightarrow> Q' x view) \<Longrightarrow> triple P' f Q'"
  unfolding triple_def by blast

lemma triple_pre: "(\<And>view. P view \<Longrightarrow> A) \<Longrightarrow> (A \<Longrightarrow> triple P f Q) \<Longrightarrow> triple P f Q"
  by (auto simp: triple_def)

lemma triple_False: "triple (\<lambda>view. x = y \<and> P view) f Q \<longleftrightarrow> (x = y \<longrightarrow> triple P f Q)"
  by (auto simp: triple_def)

text \<open>The invariant of a view on \<open>s\<close> that has kept \<open>k\<close> matches of at most \<open>mx\<close>: the lazily
  computed parts hold what their getters would compute.\<close>

record scan_context =
  sx_unicode :: unicode
  sx_native :: native_engine
  sx_text :: ustring
  sx_max :: "nat option"

definition view_ok :: "scan_context \<Rightarrow> nat \<Rightarrow> text_view \<Rightarrow> bool" where
  "view_ok S k view \<longleftrightarrow>
     tv_text view = sx_text S \<and> tv_maxMatches view = sx_max S \<and> tv_matches view = k \<and>
     (\<forall>l. tv_lowered view = Some l \<longrightarrow> l = asciiLower (sx_text S)) \<and>
     (\<forall>ws. tv_words view = Some ws \<longrightarrow> (\<exists>m m'. textWords (sx_unicode S) (sx_text S) m = (m', Inr ws))) \<and>
     (\<forall>ci src ms. ((ci, src), ms) \<in> set (tv_native view) \<longrightarrow> ms = sx_native S ci src (sx_text S))"

lemma view_ok_new: "view_ok \<lparr>sx_unicode = U, sx_native = R, sx_text = s, sx_max = mx\<rparr> 0 (new_view s m mx)"
  by (simp add: view_ok_def new_view_def)

lemma view_ok_meter [simp]: "view_ok S k (view\<lparr>tv_meter := m\<rparr>) = view_ok S k view"
  by (simp add: view_ok_def)

definition returns :: "scan_context \<Rightarrow> 'a scanning \<Rightarrow> 'a \<Rightarrow> bool" where
  "returns S f v \<longleftrightarrow> (\<forall>k. triple (view_ok S k) f (\<lambda>x view. x = v \<and> view_ok S k view))"

lemma returnsD: "returns S f v \<Longrightarrow> triple (view_ok S k) f (\<lambda>x view. x = v \<and> view_ok S k view)"
  by (simp add: returns_def)

lemma returns_bind: "returns S f v \<Longrightarrow> returns S (g v) w \<Longrightarrow> returns S (v_bind f g) w"
  unfolding returns_def
  by (intro allI, rule triple_bind, blast) (simp add: triple_False)

lemma returns_return [intro]: "v = w \<Longrightarrow> returns S (v_return v) w"
  by (simp add: returns_def triple_return)

lemma returns_get: "(\<And>k view. view_ok S k view \<Longrightarrow> f view = v) \<Longrightarrow> returns S (v_get f) v"
  by (auto simp: returns_def intro: triple_get)

lemma returns_text: "returns S (v_get tv_text) (sx_text S)"
  by (rule returns_get) (simp add: view_ok_def)

lemma returns_metered: "(\<And>m m' x. f m = (m', Inr x) \<Longrightarrow> x = v) \<Longrightarrow> returns S (metered f) v"
  unfolding returns_def metered_def by (intro allI tripleI) (auto split: prod.splits)

lemma returns_spend: "returns S (v_spend n) ()"
  unfolding v_spend_def by (rule returns_metered) simp

lemma returns_spend_bind: "returns S (g ()) w \<Longrightarrow> returns S (v_bind (v_spend n) g) w"
  by (rule returns_bind [OF returns_spend])

lemma returns_lowered: "returns S lowered (asciiLower (sx_text S))"
  unfolding returns_def
proof (intro allI tripleI)
  fix k view view' x
  assume ok: "view_ok S k view" and r: "lowered view = (view', Inr x)"
  show "x = asciiLower (sx_text S) \<and> view_ok S k view'"
  proof (cases "tv_lowered view")
    case None
    with ok r show ?thesis
      by (auto simp: lowered_def v_bind_def v_spend_def metered_def Let_def view_ok_def split: prod.splits sum.splits)
  next
    case (Some l)
    with ok r show ?thesis by (auto simp: lowered_def view_ok_def)
  qed
qed

lemma returns_filter:
  "(\<And>x. x \<in> set xs \<Longrightarrow> returns S (p x) (P x)) \<Longrightarrow> returns S (v_filter p xs) (filter P xs)"
proof (induction xs)
  case Nil
  then show ?case by auto
next
  case (Cons x xs)
  have "returns S (v_filter p xs) (filter P xs)" by (rule Cons.IH) (simp add: Cons.prems)
  moreover have "returns S (p x) (P x)" by (rule Cons.prems) simp
  ultimately show ?case by (auto intro!: returns_bind)
qed

section \<open>Context\<close>

definition context_in :: "ustring \<Rightarrow> compiled_context \<Rightarrow> custom_match \<Rightarrow> bool" where
  "context_in s c match \<longleftrightarrow>
     list_ex (has_sub (js_slice (asciiLower s) (backwards s (fst match) (cc_window c))
                         (forwards s (snd match) (cc_window c)))) (cc_keywords c)"

lemma returns_context: "returns S (contextHolds match c) (context_in (sx_text S) c match)"
  unfolding contextHolds_def Let_def
  by (intro returns_bind [OF returns_text] returns_bind [OF returns_lowered] returns_spend_bind returns_return)
    (simp add: context_in_def)

lemma returns_anyKeyword: "returns S (anyKeyword ks) (list_ex (has_sub (asciiLower (sx_text S))) ks)"
proof (induction ks)
  case (Cons k ks)
  have "returns S (v_get (\<lambda>view. length (tv_text view))) (length (sx_text S))"
    by (rule returns_get) (simp add: view_ok_def)
  then show ?case
    using Cons unfolding anyKeyword.simps
    by (intro returns_bind [where f = "v_get _"] returns_spend_bind returns_bind [OF returns_lowered]) auto
qed auto

section \<open>The search for pattern matches\<close>

text \<open>\<open>matchAll\<close>: the leftmost match from each position on, resuming at its end.\<close>

function scan_from :: "safe_pattern \<Rightarrow> ustring \<Rightarrow> nat \<Rightarrow> custom_match list" where
  "scan_from p s pos =
     (if length s < pos then []
      else case ecma_match p s pos of
        Some e \<Rightarrow> (pos, e) # scan_from p s (max e (pos + 1))
      | None \<Rightarrow> scan_from p s (pos + 1))"
  by pat_completeness auto
termination by (relation "measure (\<lambda>(p, s, pos). Suc (length s) - pos)") auto

declare scan_from.simps [simp del]

definition ecma_all :: "safe_pattern \<Rightarrow> ustring \<Rightarrow> custom_match list" where
  "ecma_all p s = scan_from p s 0"

definition accepted :: "safe_pattern \<Rightarrow> bool" where
  "accepted p \<longleftrightarrow> (\<exists>source hasContext ci. validatePattern source hasContext ci = Inr p)"

lemma accepted_match:
  assumes "accepted p" and "ecma_match p s pos = Some e"
  shows "pos < e" and "pos < length s" and "e \<le> length s"
proof -
  from assms(1) obtain source hasContext ci where v: "validatePattern source hasContext ci = Inr p"
    by (auto simp: accepted_def)
  from ecma_match_Some [OF v assms(2)] validatePattern_Inr [OF v] 
  show "pos < length s" "e \<le> length s" by auto
  have "3 \<le> minimumLength (sp_alternatives p)"
    by (rule validatePattern_Inr [OF v]) (simp add: MIN_MATCH_LENGTH_def)
  with ecma_match_Some(2) [OF v assms(2)] show "pos < e" by simp
qed

lemma scan_from_end: "accepted p \<Longrightarrow> length s \<le> pos \<Longrightarrow> scan_from p s pos = []"
  using accepted_match(2) [of p s pos] accepted_match(2) [of p s "Suc pos"]
  by (subst scan_from.simps, subst scan_from.simps) (auto split: option.splits)

lemma scan_from_None: "accepted p \<Longrightarrow> ecma_match p s pos = None \<Longrightarrow> scan_from p s pos = scan_from p s (pos + 1)"
  using scan_from_end [of p s pos] scan_from_end [of p s "pos + 1"]
  by (cases "length s < pos") (simp, subst scan_from.simps, simp)

lemma scan_from_Some:
  "accepted p \<Longrightarrow> ecma_match p s pos = Some e \<Longrightarrow> scan_from p s pos = (pos, e) # scan_from p s e"
  using accepted_match [of p s pos e]
  by (subst scan_from.simps) (auto simp: max_def dest: le_antisym)

lemma scan_from_skip:
  assumes "accepted p" and "a \<le> b" and "\<And>q. a \<le> q \<Longrightarrow> q < b \<Longrightarrow> ecma_match p s q = None"
  shows "scan_from p s a = scan_from p s b"
  using assms(2,3)
proof (induction "b - a" arbitrary: a)
  case (Suc n)
  then have "scan_from p s (a + 1) = scan_from p s b" by simp
  moreover have "scan_from p s a = scan_from p s (a + 1)"
    using Suc.hyps(2) Suc.prems by (intro scan_from_None assms(1)) simp
  ultimately show ?case by simp
qed simp

lemma matchAt_value:
  assumes "accepted p" and "matchAt p s pos m = (m', Inr r)"
  shows "r = ecma_match p s pos"
  using assms by (auto simp: accepted_def intro: computes_result [OF matchAt_computes])

lemma returns_interval:
  assumes acc: "accepted p"
  shows "nat (end' + 1) - position \<le> n \<Longrightarrow>
    \<exists>position' found. returns S (interval_loop n p end' position matches) (position', matches @ found) \<and>
      end' < int position' \<and> position \<le> position' \<and>
      scan_from p (sx_text S) position = found @ scan_from p (sx_text S) position'"
proof (induction n arbitrary: position matches)
  case 0
  then have "end' < int position" by simp
  then show ?case by (intro exI [of _ position] exI [of _ "[]"]) auto
next
  case (Suc n)
  let ?s = "sx_text S"
  show ?case
  proof (cases "end' < int position")
    case True
    then show ?thesis by (intro exI [of _ position] exI [of _ "[]"]) auto
  next
    case False
    have m: "returns S (metered (matchAt p ?s position)) (ecma_match p ?s position)"
      by (rule returns_metered) (rule matchAt_value [OF acc])
    have step: "returns S (v_bind (v_get tv_text) (\<lambda>s. v_bind (metered (matchAt p s position)) g)) w"
      if "returns S (g (ecma_match p ?s position)) w" for g :: "nat option \<Rightarrow> (nat \<times> custom_match list) scanning" and w
      using returns_bind [OF m, where g = g] that
      by (intro returns_bind [where f = "v_get tv_text" and v = ?s]) (simp_all add: returns_text)
    show ?thesis
    proof (cases "ecma_match p ?s position")
      case None
      have "nat (end' + 1) - (position + 1) \<le> n" using Suc.prems by simp
      from Suc.IH [OF this, of matches] obtain position' found where ih:
        "returns S (interval_loop n p end' (position + 1) matches) (position', matches @ found)"
        "end' < int position'" "position + 1 \<le> position'"
        "scan_from p ?s (position + 1) = found @ scan_from p ?s position'" by blast
      have "returns S (interval_loop (Suc n) p end' position matches) (position', matches @ found)"
        using False ih(1) None by (simp only: interval_loop.simps if_False) (rule step, simp)
      with ih None scan_from_None [OF acc None] show ?thesis by (metis add_leD1)
    next
      case (Some e)
      note lt = accepted_match(1) [OF acc Some]
      have "nat (end' + 1) - e \<le> n" using Suc.prems lt by simp
      from Suc.IH [OF this, of "matches @ [(position, e)]"] obtain position' found where ih:
        "returns S (interval_loop n p end' e (matches @ [(position, e)])) (position', (matches @ [(position, e)]) @ found)"
        "end' < int position'" "e \<le> position'"
        "scan_from p ?s e = found @ scan_from p ?s position'" by blast
      have "returns S (interval_loop (Suc n) p end' position matches) (position', matches @ (position, e) # found)"
        using False ih(1) Some by (simp only: interval_loop.simps if_False) (rule step, simp)
      moreover have "scan_from p ?s position = ((position, e) # found) @ scan_from p ?s position'"
        using scan_from_Some [OF acc Some] ih(4) by simp
      ultimately show ?thesis using ih(2,3) lt by (metis less_imp_le order.trans)
    qed
  qed
qed

text \<open>Intervals in order of their starts that cover every match start from a position on.\<close>

definition covers :: "(nat \<Rightarrow> bool) \<Rightarrow> nat \<Rightarrow> interval list \<Rightarrow> bool" where
  "covers Q pos intervals \<longleftrightarrow>
     (\<forall>q. pos \<le> q \<longrightarrow> Q q \<longrightarrow> (\<exists>iv \<in> set intervals. fst iv \<le> q \<and> int q \<le> snd iv))"

lemma coversD: "covers Q pos intervals \<Longrightarrow> pos \<le> q \<Longrightarrow> Q q \<Longrightarrow> \<exists>iv \<in> set intervals. fst iv \<le> q \<and> int q \<le> snd iv"
  by (simp add: covers_def)

lemma returns_intervals:
  assumes acc: "accepted p"
  shows "sorted (map fst intervals) \<Longrightarrow>
    covers (\<lambda>q. ecma_match p (sx_text S) q \<noteq> None) position intervals \<Longrightarrow>
    returns S (intervals_loop p intervals position matches) (matches @ scan_from p (sx_text S) position)"
proof (induction intervals arbitrary: position matches)
  case Nil
  have "scan_from p (sx_text S) position = scan_from p (sx_text S) (max position (length (sx_text S)))"
    using Nil by (intro scan_from_skip acc) (auto simp: covers_def)
  also have "\<dots> = []" by (rule scan_from_end [OF acc]) simp
  finally show ?case by auto
next
  case (Cons iv intervals)
  obtain st en where iv: "iv = (st, en)" by (cases iv)
  let ?s = "sx_text S" and ?pos = "max position st"
  from returns_interval [OF acc order.refl, where end' = en and position = ?pos and matches = matches and S = S] obtain position' found where ih:
    "returns S (interval_loop (nat (en + 1) - ?pos) p en ?pos matches) (position', matches @ found)"
    "en < int position'" "?pos \<le> position'"
    "scan_from p ?s ?pos = found @ scan_from p ?s position'" by blast
  have "ecma_match p ?s q = None" if "position \<le> q" "q < ?pos" for q
  proof (rule ccontr)
    assume "ecma_match p ?s q \<noteq> None"
    from coversD [OF Cons.prems(2) that(1) this] obtain i where "i \<in> set (iv # intervals)" "fst i \<le> q"
      by blast
    moreover from this(1) have "st \<le> fst i" using Cons.prems(1) iv by auto
    ultimately show False using that by simp
  qed
  then have skip: "scan_from p ?s position = scan_from p ?s ?pos"
    by (intro scan_from_skip acc) auto
  have cov: "covers (\<lambda>q. ecma_match p ?s q \<noteq> None) position' intervals"
    unfolding covers_def
  proof (intro allI impI)
    fix q assume q: "position' \<le> q" and m: "ecma_match p ?s q \<noteq> None"
    from q ih(3) have "position \<le> q" by simp
    from coversD [OF Cons.prems(2) this m] obtain i where
      i: "i \<in> set (iv # intervals)" "fst i \<le> q" "int q \<le> snd i" by blast
    from i(3) ih(2) q iv have "i \<noteq> iv" by auto
    with i show "\<exists>iv \<in> set intervals. fst iv \<le> q \<and> int q \<le> snd iv" by auto
  qed
  have "sorted (map fst intervals)" using Cons.prems(1) by simp
  from Cons.IH [OF this cov, of "matches @ found"] have rest:
    "returns S (intervals_loop p intervals position' (matches @ found)) (matches @ scan_from p ?s position)"
    using skip ih(4) by simp
  show ?case
    unfolding iv intervals_loop.simps by (rule returns_bind [OF ih(1)]) (simp add: rest)
qed

section \<open>The anchor's intervals\<close>

text \<open>The invariant of the loop: newest first, starts in order, and every occurrence before
  the next one has its window inside an interval.\<close>

definition window_of :: "pattern_anchor \<Rightarrow> nat \<Rightarrow> nat \<Rightarrow> bool" where
  "window_of a f q \<longleftrightarrow> an_offsetMin a \<le> f \<and> f - an_offsetMax a \<le> q \<and> int q \<le> int f - int (an_offsetMin a)"

definition intervals_inv :: "pattern_anchor \<Rightarrow> nat \<Rightarrow> (nat \<Rightarrow> bool) \<Rightarrow> interval list \<Rightarrow> bool" where
  "intervals_inv a bound occ ivs \<longleftrightarrow>
     sorted (map fst (rev ivs)) \<and> (\<forall>iv \<in> set ivs. fst iv \<le> bound - an_offsetMax a) \<and>
     (\<forall>f q. occ f \<longrightarrow> window_of a f q \<longrightarrow> (\<exists>iv \<in> set ivs. fst iv \<le> q \<and> int q \<le> snd iv))"

lemma add_interval_inv:
  assumes inv: "intervals_inv a found occ ivs" and "an_offsetMin a \<le> found"
  shows "intervals_inv a found (\<lambda>f. occ f \<or> f = found)
    (add_interval (found - an_offsetMax a, int found - int (an_offsetMin a)) ivs)"
proof (cases ivs)
  case Nil
  with inv show ?thesis
    by (auto simp: intervals_inv_def add_interval_def window_of_def)
next
  case (Cons iv rest)
  obtain s e where iv: "iv = (s, e)" by (cases iv)
  let ?st = "found - an_offsetMax a" and ?en = "int found - int (an_offsetMin a)"
  from inv Cons iv have s: "s \<le> ?st" and srt: "sorted (map fst (rev rest))" "\<forall>i \<in> set rest. fst i \<le> s"
    and le: "\<forall>i \<in> set rest. fst i \<le> ?st"
    and cov: "\<And>f q. occ f \<Longrightarrow> window_of a f q \<Longrightarrow> \<exists>i \<in> set ((s, e) # rest). fst i \<le> q \<and> int q \<le> snd i"
    by (auto simp: intervals_inv_def sorted_append)
  show ?thesis
  proof (cases "int ?st \<le> e + 1")
    case True
    then have add: "add_interval (?st, ?en) ivs = (s, max e ?en) # rest"
      by (simp add: add_interval_def Cons iv)
    have "\<exists>i \<in> set ((s, max e ?en) # rest). fst i \<le> q \<and> int q \<le> snd i"
      if "occ f \<or> f = found" "window_of a f q" for f q
    proof (cases "f = found")
      case True
      with that(2) s have "s \<le> q" "int q \<le> max e ?en" by (auto simp: window_of_def)
      then show ?thesis by auto
    next
      case False
      with that cov [of f q] show ?thesis by force
    qed
    with srt le s show ?thesis unfolding add intervals_inv_def by (auto simp: sorted_append)
  next
    case False
    then have add: "add_interval (?st, ?en) ivs = (?st, ?en) # (s, e) # rest"
      by (simp add: add_interval_def Cons iv)
    have "\<exists>i \<in> set ((?st, ?en) # (s, e) # rest). fst i \<le> q \<and> int q \<le> snd i"
      if "occ f \<or> f = found" "window_of a f q" for f q
      using that cov [of f q] by (cases "f = found") (auto simp: window_of_def)
    with srt le s show ?thesis unfolding add intervals_inv_def by (auto simp: sorted_append)
  qed
qed

lemma intervals_inv_mono:
  "intervals_inv a found occ ivs \<Longrightarrow> found \<le> found' \<Longrightarrow> (\<And>f q. occ' f \<Longrightarrow> window_of a f q \<Longrightarrow> occ f) \<Longrightarrow>
     intervals_inv a found' occ' ivs"
  unfolding intervals_inv_def by (meson diff_le_mono order.trans)

lemma returns_anchor_loop:
  assumes "an_text a \<noteq> []"
  shows "length h + 1 \<le> n + from' \<Longrightarrow>
    intervals_inv a from' (\<lambda>f. f < from' \<and> starts_at h (an_text a) f) ivs \<Longrightarrow>
    \<exists>ivs' b. returns S (anchor_intervals_loop n h a (index_of h (an_text a) from') ivs) ivs' \<and>
      intervals_inv a b (\<lambda>f. starts_at h (an_text a) f) ivs'"
proof (induction n arbitrary: from' ivs)
  case 0
  have "f < from'" if "starts_at h (an_text a) f" for f
    using starts_at_bound [OF that assms] 0(1) by simp
  with 0(2) have "intervals_inv a from' (\<lambda>f. starts_at h (an_text a) f) ivs"
    by (elim intervals_inv_mono) auto
  then show ?case by auto
next
  case (Suc n)
  show ?case
  proof (cases "index_of h (an_text a) from'")
    case None
    have "intervals_inv a from' (\<lambda>f. starts_at h (an_text a) f) ivs"
      by (rule intervals_inv_mono [OF Suc.prems(2)])
        (use index_of_None [OF None assms] in \<open>auto simp: not_le [symmetric]\<close>)
    with None show ?thesis by auto
  next
    case (Some f0)
    note f0 = index_of_Some [OF Some]
    let ?ivs = "if f0 < an_offsetMin a then ivs
          else add_interval (f0 - an_offsetMax a, int f0 - int (an_offsetMin a)) ivs"
    have old: "intervals_inv a f0 (\<lambda>f. f < f0 \<and> starts_at h (an_text a) f) ivs"
      by (rule intervals_inv_mono [OF Suc.prems(2) f0(1)]) (use f0(3) in \<open>auto simp: not_le [symmetric]\<close>)
    have "intervals_inv a (f0 + 1) (\<lambda>f. f < f0 + 1 \<and> starts_at h (an_text a) f) ?ivs"
    proof (cases "f0 < an_offsetMin a")
      case True
      have "intervals_inv a (f0 + 1) (\<lambda>f. f < f0 + 1 \<and> starts_at h (an_text a) f) ivs"
        by (rule intervals_inv_mono [OF old]) (use True in \<open>auto simp: window_of_def less_Suc_eq\<close>)
      with True show ?thesis by simp
    next
      case False
      then have "an_offsetMin a \<le> f0" by simp
      from intervals_inv_mono [OF add_interval_inv [OF old this], of "f0 + 1"
          "\<lambda>f. f < f0 + 1 \<and> starts_at h (an_text a) f"] False
      show ?thesis by (auto simp: less_Suc_eq)
    qed
    moreover have "length h + 1 \<le> n + (f0 + 1)" using Suc.prems(1) f0(1) by simp
    ultimately obtain ivs' b where ih:
      "returns S (anchor_intervals_loop n h a (index_of h (an_text a) (f0 + 1)) ?ivs) ivs'"
      "intervals_inv a b (\<lambda>f. starts_at h (an_text a) f) ivs'" using Suc.IH by blast
    then show ?thesis unfolding Some anchor_intervals_loop.simps by (blast intro: returns_spend_bind)
  qed
qed

lemma anchor_in_match:
  assumes "validatePattern source hasContext ci = Inr p" and "sp_anchor p = Some a"
    and "ecma_match p s start = Some e"
  shows "\<exists>off. an_offsetMin a \<le> off \<and> off \<le> an_offsetMax a \<and>
    starts_at (if ci then asciiLower s else s) (an_text a) (start + off)"
proof -
  from assms(1) have "wf_alternatives (sp_alternatives p)" "findAnchor (sp_alternatives p) ci = Some a"
    using assms(2) by (auto elim: validatePattern_Inr)
  from findAnchor_in_match [OF this ecma_match_Some(1) [OF assms(1,3)]] show ?thesis by blast
qed

lemma findAnchor_nonempty: "findAnchor alts ci = Some a \<Longrightarrow> an_text a \<noteq> []"
proof -
  assume "findAnchor alts ci = Some a"
  then obtain terms start len where run: "anchor_loop terms 0 None = Some (start, len)"
    and text': "an_text a = (let l = map term_code (sublist_at terms start (start + len)) in if ci then asciiLower l else l)"
    by (auto simp: findAnchor_def Let_def split: list.splits option.splits if_splits)
  have "length (an_text a) = len"
    using anchor_loop_run [OF run] by (auto simp: text' literal_run_def asciiLower_def Let_def)
  with anchor_loop_run [OF run] show ?thesis by (auto simp: literal_run_def MIN_ANCHOR_LENGTH_def)
qed

lemma returns_anchorIntervals:
  assumes acc: "accepted (pd_pattern d)" and anchor: "sp_anchor (pd_pattern d) = Some a"
  shows "\<exists>ivs. returns S (anchorIntervals d a) ivs \<and> sorted (map fst ivs) \<and>
    covers (\<lambda>q. ecma_match (pd_pattern d) (sx_text S) q \<noteq> None) 0 ivs"
proof -
  from acc obtain source hasContext ci where v: "validatePattern source hasContext ci = Inr (pd_pattern d)"
    by (auto simp: accepted_def)
  let ?s = "sx_text S" and ?p = "pd_pattern d"
  let ?h = "if sp_caseInsensitive ?p then asciiLower ?s else ?s"
  have ci: "sp_caseInsensitive ?p = ci" using v by (auto elim: validatePattern_Inr)
  have h: "returns S (if sp_caseInsensitive ?p then lowered else v_get tv_text) ?h"
    using returns_lowered returns_text by simp
  have fa: "findAnchor (sp_alternatives ?p) ci = Some a"
    using anchor v by (auto elim: validatePattern_Inr)
  then have nonempty: "an_text a \<noteq> []" by (rule findAnchor_nonempty)
  have "intervals_inv a 0 (\<lambda>f. f < 0 \<and> starts_at ?h (an_text a) f) []"
    by (simp add: intervals_inv_def)
  from returns_anchor_loop [OF nonempty _ this, of "length ?h + 1" S] obtain ivs b where
    l: "returns S (anchor_intervals_loop (length ?h + 1) ?h a (index_of ?h (an_text a) 0) []) ivs"
    and inv: "intervals_inv a b (\<lambda>f. starts_at ?h (an_text a) f) ivs" by auto
  have "returns S (anchorIntervals d a) (rev ivs)"
    unfolding anchorIntervals_def
    by (rule returns_bind [OF h], rule returns_spend_bind, rule returns_bind [OF l], rule returns_return) simp
  moreover have "covers (\<lambda>q. ecma_match ?p ?s q \<noteq> None) 0 (rev ivs)"
    unfolding covers_def
  proof (intro allI impI)
    fix q assume "ecma_match ?p ?s q \<noteq> None"
    then obtain e where "ecma_match ?p ?s q = Some e" by blast
    from anchor_in_match [OF v anchor this] ci obtain off where
      off: "an_offsetMin a \<le> off" "off \<le> an_offsetMax a" "starts_at ?h (an_text a) (q + off)" by auto
    then have "window_of a (q + off) q" by (simp add: window_of_def)
    with inv off(3) show "\<exists>iv \<in> set (rev ivs). fst iv \<le> q \<and> int q \<le> snd iv"
      unfolding intervals_inv_def by simp
  qed
  moreover have "sorted (map fst (rev ivs))" using inv by (simp add: intervals_inv_def)
  ultimately show ?thesis by blast
qed

section \<open>Matches and filters of a pattern detector\<close>

definition native_law :: "scan_context \<Rightarrow> safe_pattern \<Rightarrow> bool" where
  "native_law S p \<longleftrightarrow>
     sx_native S (sp_caseInsensitive p) (sourceOf (sp_alternatives p)) (sx_text S) = ecma_all p (sx_text S)"

lemma native_matches:
  assumes "native_law S (pd_pattern d)"
  shows "triple (view_ok S k) (wholeTextMatches (sx_native S) d)
    (\<lambda>r view. (r = None \<or> r = Some (ecma_all (pd_pattern d) (sx_text S))) \<and> view_ok S k view)"
proof (rule tripleI)
  fix view view' r
  assume ok: "view_ok S k view" and run: "wholeTextMatches (sx_native S) d view = (view', Inr r)"
  let ?p = "pd_pattern d"
  let ?key = "(sp_caseInsensitive ?p, sourceOf (sp_alternatives ?p))"
  let ?charge = "ceil_div (length (tv_text view) * attemptBound ?p) NATIVE_STEP_RATIO"
  have key: "sx_native S (fst ?key) (snd ?key) (sx_text S) = ecma_all ?p (sx_text S)"
    using assms by (simp add: native_law_def)
  consider "NATIVE_ATTEMPT_LIMIT < attemptBound ?p"
    | ms where "\<not> NATIVE_ATTEMPT_LIMIT < attemptBound ?p" "map_of (tv_native view) ?key = Some ms"
    | "\<not> NATIVE_ATTEMPT_LIMIT < attemptBound ?p" "map_of (tv_native view) ?key = None"
      "remaining (tv_meter view) < int ?charge"
    | "\<not> NATIVE_ATTEMPT_LIMIT < attemptBound ?p" "map_of (tv_native view) ?key = None"
      "\<not> remaining (tv_meter view) < int ?charge" by fastforce
  then show "(r = None \<or> r = Some (ecma_all ?p (sx_text S))) \<and> view_ok S k view'"
  proof cases
    case 2
    then have "(?key, ms) \<in> set (tv_native view)" by (blast intro: map_of_SomeD)
    with ok key have "ms = ecma_all ?p (sx_text S)" by (auto simp: view_ok_def)
    with 2 run ok show ?thesis by (simp add: wholeTextMatches_def Let_def)
  next
    case 4
    with run obtain m where "view' = view\<lparr>tv_meter := m,
        tv_native := (?key, sx_native S (fst ?key) (snd ?key) (tv_text view)) # tv_native view\<rparr>"
      and "r = Some (sx_native S (fst ?key) (snd ?key) (tv_text view))"
      by (auto simp: wholeTextMatches_def Let_def v_bind_def v_spend_def metered_def split: prod.splits sum.splits)
    with ok key show ?thesis by (auto simp: view_ok_def)
  qed (use run ok in \<open>simp_all add: wholeTextMatches_def Let_def\<close>)
qed

definition pattern_candidates :: "ustring \<Rightarrow> pattern_detector \<Rightarrow> custom_match list" where
  "pattern_candidates s d =
     (if sp_anchor (pd_pattern d) \<noteq> None \<or>
         (\<exists>c. pd_context d = Some c \<and> list_ex (has_sub (asciiLower s)) (cc_keywords c))
      then ecma_all (pd_pattern d) s else [])"

lemma returns_patternMatches:
  assumes acc: "accepted (pd_pattern d)" and law: "sp_anchor (pd_pattern d) = None \<Longrightarrow> native_law S (pd_pattern d)"
  shows "returns S (patternMatches (sx_native S) d) (pattern_candidates (sx_text S) d)"
proof (cases "sp_anchor (pd_pattern d)")
  case (Some a)
  from returns_anchorIntervals [OF acc Some, of S] obtain ivs where
    ivs: "returns S (anchorIntervals d a) ivs" "sorted (map fst ivs)"
    "covers (\<lambda>q. ecma_match (pd_pattern d) (sx_text S) q \<noteq> None) 0 ivs" by blast
  have "returns S (intervals_loop (pd_pattern d) ivs 0 []) (ecma_all (pd_pattern d) (sx_text S))"
    using returns_intervals [OF acc ivs(2,3), of "[]"] by (simp add: ecma_all_def)
  with Some show ?thesis
    by (simp add: patternMatches_def pattern_candidates_def returns_bind [OF ivs(1)])
next
  case None
  show ?thesis
  proof (cases "pd_context d")
    case None
    with \<open>sp_anchor _ = None\<close> show ?thesis
      by (auto simp: patternMatches_def pattern_candidates_def)
  next
    case (Some c)
    let ?s = "sx_text S" and ?p = "pd_pattern d"
    have cov: "covers (\<lambda>q. ecma_match ?p ?s q \<noteq> None) 0 [(0, int (length ?s) - 1)]"
      using accepted_match(2) [OF acc] by (fastforce simp: covers_def)
    have whole: "returns S (intervals_loop ?p [(0, int (length ?s) - 1)] 0 []) (ecma_all ?p ?s)"
      using returns_intervals [OF acc _ cov, of "[]"] by (simp add: ecma_all_def)
    have len: "returns S (v_get (\<lambda>view. int (length (tv_text view)) - 1)) (int (length ?s) - 1)"
      by (rule returns_get) (simp add: view_ok_def)
    have tail: "returns S (v_bind (v_get (\<lambda>view. int (length (tv_text view)) - 1)) (\<lambda>end'. intervals_loop ?p [(0, end')] 0 []))
        (ecma_all ?p ?s)"
      using returns_bind [where g = "\<lambda>end'. intervals_loop ?p [(0, end')] 0 []", OF len] whole by blast
    let ?k = "\<lambda>native. case native of Some matches \<Rightarrow> v_return matches
       | None \<Rightarrow> v_bind (v_get (\<lambda>view. int (length (tv_text view)) - 1)) (\<lambda>end'. intervals_loop ?p [(0, end')] 0 [])"
    have rest: "returns S (v_bind (wholeTextMatches (sx_native S) d) ?k) (ecma_all ?p ?s)"
      unfolding returns_def
    proof (intro allI triple_bind [OF native_matches [OF law [OF \<open>sp_anchor _ = None\<close>]]])
      fix k r
      have "triple (view_ok S k) (?k r) (\<lambda>x view. x = ecma_all ?p ?s \<and> view_ok S k view)"
        if "r = None \<or> r = Some (ecma_all ?p ?s)"
        using that returnsD [OF tail]
        by (auto intro: triple_return)
      then show "triple (\<lambda>view. (r = None \<or> r = Some (ecma_all ?p ?s)) \<and> view_ok S k view) (?k r)
          (\<lambda>x view. x = ecma_all ?p ?s \<and> view_ok S k view)"
        by (auto simp: triple_def)
    qed
    from Some \<open>sp_anchor _ = None\<close> show ?thesis
      unfolding patternMatches_def pattern_candidates_def
      by (auto simp del: intervals_loop.simps intro!: returns_bind [OF returns_anyKeyword] rest)
  qed
qed

definition pattern_kept :: "ustring \<Rightarrow> pattern_detector \<Rightarrow> custom_match \<Rightarrow> bool" where
  "pattern_kept s d match \<longleftrightarrow>
     (\<forall>tenths. pd_minEntropyTenths d = Some tenths \<longrightarrow>
        real tenths / 10 \<le> shannonEntropy (js_slice s (fst match) (snd match))) \<and>
     (\<forall>c. pd_context d = Some c \<longrightarrow> context_in s c match)"

lemma returns_keepPatternMatch: "returns S (keepPatternMatch d match) (pattern_kept (sx_text S) d match)"
proof -
  let ?e = "\<forall>tenths. pd_minEntropyTenths d = Some tenths \<longrightarrow>
        real tenths / 10 \<le> shannonEntropy (js_slice (sx_text S) (fst match) (snd match))"
  let ?f = "case pd_minEntropyTenths d of
          None \<Rightarrow> v_return True
        | Some tenths \<Rightarrow>
            v_bind (v_spend (snd match - fst match)) (\<lambda>_.
              v_get (\<lambda>view. \<not> shannonEntropy (js_slice (tv_text view) (fst match) (snd match)) < real tenths / 10))"
  have "returns S ?f ?e"
  proof (cases "pd_minEntropyTenths d")
    case (Some t)
    have "returns S (v_get (\<lambda>view. \<not> shannonEntropy (js_slice (tv_text view) (fst match) (snd match)) < real t / 10)) ?e"
      by (rule returns_get) (auto simp: view_ok_def Some)
    with Some show ?thesis by (simp add: returns_spend_bind)
  qed auto
  moreover have "returns S (if \<not> ?e then v_return False else case pd_context d of
      None \<Rightarrow> v_return True | Some context' \<Rightarrow> contextHolds match context') (pattern_kept (sx_text S) d match)"
    using returns_context by (auto simp: pattern_kept_def split: option.splits)
  ultimately show ?thesis unfolding keepPatternMatch_def by (rule returns_bind)
qed

definition pattern_result :: "ustring \<Rightarrow> pattern_detector \<Rightarrow> custom_match list" where
  "pattern_result s d = filter (pattern_kept s d) (pattern_candidates s d)"

lemma keep_triple:
  "triple (view_ok S k) (keep n) (\<lambda>_ view. view_ok S (k + n) view \<and> (\<forall>limit. sx_max S = Some limit \<longrightarrow> k + n \<le> limit))"
  unfolding keep_def by (rule tripleI) (auto simp: view_ok_def Let_def split: option.splits if_splits)

end
