(* ===== verification/Detect_All.thy ===== *)
theory Detect_All
  imports Detect_Correct
begin

text \<open>
  The terms detectors and the whole pass: overlap resolution, the words of a text without the
  caches, the shared hashing pass, and \<open>detectAll\<close> as a function of the text.
\<close>

section \<open>Candidates of a terms detector\<close>

definition range_disjoint :: "custom_match list \<Rightarrow> bool" where
  "range_disjoint = sorted_wrt (\<lambda>a b. snd a \<le> fst b)"

lemma keep_disjoint_inv:
  "sorted_wrt (\<lambda>a b. fst a \<le> fst b) (kept @ candidates) \<Longrightarrow> range_disjoint kept \<Longrightarrow>
   \<forall>m \<in> set (kept @ candidates). fst m \<le> snd m \<Longrightarrow>
     range_disjoint (keep_disjoint candidates kept) \<and> set (keep_disjoint candidates kept) \<subseteq> set (kept @ candidates)"
proof (induction candidates kept rule: keep_disjoint.induct)
  case (2 c cs kept)
  show ?case
  proof (cases "kept \<noteq> [] \<and> fst c < snd (last kept)")
    case True
    have "sorted_wrt (\<lambda>a b. fst a \<le> fst b) (kept @ cs)" using "2.prems"(1) by (auto simp: sorted_wrt_append)
    with 2 True show ?thesis by auto
  next
    case False
    have "snd a \<le> fst c" if "a \<in> set kept" for a
    proof -
      have "snd a \<le> snd (last kept)"
      proof (cases "a = last kept")
        case False
        with that obtain pre where "kept = pre @ [last kept]" "a \<in> set pre"
          by (metis append_butlast_last_id empty_iff in_set_butlastD list.set(1) rotate1.simps(2) set_ConsD set_rotate1)
        with "2.prems"(2) have "snd a \<le> fst (last kept)"
          unfolding range_disjoint_def by (metis list.set_intros(1) sorted_wrt_append)
        moreover have "fst (last kept) \<le> snd (last kept)" using "2.prems"(3) that by (cases kept) auto
        ultimately show ?thesis by simp
      qed simp
      with False that show ?thesis by (cases kept) auto
    qed
    then have "range_disjoint (kept @ [c])" using "2.prems"(2) by (simp add: range_disjoint_def sorted_wrt_append)
    with "2.IH"(2) [OF False] "2.prems" False show ?thesis by auto
  qed
qed simp

lemma candidate_le_total: "candidate_le a b \<or> candidate_le b a"
  and candidate_le_trans: "candidate_le a b \<Longrightarrow> candidate_le b c \<Longrightarrow> candidate_le a c"
  by (auto simp: candidate_le_def)

lemma resolve_disjoint:
  assumes "\<forall>m \<in> set candidates. fst m \<le> snd m"
  shows "range_disjoint (resolveTermCandidates candidates)"
    and "set (resolveTermCandidates candidates) \<subseteq> set candidates"
proof -
  have "sorted_wrt candidate_le (sort_by candidate_le candidates)"
    by (rule sorted_sort_by) (auto simp: candidate_le_total intro: candidate_le_trans)
  then have "sorted_wrt (\<lambda>a b. fst a \<le> fst b) ([] @ sort_by candidate_le candidates)"
    by (simp, rule sorted_wrt_mono_rel [rotated]) (simp add: candidate_le_def, linarith)
  from keep_disjoint_inv [OF this] assms
  show "range_disjoint (resolveTermCandidates candidates)" "set (resolveTermCandidates candidates) \<subseteq> set candidates"
    by (auto simp: resolveTermCandidates_def range_disjoint_def)
qed

section \<open>Words and hits, without the caches\<close>

definition plain_words :: "unicode \<Rightarrow> ustring \<Rightarrow> text_word list" where
  "plain_words U s =
     map (\<lambda>(start, raw). \<lparr>w_start = start, w_end = start + length raw,
             w_bytes = encode_bytes (normalizeWord U raw), w_id = 0\<rparr>)
       (filter (\<lambda>(start, raw). normalizeWord U raw \<noteq> []) (word_matches U s))"

definition word_view :: "text_word \<Rightarrow> nat \<times> nat \<times> 8 word list" where
  "word_view w = (w_start w, w_end w, w_bytes w)"

definition memo_ok :: "unicode \<Rightarrow> (ustring \<times> word_entry option) list \<times> (ustring \<times> word_entry) list \<Rightarrow> bool" where
  "memo_ok U maps \<longleftrightarrow>
     (\<forall>(raw, e) \<in> set (fst maps). map_option fst e =
        (if normalizeWord U raw = [] then None else Some (encode_bytes (normalizeWord U raw)))) \<and>
     (\<forall>(n, e) \<in> set (snd maps). fst e = encode_bytes n)"

lemma lookup_word_memo:
  assumes "lookup_word U raw maps = (e, maps')" and "memo_ok U maps"
  shows "memo_ok U maps' \<and>
    map_option fst e = (if normalizeWord U raw = [] then None else Some (encode_bytes (normalizeWord U raw)))"
proof (cases maps)
  case (Pair byRaw byNormalized)
  let ?n = "normalizeWord U raw"
  show ?thesis
  proof (cases "map_of byRaw raw")
    case (Some x)
    then have "(raw, x) \<in> set byRaw" by (rule map_of_SomeD)
    with assms(2) Pair have "map_option fst x = (if ?n = [] then None else Some (encode_bytes ?n))"
      unfolding memo_ok_def by fastforce
    with assms Pair Some show ?thesis by auto
  next
    case None
    consider "?n = []" | x where "?n \<noteq> []" "map_of byNormalized ?n = Some x"
      | "?n \<noteq> []" "map_of byNormalized ?n = None" by fastforce
    then show ?thesis
    proof cases
      case 1
      with assms(1) Pair None have "e = None" "maps' = ((raw, None) # byRaw, byNormalized)" by simp_all
      with assms(2) Pair 1 show ?thesis by (simp add: memo_ok_def)
    next
      case 2
      then have "(?n, x) \<in> set byNormalized" by (intro map_of_SomeD)
      with assms(2) Pair have x: "fst x = encode_bytes ?n" unfolding memo_ok_def by fastforce
      from assms(1) Pair None 2 have "e = Some x" "maps' = ((raw, Some x) # byRaw, byNormalized)"
        by (auto simp: Let_def)
      with assms(2) Pair x 2(1) show ?thesis by (cases x) (simp add: memo_ok_def)
    next
      case 3
      with assms(1) Pair None have "e = Some (encode_bytes ?n, length byNormalized)"
        "maps' = ((raw, e) # byRaw, (?n, encode_bytes ?n, length byNormalized) # byNormalized)"
        by (auto simp: Let_def)
      with assms(2) Pair 3(1) show ?thesis by (simp add: memo_ok_def)
    qed
  qed
qed

lemma text_words_view:
  "text_words_loop U matches maps ws m = (m', Inr ws') \<Longrightarrow> memo_ok U maps \<Longrightarrow>
     map word_view ws' = map word_view ws @
       map (\<lambda>(start, raw). (start, start + length raw, encode_bytes (normalizeWord U raw)))
         (filter (\<lambda>(start, raw). normalizeWord U raw \<noteq> []) matches)"
proof (induction U matches maps ws arbitrary: m rule: text_words_loop.induct)
  case (1 U maps ws)
  then show ?case by (simp add: m_return_def)
next
  case (2 U start raw matches maps ws)
  obtain e maps' where l: "lookup_word U raw maps = (e, maps')" by (cases "lookup_word U raw maps")
  note memo = lookup_word_memo [OF l "2.prems"(2)]
  show ?case
  proof (cases e)
    case None
    with "2.prems"(1) l obtain m1 where "text_words_loop U matches maps' ws m1 = (m', Inr ws')"
      by (auto simp: m_bind_Inr)
    from "2.IH"(1) [OF l [symmetric] None this] memo None show ?thesis by (auto split: if_splits)
  next
    case (Some x)
    obtain bytes wid where x: "x = (bytes, wid)" by (cases x)
    with "2.prems"(1) l Some obtain m1 where t: "text_words_loop U matches maps'
        (ws @ [\<lparr>w_start = start, w_end = start + length raw, w_bytes = bytes, w_id = wid\<rparr>]) m1 = (m', Inr ws')"
      by (auto simp: m_bind_Inr)
    from "2.IH"(2) [OF l [symmetric] Some x [symmetric] t] memo Some x show ?thesis
      by (auto simp: word_view_def split: if_splits)
  qed
qed

lemma textWords_view:
  "textWords U s m = (m', Inr ws) \<Longrightarrow> map word_view ws = map word_view (plain_words U s)"
  using text_words_view [of U "word_matches U s" "([], [])" "[]" m m' ws]
  by (simp add: textWords_def plain_words_def memo_ok_def word_view_def comp_def case_prod_beta)

lemma textWords_ids: "textWords U s m = (m', Inr ws) \<Longrightarrow> ids_consistent ws"
  using text_words_result [of U "word_matches U s" "([], [])" "[]"]
  by (simp add: textWords_def entries_ok_def)

lemma word_view_nth:
  assumes "map word_view ws = map word_view ws'" and "i < length ws"
  shows "w_start (ws ! i) = w_start (ws' ! i)" "w_end (ws ! i) = w_end (ws' ! i)" "w_bytes (ws ! i) = w_bytes (ws' ! i)"
proof -
  have "length ws = length ws'" using assms(1) by (metis length_map)
  with assms have "word_view (ws ! i) = word_view (ws' ! i)" by (metis nth_map)
  then show "w_start (ws ! i) = w_start (ws' ! i)" "w_end (ws ! i) = w_end (ws' ! i)" "w_bytes (ws ! i) = w_bytes (ws' ! i)"
    by (simp_all add: word_view_def)
qed

lemma ngram_message_view:
  "map word_view ws = map word_view ws' \<Longrightarrow> first + count \<le> length ws \<Longrightarrow>
     ngram_message salt ws first count = ngram_message salt ws' first count"
  by (induction count) (simp_all add: word_view_nth(3))

lemma all_hits_view:
  assumes "map word_view ws = map word_view ws'"
  shows "all_hits ws salt mw digests = all_hits ws' salt mw digests"
proof -
  have len: "length ws = length ws'" using assms by (metis length_map)
  have "ngram_hits ws salt digests first count = ngram_hits ws' salt digests first count"
    if "first < length ws" "1 \<le> count" "count < min mw (length ws - first) + 1" for first count
  proof -
    have "first + count \<le> length ws" "first + count - 1 < length ws" using that by auto
    with ngram_message_view [OF assms, of first count] word_view_nth(1) [OF assms that(1)]
      word_view_nth(2) [OF assms, of "first + count - 1"] show ?thesis
      by (simp add: ngram_hits_def split: option.split)
  qed
  then show ?thesis
    unfolding all_hits_def len [symmetric]
    by (intro arg_cong [where f = concat] map_cong refl) auto
qed

text \<open>A pass over more digests and longer n-grams, filtered, is the detector's own pass.\<close>

lemma digest_match_sub:
  "D \<subseteq> E \<Longrightarrow> digest_match D m = (case digest_match E m of Some d \<Rightarrow> if d \<in> D then Some d else None | None \<Rightarrow> None)"
  by (auto simp: digest_match_def Let_def)

lemma filter_ngram_hits:
  assumes "D \<subseteq> E"
  shows "filter (\<lambda>h. th_words h \<le> mw \<and> th_digest h \<in> D) (ngram_hits ws salt E first count)
    = (if count \<le> mw then ngram_hits ws salt D first count else [])"
  using digest_match_sub [OF assms] by (auto simp: ngram_hits_def split: option.splits)

lemma filter_all_hits:
  assumes "D \<subseteq> E" and "mw \<le> MW"
  shows "filter (\<lambda>h. th_words h \<le> mw \<and> th_digest h \<in> D) (all_hits ws salt MW E) = all_hits ws salt mw D"
proof -
  have "concat (map (\<lambda>count. if count \<le> mw then f count else []) [1 ..< min MW n + 1])
      = concat (map f [1 ..< min mw n + 1])" for n and f :: "nat \<Rightarrow> term_hit list"
  proof -
    let ?g = "\<lambda>count. if count \<le> mw then f count else []"
    have split: "[1 ..< min MW n + 1] = [1 ..< min mw n + 1] @ [min mw n + 1 ..< min MW n + 1]"
      using assms(2) upt_add_eq_append [of 1 "min mw n + 1" "min MW n - min mw n"] by (simp add: min_def split: if_splits)
    have "concat (map ?g [min mw n + 1 ..< min MW n + 1]) = []"
      by (auto simp: min_def split: if_splits)
    moreover have "map ?g [1 ..< min mw n + 1] = map f [1 ..< min mw n + 1]"
      by (intro map_cong refl) auto
    ultimately show ?thesis by (simp only: split map_append concat_append append_Nil2)
  qed
  then show ?thesis
    by (simp add: all_hits_def filter_concat comp_def filter_ngram_hits [OF assms(1)] del: upt_Suc)
qed

section \<open>Groups\<close>

lemma set_obj_set:
  "distinct (map fst acc) \<Longrightarrow> set (obj_set acc k v) = insert (k, v) {e \<in> set acc. fst e \<noteq> k}"
proof (induction acc)
  case (Cons e acc)
  obtain k' w where e: "e = (k', w)" by (cases e)
  have "\<And>x. x \<in> set acc \<Longrightarrow> fst x \<noteq> k'" using Cons.prems e by auto
  then show ?case using Cons e by (cases "k' = k") auto
qed simp

lemma obj_set_group:
  assumes "distinct (map fst acc)"
  shows "set (concat (map snd (obj_set acc k ((case obj_get acc k of Some xs \<Rightarrow> xs | None \<Rightarrow> []) @ [i]))))
      = insert i (set (concat (map snd acc))) \<and>
    (distinct (concat (map snd acc)) \<longrightarrow> i \<notin> set (concat (map snd acc)) \<longrightarrow>
      distinct (concat (map snd (obj_set acc k ((case obj_get acc k of Some xs \<Rightarrow> xs | None \<Rightarrow> []) @ [i])))))"
  using assms
proof (induction acc)
  case Nil
  then show ?case by (simp add: obj_get_def)
next
  case (Cons e acc)
  obtain k' xs where e: "e = (k', xs)" by (cases e)
  show ?case
  proof (cases "k' = k")
    case True
    then show ?thesis by (simp add: e obj_get_def)
  next
    case False
    then have g: "obj_get (e # acc) k = obj_get acc k" by (simp add: e obj_get_def)
    have d: "distinct (map fst acc)" using Cons.prems by simp
    define v where "v = (case obj_get acc k of Some xs \<Rightarrow> xs | None \<Rightarrow> []) @ [i]"
    from Cons.IH [OF d] have ih: "set (concat (map snd (obj_set acc k v))) = insert i (set (concat (map snd acc)))"
      "distinct (concat (map snd acc)) \<Longrightarrow> i \<notin> set (concat (map snd acc)) \<Longrightarrow>
        distinct (concat (map snd (obj_set acc k v)))"
      by (simp_all add: v_def)
    have "obj_set (e # acc) k v = e # obj_set acc k v" using False by (simp add: e)
    then have l: "concat (map snd (obj_set (e # acc) k v)) = xs @ concat (map snd (obj_set acc k v))"
      by (simp add: e)
    show ?thesis unfolding g v_def [symmetric] l
      using ih by (simp only: set_append distinct_append) (auto simp: e)
  qed
qed

definition salt_of :: "compiled_detector list \<Rightarrow> nat \<Rightarrow> ustring option" where
  "salt_of detectors i =
     (if i < length detectors
      then (case detectors ! i of TermsDetector d \<Rightarrow> Some (td_salt d) | PatternDetector _ \<Rightarrow> None) else None)"

definition groups_inv :: "compiled_detector list \<Rightarrow> nat \<Rightarrow> (ustring \<times> nat list) list \<Rightarrow> bool" where
  "groups_inv detectors n acc \<longleftrightarrow>
     distinct (map fst acc) \<and> distinct (concat (map snd acc)) \<and>
     (\<forall>e \<in> set acc. \<forall>i \<in> set (snd e). i < n \<and> salt_of detectors i = Some (fst e)) \<and>
     (\<forall>i < n. salt_of detectors i \<noteq> None \<longrightarrow> i \<in> set (concat (map snd acc)))"

lemma groups_invD:
  assumes "groups_inv detectors n acc"
  shows "distinct (map fst acc)" "distinct (concat (map snd acc))"
    "\<And>e i. e \<in> set acc \<Longrightarrow> i \<in> set (snd e) \<Longrightarrow> i < n \<and> salt_of detectors i = Some (fst e)"
    "\<And>i. i < n \<Longrightarrow> salt_of detectors i \<noteq> None \<Longrightarrow> i \<in> set (concat (map snd acc))"
  using assms unfolding groups_inv_def by blast+

lemma by_salt_inv:
  "groups_inv detectors index acc \<Longrightarrow> drop index detectors = ds \<Longrightarrow>
     groups_inv detectors (length detectors) (by_salt index ds acc)"
proof (induction index ds acc rule: by_salt.induct)
  case (1 index acc)
  then have "length detectors \<le> index" by simp
  have "salt_of detectors i = None" if "length detectors \<le> i" for i
    using that by (simp add: salt_of_def)
  note none = this
  note inv = groups_invD [OF 1(1)]
  have "groups_inv detectors (length detectors) acc"
    unfolding groups_inv_def
  proof (intro conjI ballI allI impI)
    fix e i assume "e \<in> set acc" "i \<in> set (snd e)"
    from inv(3) [OF this] none [of i] show "i < length detectors" "salt_of detectors i = Some (fst e)"
      by (auto simp: not_le [symmetric])
  next
    fix i assume "i < length detectors" "salt_of detectors i \<noteq> None"
    with inv(4) [of i] \<open>length detectors \<le> index\<close> show "i \<in> set (concat (map snd acc))" by simp
  qed (use inv in auto)
  then show ?case by simp
next
  case (2 index d ds acc)
  have "drop (Suc index) detectors = ds" using "2.prems"(2) by (metis drop_Suc list.sel(3) tl_drop)
  moreover have "index < length detectors" using "2.prems"(2) by (cases "index < length detectors") auto
  then have "salt_of detectors index = None"
    using "2.prems"(2) by (auto simp: salt_of_def Cons_nth_drop_Suc [symmetric])
  then have "groups_inv detectors (Suc index) acc"
    using "2.prems"(1) unfolding groups_inv_def by (auto simp: less_Suc_eq)
  ultimately show ?case using "2.IH" by simp
next
  case (3 index d ds acc)
  let ?v = "(case obj_get acc (td_salt d) of Some g \<Rightarrow> g | None \<Rightarrow> []) @ [index]"
  let ?acc = "obj_set acc (td_salt d) ?v"
  have i: "index < length detectors" using "3.prems"(2) by (cases "index < length detectors") auto
  then have salt: "salt_of detectors index = Some (td_salt d)"
    using "3.prems"(2) by (auto simp: salt_of_def Cons_nth_drop_Suc [symmetric])
  have ds: "drop (Suc index) detectors = ds" using "3.prems"(2) by (metis drop_Suc list.sel(3) tl_drop)
  note d = groups_invD [OF "3.prems"(1)]
  have fresh: "index \<notin> set (concat (map snd acc))" using d(3) by fastforce
  note g = obj_set_group [OF d(1), of "td_salt d" index]
  have old: "i < Suc index \<and> salt_of detectors i = Some (td_salt d)" if "i \<in> set ?v" for i
  proof (cases "i = index")
    case False
    with that obtain idx where "map_of acc (td_salt d) = Some idx" "i \<in> set idx"
      by (cases "map_of acc (td_salt d)") (simp_all add: obj_get_def)
    then show ?thesis using d(3) [of "(td_salt d, idx)" i] map_of_SomeD by fastforce
  qed (use salt in simp)
  have "groups_inv detectors (Suc index) ?acc"
    unfolding groups_inv_def
  proof (intro conjI)
    show "distinct (map fst ?acc)" by (rule obj_set_distinct [OF d(1)])
    show "distinct (concat (map snd ?acc))" using g d(2) fresh by blast
    show "\<forall>e \<in> set ?acc. \<forall>i \<in> set (snd e). i < Suc index \<and> salt_of detectors i = Some (fst e)"
      unfolding set_obj_set [OF d(1)] using old d(3) by (auto simp: less_Suc_eq)
    show "\<forall>i < Suc index. salt_of detectors i \<noteq> None \<longrightarrow> i \<in> set (concat (map snd ?acc))"
      using d(4) g by (simp add: less_Suc_eq)
  qed
  from "3.IH" [OF refl this ds] show ?case by (simp add: Let_def)
qed

section \<open>The passes\<close>

definition within_max :: "scan_context \<Rightarrow> nat \<Rightarrow> bool" where
  "within_max S k \<longleftrightarrow> (\<forall>limit. sx_max S = Some limit \<longrightarrow> k \<le> limit)"

definition ok :: "scan_context \<Rightarrow> custom_match list list \<Rightarrow> text_view \<Rightarrow> bool" where
  "ok S results view \<longleftrightarrow>
     view_ok S (sum_list (map length results)) view \<and> within_max S (sum_list (map length results))"

lemma triple_returns_bind:
  "returns S f v \<Longrightarrow> triple (ok S results) (g v) T \<Longrightarrow> triple (ok S results) (v_bind f g) T"
proof (rule triple_bind)
  assume "returns S f v"
  then show "triple (ok S results) f (\<lambda>x view. x = v \<and> ok S results view)"
    unfolding returns_def triple_def ok_def by blast
next
  fix x assume "triple (ok S results) (g v) T"
  then show "triple (\<lambda>view. x = v \<and> ok S results view) (g x) T" by (auto simp: triple_def)
qed

lemma triple_keep:
  assumes "i < length results" and "results ! i = []"
    and "triple (ok S (results[i := kept])) (g ()) T"
  shows "triple (ok S results) (v_bind (keep (length kept)) g) T"
proof (rule triple_bind)
  have "sum_list (map length (results[i := kept])) = sum_list (map length results) + length kept"
    using assms(1,2) by (simp add: map_update sum_list_update)
  then show "triple (ok S results) (keep (length kept)) (\<lambda>_. ok S (results[i := kept]))"
    using keep_triple [of S "sum_list (map length results)" "length kept"]
    unfolding ok_def within_max_def by (elim triple_weaken) simp_all
  show "triple (ok S (results[i := kept])) (g x) T" for x using assms(3) by simp
qed

definition pattern_slot :: "ustring \<Rightarrow> nat set option \<Rightarrow> nat \<Rightarrow> compiled_detector \<Rightarrow> custom_match list" where
  "pattern_slot s only i d =
     (case d of PatternDetector p \<Rightarrow> if wanted_index only i then pattern_result s p else [] | TermsDetector _ \<Rightarrow> [])"

definition supported :: "scan_context \<Rightarrow> compiled_detector list \<Rightarrow> bool" where
  "supported S ds \<longleftrightarrow>
     (\<forall>d. PatternDetector d \<in> set ds \<longrightarrow> accepted (pd_pattern d) \<and>
        (sp_anchor (pd_pattern d) = None \<longrightarrow> native_law S (pd_pattern d)))"

lemma pattern_pass_triple:
  "supported S ds \<Longrightarrow> length results = index + length ds \<Longrightarrow> (\<forall>i < length ds. results ! (index + i) = []) \<Longrightarrow>
   triple (ok S results) (pattern_pass (sx_native S) only index ds results)
     (\<lambda>r view. r = take index results @ map (\<lambda>i. pattern_slot (sx_text S) only (index + i) (ds ! i)) [0 ..< length ds]
        \<and> ok S r view)"
proof (induction "sx_native S" only index ds results rule: pattern_pass.induct)
  case (1 only index results)
  then show ?case by (auto intro!: triple_return)
next
  case (2 only index d ds results)
  have sup: "supported S ds" using "2.prems"(1) by (simp add: supported_def)
  have empty: "\<forall>i < length ds. results ! (Suc index + i) = []" and here: "results ! index = []"
    using "2.prems"(3) by (force, force)
  have "take (Suc index) results = take index results @ [[]]"
    using "2.prems"(2) here by (simp add: take_Suc_conv_app_nth)
  with "2.hyps" [OF sup _ empty] "2.prems"(2) show ?case
    by (simp add: pattern_slot_def upt_conv_Cons map_Suc_upt [symmetric] comp_def cong: compiled_detector.case_cong del: upt_Suc)
next
  case (3 only index d ds results)
  have sup: "supported S ds" and d: "accepted (pd_pattern d)"
    "sp_anchor (pd_pattern d) = None \<Longrightarrow> native_law S (pd_pattern d)"
    using "3.prems"(1) by (simp_all add: supported_def)
  have here: "results ! index = []" and i: "index < length results"
    using "3.prems"(2,3) by (force, simp)
  have cons: "[0 ..< length (PatternDetector d # ds)] = 0 # map Suc [0 ..< length ds]"
    by (simp add: upt_conv_Cons map_Suc_upt del: upt_Suc)
  show ?case
  proof (cases "wanted_index only index")
    case False
    have empty: "\<forall>i < length ds. results ! (Suc index + i) = []" using "3.prems"(3) by force
    have "take (Suc index) results = take index results @ [[]]"
      using i here by (simp add: take_Suc_conv_app_nth)
    with "3.hyps"(1) [OF _ sup _ empty] "3.prems"(2) False show ?thesis
      unfolding cons by (simp add: pattern_slot_def comp_def cong: compiled_detector.case_cong del: upt_Suc)
  next
    case True
    let ?kept = "pattern_result (sx_text S) d"
    let ?results = "results[index := ?kept]"
    have empty: "\<forall>i < length ds. ?results ! (Suc index + i) = []" using "3.prems"(3) by force
    have take': "take (Suc index) ?results = take index results @ [?kept]"
      using i by (simp add: take_Suc_conv_app_nth)
    have "triple (ok S ?results) (pattern_pass (sx_native S) only (Suc index) ds ?results)
       (\<lambda>r view. r = take (Suc index) ?results @
          map (\<lambda>i. pattern_slot (sx_text S) only (Suc index + i) (ds ! i)) [0 ..< length ds] \<and> ok S r view)"
      by (rule "3.hyps"(2)) (use True sup empty "3.prems"(2) in auto)
    then have rest: "triple (ok S ?results) (pattern_pass (sx_native S) only (Suc index) ds ?results)
       (\<lambda>r view. r = take index results @ map (\<lambda>i. pattern_slot (sx_text S) only (index + i) ((PatternDetector d # ds) ! i))
          [0 ..< length (PatternDetector d # ds)] \<and> ok S r view)"
      using True unfolding cons take' by (simp add: pattern_slot_def comp_def cong: compiled_detector.case_cong del: upt_Suc)
    have filt: "returns S (v_filter (keepPatternMatch d) (pattern_candidates (sx_text S) d)) ?kept"
      unfolding pattern_result_def by (rule returns_filter) (rule returns_keepPatternMatch)
    note r1 = triple_keep [where g = "\<lambda>_. pattern_pass (sx_native S) only (Suc index) ds ?results", OF i here rest]
    note r2 = triple_returns_bind [where g = "\<lambda>kept. v_bind (keep (length kept))
      (\<lambda>_. pattern_pass (sx_native S) only (Suc index) ds (results[index := kept]))", OF filt r1]
    have pat: "returns S (patternMatches (sx_native S) d) (pattern_candidates (sx_text S) d)"
      by (rule returns_patternMatches) (use d in auto)
    from triple_returns_bind [where g = "\<lambda>matches. v_bind (v_filter (keepPatternMatch d) matches)
      (\<lambda>kept. v_bind (keep (length kept)) (\<lambda>_. pattern_pass (sx_native S) only (Suc index) ds (results[index := kept])))", OF pat r2]
    show ?thesis using True by (simp only: pattern_pass.simps not_True_eq_False if_False)
  qed
qed

section \<open>Terms\<close>

definition hit_kept :: "ustring \<Rightarrow> terms_detector \<Rightarrow> term_hit \<Rightarrow> bool" where
  "hit_kept s d hit \<longleftrightarrow> (\<forall>c. td_context d = Some c \<longrightarrow> context_in s c (th_start hit, th_end hit))"

definition hit_range :: "term_hit \<Rightarrow> custom_match" where
  "hit_range h = (th_start h, th_end h)"

text \<open>The contract's result of one terms detector: its own salted n-grams, its context, overlaps
  resolved.\<close>

definition terms_result :: "unicode \<Rightarrow> ustring \<Rightarrow> terms_detector \<Rightarrow> custom_match list" where
  "terms_result U s d =
     resolveTermCandidates (map hit_range (filter (hit_kept s d)
       (all_hits (plain_words U s) (case decodeSalt (td_salt d) of Some b \<Rightarrow> b | None \<Rightarrow> [])
         (td_maxWords d) (td_digests d))))"

lemma returns_hit_admitted:
  "returns S (hit_admitted d h)
     ((th_words h \<le> td_maxWords d \<and> th_digest h \<in> td_digests d) \<and> hit_kept (sx_text S) d h)"
  using returns_context [of S "(th_start h, th_end h)"]
  by (auto simp: hit_admitted_def hit_kept_def split: option.splits)

definition terms_slot :: "scan_context \<Rightarrow> compiled_detector \<Rightarrow> custom_match list" where
  "terms_slot S d = (case d of TermsDetector t \<Rightarrow> terms_result (sx_unicode S) (sx_text S) t | PatternDetector _ \<Rightarrow> [])"

definition update_slots ::
  "scan_context \<Rightarrow> compiled_detector list \<Rightarrow> nat set option \<Rightarrow> nat list \<Rightarrow> custom_match list list \<Rightarrow> custom_match list list" where
  "update_slots S detectors only idx results =
     map (\<lambda>j. if j \<in> set idx \<and> wanted_index only j then terms_slot S (detectors ! j) else results ! j)
       [0 ..< length results]"

lemma update_slots_Cons:
  assumes "index < length results"
  shows "update_slots S detectors only (index # idx) results =
    update_slots S detectors only idx
      (if wanted_index only index then results[index := terms_slot S (detectors ! index)] else results)"
  unfolding update_slots_def
  using assms by (intro nth_equalityI) (auto simp: nth_list_update)

lemma update_slots_append:
  "(\<forall>i \<in> set (xs @ ys). i < length results) \<Longrightarrow>
   update_slots S detectors only (xs @ ys) results =
     update_slots S detectors only ys (update_slots S detectors only xs results)"
  unfolding update_slots_def by (intro nth_equalityI) auto

lemma members_pass_triple:
  assumes slot: "\<And>i. i \<in> set idx \<Longrightarrow> \<exists>d. detectors ! i = TermsDetector d \<and>
      resolveTermCandidates (map hit_range (filter (\<lambda>h. (th_words h \<le> td_maxWords d \<and> th_digest h \<in> td_digests d)
        \<and> hit_kept (sx_text S) d h) hits)) = terms_slot S (detectors ! i)"
    and "distinct idx" and "\<And>i. i \<in> set idx \<Longrightarrow> i < length results \<and> results ! i = []"
  shows "triple (ok S results) (members_pass detectors only hits idx results)
    (\<lambda>r view. r = update_slots S detectors only idx results \<and> ok S r view)"
  using assms
proof (induction idx arbitrary: results)
  case Nil
  then show ?case by (auto simp: update_slots_def map_nth intro!: triple_return)
next
  case (Cons i idx)
  obtain d where d: "detectors ! i = TermsDetector d" and res: "resolveTermCandidates (map hit_range (filter
      (\<lambda>h. (th_words h \<le> td_maxWords d \<and> th_digest h \<in> td_digests d) \<and> hit_kept (sx_text S) d h) hits))
      = terms_slot S (detectors ! i)" using Cons.prems(1) [of i] by auto
  have i: "i < length results" "results ! i = []" using Cons.prems(3) by auto
  show ?case
  proof (cases "wanted_index only i")
    case False
    have "triple (ok S results) (members_pass detectors only hits idx results)
      (\<lambda>r view. r = update_slots S detectors only idx results \<and> ok S r view)"
      by (rule Cons.IH) (use Cons.prems in auto)
    with False show ?thesis by (simp add: update_slots_Cons [OF i(1)])
  next
    case True
    let ?results = "results[i := terms_slot S (detectors ! i)]"
    have rest: "triple (ok S ?results) (members_pass detectors only hits idx ?results)
      (\<lambda>r view. r = update_slots S detectors only idx ?results \<and> ok S r view)"
      by (rule Cons.IH) (use Cons.prems in \<open>auto simp: nth_list_update\<close>)
    have filt: "returns S (v_filter (hit_admitted d) hits)
      (filter (\<lambda>h. (th_words h \<le> td_maxWords d \<and> th_digest h \<in> td_digests d) \<and> hit_kept (sx_text S) d h) hits)"
      by (rule returns_filter) (rule returns_hit_admitted)
    let ?T = "\<lambda>r view. r = update_slots S detectors only (i # idx) results \<and> ok S r view"
    have "triple (ok S results) (v_bind (keep (length (terms_slot S (detectors ! i))))
        (\<lambda>_. members_pass detectors only hits idx ?results)) ?T"
      by (rule triple_keep [OF i]) (use rest True in \<open>simp add: update_slots_Cons [OF i(1)]\<close>)
    then show ?thesis
      using True
      by (simp only: members_pass.simps d compiled_detector.case if_False not_True_eq_False)
        (rule triple_returns_bind [OF filt], simp only: Let_def res [unfolded hit_range_def] d)
  qed
qed

section \<open>Groups against the detectors\<close>

lemma foldr_max_le: "x \<in> set xs \<Longrightarrow> x \<le> foldr max xs (0 :: nat)"
  by (induction xs) auto

lemma termGroups_member:
  assumes "g \<in> set (termGroups detectors)"
  shows "\<exists>salt idx. (salt, idx) \<in> set (by_salt 0 detectors []) \<and> tg_detectors g = idx \<and>
    tg_salt g = (case decodeSalt salt of Some s \<Rightarrow> s | None \<Rightarrow> []) \<and>
    tg_prefixes g = digestPrefix ` tg_digests g \<and>
    (\<forall>i \<in> set idx. \<exists>d. i < length detectors \<and> detectors ! i = TermsDetector d \<and> td_salt d = salt \<and>
       td_digests d \<subseteq> tg_digests g \<and> td_maxWords d \<le> tg_maxWords g)"
proof -
  from assms obtain salt idx where e: "(salt, idx) \<in> set (by_salt 0 detectors [])"
    and g: "tg_detectors g = idx" "tg_salt g = (case decodeSalt salt of Some s \<Rightarrow> s | None \<Rightarrow> [])"
      "tg_prefixes g = digestPrefix ` tg_digests g"
      "tg_digests g = \<Union> (set (map td_digests (concat (map (\<lambda>i. as_terms (detectors ! i)) idx))))"
      "tg_maxWords g = foldr max (map td_maxWords (concat (map (\<lambda>i. as_terms (detectors ! i)) idx))) 0"
    by (auto simp: termGroups_def Let_def)
  have "groups_inv detectors (length detectors) (by_salt 0 detectors [])"
    by (rule by_salt_inv) (simp_all add: groups_inv_def)
  note inv = groups_invD(3) [OF this e]
  have "\<exists>d. i < length detectors \<and> detectors ! i = TermsDetector d \<and> td_salt d = salt \<and>
       td_digests d \<subseteq> tg_digests g \<and> td_maxWords d \<le> tg_maxWords g" if "i \<in> set idx" for i
  proof -
    from inv [of i] that obtain d where d: "i < length detectors" "detectors ! i = TermsDetector d" "td_salt d = salt"
      by (auto simp: salt_of_def split: if_splits compiled_detector.splits)
    have mem: "d \<in> set (concat (map (\<lambda>i. as_terms (detectors ! i)) idx))"
      using that d(2) by force
    then have "td_maxWords d \<le> tg_maxWords g" unfolding g(5) by (intro foldr_max_le) simp
    moreover have "td_digests d \<subseteq> tg_digests g" using mem unfolding g(4) by auto
    ultimately show ?thesis using d by blast
  qed
  with e g show ?thesis by blast
qed

lemma returns_words:
  "triple (ok S results) (view_words (sx_unicode S))
     (\<lambda>ws view. (\<exists>m m'. textWords (sx_unicode S) (sx_text S) m = (m', Inr ws)) \<and> ok S results view)"
proof (rule tripleI)
  fix view view' ws
  assume ok: "ok S results view" and run: "view_words (sx_unicode S) view = (view', Inr ws)"
  show "(\<exists>m m'. textWords (sx_unicode S) (sx_text S) m = (m', Inr ws)) \<and> ok S results view'"
  proof (cases "tv_words view")
    case (Some l)
    with ok run show ?thesis by (auto simp: view_words_def ok_def view_ok_def)
  next
    case None
    with run obtain m where m: "textWords (sx_unicode S) (tv_text view) (tv_meter view) = (m, Inr ws)"
      "view' = view\<lparr>tv_meter := m, tv_words := Some ws\<rparr>"
      by (auto simp: view_words_def v_bind_def metered_def split: prod.splits sum.splits)
    with ok have "textWords (sx_unicode S) (sx_text S) (tv_meter view) = (m, Inr ws)"
      by (simp add: ok_def view_ok_def)
    with ok m(2) show ?thesis by (auto simp: ok_def view_ok_def)
  qed
qed

lemma group_hits_slot:
  assumes g: "g \<in> set (termGroups detectors)" and i: "i \<in> set (tg_detectors g)"
    and ws: "map word_view ws = map word_view (plain_words (sx_unicode S) (sx_text S))"
  shows "\<exists>d. detectors ! i = TermsDetector d \<and>
      resolveTermCandidates (map hit_range (filter (\<lambda>h. (th_words h \<le> td_maxWords d \<and> th_digest h \<in> td_digests d)
        \<and> hit_kept (sx_text S) d h) (all_hits ws (tg_salt g) (tg_maxWords g) (tg_digests g)))) = terms_slot S (detectors ! i)"
proof -
  from termGroups_member [OF g] i obtain d where d: "detectors ! i = TermsDetector d"
    "tg_salt g = (case decodeSalt (td_salt d) of Some s \<Rightarrow> s | None \<Rightarrow> [])"
    "td_digests d \<subseteq> tg_digests g" "td_maxWords d \<le> tg_maxWords g" by auto
  let ?X = "all_hits ws (tg_salt g) (tg_maxWords g) (tg_digests g)"
  have "filter (\<lambda>h. (th_words h \<le> td_maxWords d \<and> th_digest h \<in> td_digests d) \<and> hit_kept (sx_text S) d h) ?X
      = filter (hit_kept (sx_text S) d) (filter (\<lambda>h. th_words h \<le> td_maxWords d \<and> th_digest h \<in> td_digests d) ?X)"
    by simp
  also have "filter (\<lambda>h. th_words h \<le> td_maxWords d \<and> th_digest h \<in> td_digests d) ?X
      = all_hits (plain_words (sx_unicode S) (sx_text S)) (tg_salt g) (td_maxWords d) (td_digests d)"
    by (simp only: filter_all_hits [OF d(3,4)] all_hits_view [OF ws])
  finally show ?thesis
    unfolding d(1) terms_slot_def by (intro exI [of _ d] conjI refl) (simp only: compiled_detector.case terms_result_def d(2))
qed

lemma groups_pass_triple:
  assumes ws: "textWords (sx_unicode S) (sx_text S) m0 = (m1, Inr ws)"
  shows "set gs \<subseteq> set (termGroups detectors) \<Longrightarrow> distinct (concat (map tg_detectors gs)) \<Longrightarrow>
    (\<And>i. i \<in> set (concat (map tg_detectors gs)) \<Longrightarrow> i < length results \<and> results ! i = []) \<Longrightarrow>
    triple (ok S results) (groups_pass detectors only ws gs results)
      (\<lambda>r view. r = update_slots S detectors only (concat (map tg_detectors gs)) results \<and> ok S r view)"
proof (induction gs arbitrary: results)
  case Nil
  then show ?case by (auto simp: update_slots_def map_nth intro!: triple_return)
next
  case (Cons g gs)
  have g: "g \<in> set (termGroups detectors)" using Cons.prems(1) by simp
  let ?hits = "all_hits ws (tg_salt g) (tg_maxWords g) (tg_digests g)"
  from termGroups_member [OF g] have pre: "\<forall>d \<in> tg_digests g. digestPrefix d \<in> tg_prefixes g" by auto
  have hits: "returns S (metered (findTermHits ws (tg_salt g) (tg_maxWords g) (tg_digests g) (tg_prefixes g))) ?hits"
    by (rule returns_metered) (rule findTermHits_result [OF pre textWords_ids [OF ws]])
  let ?r1 = "update_slots S detectors only (tg_detectors g) results"
  have members: "triple (ok S results) (members_pass detectors only ?hits (tg_detectors g) results)
      (\<lambda>r view. r = ?r1 \<and> ok S r view)"
    by (rule members_pass_triple)
      (use group_hits_slot [OF g _ textWords_view [OF ws]] Cons.prems in auto)
  have r1: "i < length ?r1 \<and> ?r1 ! i = []" if "i \<in> set (concat (map tg_detectors gs))" for i
  proof -
    have "i \<notin> set (tg_detectors g)" using Cons.prems(2) that by auto
    then show ?thesis using Cons.prems(3) [of i] that by (simp add: update_slots_def)
  qed
  have gs: "set gs \<subseteq> set (termGroups detectors)" "distinct (concat (map tg_detectors gs))"
    using Cons.prems(1,2) by auto
  have app: "update_slots S detectors only (concat (map tg_detectors gs)) ?r1
      = update_slots S detectors only (concat (map tg_detectors (g # gs))) results"
  proof -
    have "\<forall>i \<in> set (tg_detectors g @ concat (map tg_detectors gs)). i < length results"
      using Cons.prems(3) by auto
    from update_slots_append [OF this] show ?thesis by simp
  qed
  from Cons.IH [OF gs r1] have rest: "triple (ok S ?r1) (groups_pass detectors only ws gs ?r1)
      (\<lambda>r view. r = update_slots S detectors only (concat (map tg_detectors (g # gs))) results \<and> ok S r view)"
    unfolding app by simp
  show ?case
    unfolding groups_pass.simps
    by (rule triple_returns_bind [OF hits], rule triple_bind [OF members])
      (use rest in \<open>auto simp: triple_def\<close>)
qed

section \<open>The whole pass\<close>

definition detector_result :: "unicode \<Rightarrow> ustring \<Rightarrow> nat set option \<Rightarrow> nat \<Rightarrow> compiled_detector \<Rightarrow> custom_match list" where
  "detector_result U s only i d =
     (if \<not> wanted_index only i then []
      else case d of PatternDetector p \<Rightarrow> pattern_result s p | TermsDetector t \<Rightarrow> terms_result U s t)"

lemma slots_result:
  assumes sub: "\<And>i. i \<in> A \<Longrightarrow> i < length detectors \<and> salt_of detectors i \<noteq> None"
    and all: "\<And>i. i < length detectors \<Longrightarrow> salt_of detectors i \<noteq> None \<Longrightarrow> wanted_index only i \<Longrightarrow> i \<in> A"
    and i: "i < length detectors"
  shows "(if i \<in> A \<and> wanted_index only i then terms_slot S (detectors ! i)
     else pattern_slot (sx_text S) only i (detectors ! i)) = detector_result (sx_unicode S) (sx_text S) only i (detectors ! i)"
  using sub [of i] all [OF i] i
  by (cases "detectors ! i")
    (auto simp: detector_result_def pattern_slot_def terms_slot_def salt_of_def)

lemma detectAll_triple:
  assumes sup: "supported S detectors"
  shows "triple (view_ok S 0) (detectAll (sx_unicode S) (sx_native S) detectors (termGroups detectors) only)
    (\<lambda>r view. r = map (\<lambda>i. detector_result (sx_unicode S) (sx_text S) only i (detectors ! i)) [0 ..< length detectors]
       \<and> within_max S (sum_list (map length r)))"
proof -
  let ?empty = "map (\<lambda>_. []) detectors :: custom_match list list"
  let ?first = "map (\<lambda>i. pattern_slot (sx_text S) only i (detectors ! i)) [0 ..< length detectors]"
  let ?final = "map (\<lambda>i. detector_result (sx_unicode S) (sx_text S) only i (detectors ! i)) [0 ..< length detectors]"
  let ?want = "\<lambda>g. case only of None \<Rightarrow> True | Some s \<Rightarrow> list_ex (\<lambda>index. index \<in> s) (tg_detectors g)"
  let ?gs = "filter ?want (termGroups detectors)"
  have inv: "groups_inv detectors (length detectors) (by_salt 0 detectors [])"
    by (rule by_salt_inv) (simp_all add: groups_inv_def)
  have idx: "map tg_detectors (termGroups detectors) = map snd (by_salt 0 detectors [])"
    by (simp add: termGroups_def Let_def case_prod_beta)
  have dist: "distinct (concat (map tg_detectors gs))" if "distinct (concat (map tg_detectors (xs @ gs)))"
    for xs gs :: "term_group list" using that by simp
  have member: "i < length detectors \<and> salt_of detectors i \<noteq> None"
    if "i \<in> set (concat (map tg_detectors (termGroups detectors)))" for i
    using groups_invD(3) [OF inv] that unfolding idx by fastforce
  have wanted: "i \<in> set (concat (map tg_detectors ?gs))"
    if "i < length detectors" "salt_of detectors i \<noteq> None" "wanted_index only i" for i
  proof -
    have "i \<in> set (concat (map tg_detectors (termGroups detectors)))"
      using groups_invD(4) [OF inv that(1,2)] unfolding idx .
    then obtain g where "g \<in> set (termGroups detectors)" "i \<in> set (tg_detectors g)" by auto
    with that(3) show ?thesis by (auto simp: wanted_index_def list_ex_iff split: option.splits)
  qed
  have sub: "set (concat (map tg_detectors ?gs)) \<subseteq> set (concat (map tg_detectors (termGroups detectors)))" by auto
  have dgs: "distinct (concat (map tg_detectors ?gs))"
  proof -
    have "distinct (concat (map tg_detectors (filter P gs)))" if "distinct (concat (map tg_detectors gs))" for P and gs :: "term_group list"
      using that by (induction gs) auto
    moreover have "distinct (concat (map tg_detectors (termGroups detectors)))"
      using groups_invD(2) [OF inv] unfolding idx .
    ultimately show ?thesis by blast
  qed
  have slots: "update_slots S detectors only (concat (map tg_detectors ?gs)) ?first = ?final"
    unfolding update_slots_def
  proof (rule map_cong)
    show "[0 ..< length ?first] = [0 ..< length detectors]" by simp
    fix i assume "i \<in> set [0 ..< length detectors]"
    then have i: "i < length detectors" by simp
    have "?first ! i = pattern_slot (sx_text S) only i (detectors ! i)" using i by simp
    then show "(if i \<in> set (concat (map tg_detectors ?gs)) \<and> wanted_index only i then terms_slot S (detectors ! i)
        else ?first ! i) = detector_result (sx_unicode S) (sx_text S) only i (detectors ! i)"
      by (simp only:) (rule slots_result [OF _ wanted i], use member sub in blast)
  qed
  have pat: "triple (ok S ?empty) (pattern_pass (sx_native S) only 0 detectors ?empty) (\<lambda>r view. r = ?first \<and> ok S r view)"
    using pattern_pass_triple [OF sup, of ?empty 0 only] by simp
  have start: "ok S ?empty view" if "view_ok S 0 view" for view
    using that by (simp add: ok_def within_max_def comp_def)
  have rest: "triple (ok S ?first)
      (if ?gs = [] then v_return ?first
       else v_bind (view_words (sx_unicode S)) (\<lambda>ws. groups_pass detectors only ws ?gs ?first))
      (\<lambda>r view. r = ?final \<and> within_max S (sum_list (map length r)))"
  proof (cases "?gs = []")
    case True
    with slots have eq: "?first = ?final" by (simp only: update_slots_def) (simp add: map_nth)
    show ?thesis by (simp only: if_P [OF True], rule triple_return) (simp only: ok_def eq simp_thms)
  next
    case False
    have empty: "i < length ?first \<and> ?first ! i = []" if "i \<in> set (concat (map tg_detectors ?gs))" for i
      using member [of i] sub that
      by (auto simp: pattern_slot_def salt_of_def simp del: set_concat split: compiled_detector.splits)
    have "triple (\<lambda>view. (\<exists>m m'. textWords (sx_unicode S) (sx_text S) m = (m', Inr ws)) \<and> ok S ?first view)
        (groups_pass detectors only ws ?gs ?first) (\<lambda>r view. r = ?final \<and> within_max S (sum_list (map length r)))" for ws
    proof (rule triple_pre)
      fix view assume "(\<exists>m m'. textWords (sx_unicode S) (sx_text S) m = (m', Inr ws)) \<and> ok S ?first view"
      then show "\<exists>m m'. textWords (sx_unicode S) (sx_text S) m = (m', Inr ws)" by blast
    next
      assume "\<exists>m m'. textWords (sx_unicode S) (sx_text S) m = (m', Inr ws)"
      then obtain m m' where ws: "textWords (sx_unicode S) (sx_text S) m = (m', Inr ws)" by blast
      have gsub: "set ?gs \<subseteq> set (termGroups detectors)" by auto
      from groups_pass_triple [OF ws gsub dgs empty, of only]
      show "triple (\<lambda>view. (\<exists>m m'. textWords (sx_unicode S) (sx_text S) m = (m', Inr ws)) \<and> ok S ?first view)
        (groups_pass detectors only ws ?gs ?first) (\<lambda>r view. r = ?final \<and> within_max S (sum_list (map length r)))"
        unfolding slots by (rule triple_weaken) (auto simp: ok_def)
    qed
    with False show ?thesis by (simp only: if_False) (rule triple_bind [OF returns_words])
  qed
  show ?thesis
    unfolding detectAll_def Let_def
    by (rule triple_weaken [OF triple_bind [OF pat] start]) (use rest in \<open>auto simp: triple_def\<close>)
qed

section \<open>Ranges do not overlap\<close>

lemma scan_from_disjoint:
  "accepted p \<Longrightarrow> sorted_wrt (\<lambda>a b. snd a \<le> fst b) (scan_from p s pos) \<and> (\<forall>m \<in> set (scan_from p s pos). pos \<le> fst m)"
proof (induction p s pos rule: scan_from.induct)
  case (1 p s pos)
  show ?case
  proof (cases "length s < pos")
    case True
    then show ?thesis by (simp add: scan_from.simps)
  next
    case False
    show ?thesis
    proof (cases "ecma_match p s pos")
      case None
      from "1.IH"(1) [OF False None "1.prems"] False None show ?thesis
        by (auto simp: scan_from.simps [of p s pos] dest: Suc_leD)
    next
      case (Some e)
      note lt = accepted_match(1) [OF "1.prems" Some]
      then have "max e (pos + 1) = e" by simp
      with "1.IH"(2) [OF False Some "1.prems"] lt show ?thesis
        unfolding scan_from_Some [OF "1.prems" Some] by fastforce
    qed
  qed
qed

lemma pattern_result_disjoint: "accepted (pd_pattern d) \<Longrightarrow> range_disjoint (pattern_result s d)"
  using scan_from_disjoint [of "pd_pattern d" s 0]
  by (auto simp: range_disjoint_def pattern_result_def pattern_candidates_def ecma_all_def intro: sorted_wrt_filter)

lemma runs_of_sorted:
  "sorted_wrt (\<lambda>a b. fst a + length (snd a) \<le> fst b) (runs_of p position cs) \<and>
     (\<forall>r \<in> set (runs_of p position cs). position \<le> fst r)"
proof (induction p position cs rule: runs_of.induct)
  case (1 p position cs)
  define skipped rest where "skipped = takeWhile (\<lambda>c. \<not> p c) cs" and "rest = dropWhile (\<lambda>c. \<not> p c) cs"
  define w start where "w = concat (takeWhile p rest)" and "start = position + length (concat skipped)"
  note unf = runs_of.simps [of p position cs, folded skipped_def rest_def, unfolded Let_def, folded w_def start_def]
  show ?case
  proof (cases "rest = []")
    case True
    with unf show ?thesis by simp
  next
    case False
    have ih: "sorted_wrt (\<lambda>a b. fst a + length (snd a) \<le> fst b) (runs_of p (start + length w) (dropWhile p rest)) \<and>
     (\<forall>r \<in> set (runs_of p (start + length w) (dropWhile p rest)). start + length w \<le> fst r)"
      by (rule "1.IH" [OF skipped_def rest_def False w_def start_def])
    have e: "runs_of p position cs = (start, w) # runs_of p (start + length w) (dropWhile p rest)"
      using unf False by simp
    show ?thesis unfolding e using ih by (fastforce simp: start_def)
  qed
qed

lemma plain_words_sorted:
  assumes "i \<le> j" and "j < length (plain_words U s)"
  shows "w_start (plain_words U s ! i) \<le> w_end (plain_words U s ! j)"
proof -
  let ?f = "\<lambda>(start, raw). \<lparr>w_start = start, w_end = start + length raw,
             w_bytes = encode_bytes (normalizeWord U raw), w_id = 0\<rparr>"
  have "sorted_wrt (\<lambda>a b. fst a + length (snd a) \<le> fst b)
      (filter (\<lambda>(start, raw). normalizeWord U raw \<noteq> []) (word_matches U s))"
    using runs_of_sorted by (auto simp: word_matches_def intro: sorted_wrt_filter)
  then have "sorted_wrt (\<lambda>a b. w_end a \<le> w_start b) (plain_words U s)"
    unfolding plain_words_def sorted_wrt_map by (rule sorted_wrt_mono_rel [rotated]) auto
  moreover have len: "w_start w \<le> w_end w" if "w \<in> set (plain_words U s)" for w
    using that by (auto simp: plain_words_def)
  ultimately show ?thesis
  proof (cases "i = j")
    case False
    with assms have "i < j" by simp
    with \<open>sorted_wrt (\<lambda>a b. w_end a \<le> w_start b) (plain_words U s)\<close> assms(2)
    have "w_end (plain_words U s ! i) \<le> w_start (plain_words U s ! j)" by (auto simp: sorted_wrt_iff_nth_less)
    moreover have "w_start (plain_words U s ! i) \<le> w_end (plain_words U s ! i)" using assms by (intro len) simp
    moreover have "w_start (plain_words U s ! j) \<le> w_end (plain_words U s ! j)" using assms by (intro len) simp
    ultimately show ?thesis by simp
  qed (use assms in simp)
qed

lemma all_hits_ranges:
  assumes "h \<in> set (all_hits (plain_words U s) salt mw digests)"
  shows "th_start h \<le> th_end h"
proof -
  let ?ws = "plain_words U s"
  from assms obtain first count where "first < length ?ws" "1 \<le> count" "count < min mw (length ?ws - first) + 1"
    "h \<in> set (ngram_hits ?ws salt digests first count)"
    by (auto simp: all_hits_def simp del: upt_Suc)
  then have "th_start h = w_start (?ws ! first)" "th_end h = w_end (?ws ! (first + count - 1))"
    "first \<le> first + count - 1" "first + count - 1 < length ?ws"
    by (auto simp: ngram_hits_def split: option.splits)
  with plain_words_sorted show ?thesis by metis
qed

lemma terms_result_disjoint: "range_disjoint (terms_result U s d)"
  unfolding terms_result_def
  by (rule resolve_disjoint(1)) (auto simp: hit_range_def dest: all_hits_ranges)

section \<open>Properties\<close>


definition sample_detector :: pattern_detector where
  "sample_detector =
     \<lparr>pd_spec = \<lparr>ds_id = js ''keys'', ds_label = js ''Keys'', ds_category = Credential, ds_action = RuleBlock,
         ds_match = PatternMatchSpec (js ''key'' @ [92, 100] @ js ''{1,2}'') (Some True) None, ds_context = None\<rparr>,
      pd_pattern = sample_pattern, pd_minEntropyTenths = None, pd_context = None\<rparr>"

lemma sample_supported: "supported \<lparr>sx_unicode = U, sx_native = R, sx_text = s, sx_max = mx\<rparr> [PatternDetector sample_detector]"
  using validate_sample by (auto simp: supported_def sample_detector_def accepted_def) (simp add: sample_pattern_def)

lemma sample_fields: "pd_pattern sample_detector = sample_pattern" "pd_minEntropyTenths sample_detector = None"
  "pd_context sample_detector = None"
  by (simp_all add: sample_detector_def)

lemmas loop_numerals =
  anchor_intervals_loop.simps(2,3) [where n = "pred_numeral k" for k, folded numeral_eq_Suc]
  interval_loop.simps(2) [where n = "pred_numeral k" for k, folded numeral_eq_Suc]

lemma sample_detect:
  "\<exists>view. detectAll ascii_unicode (\<lambda>_ _ _. []) [PatternDetector sample_detector]
     (termGroups [PatternDetector sample_detector]) None (new_view (js ''xKEY42'') (WorkMeter 100 0 None) (Some 3))
     = (view, Inr [[(1, 6)]])"
proof -
  have groups: "termGroups [PatternDetector sample_detector] = []" by (simp add: termGroups_def)
  have low: "asciiLower (js ''xKEY42'') = js ''xkey42''"
    by (simp add: js_def asciiLower_def ascii_lower_unit_def)
  have i0: "index_of (js ''xkey42'') [107, 101, 121] 0 = Some 1" "index_of (js ''xkey42'') [107, 101, 121] 2 = None"
    "index_of (js ''xkey42'') [107, 101, 121] (Suc (Suc 0)) = None"
    by (simp_all add: js_def index_of_def)
  have m: "matchAt sample_pattern (js ''xKEY42'') 1 (WorkMeter 100 3 None) = (WorkMeter 100 14 None, Inr (Some 6))"
  by (simp add: matchAt_def sample_pattern_def sp_first_def sp_program_def js_def m_bind_def m_spend_def
     m_return_def in_union_set in_set_charSet char_matches_def ascii_lower_unit_def DIGITS_def code_range_def Let_def
     upt_rec parser_numerals numeral_2_eq_2)
  have an: "sp_anchor sample_pattern = Some \<lparr>an_text = [107, 101, 121], an_offsetMin = 0, an_offsetMax = 0\<rparr>"
    "sp_caseInsensitive sample_pattern" by (simp_all add: sample_pattern_def)
  have len: "length (js ''xKEY42'') = 6" "length (js ''xkey42'') = 6" by (simp_all add: js_def)
  have "anchorIntervals sample_detector \<lparr>an_text = [107, 101, 121], an_offsetMin = 0, an_offsetMax = 0\<rparr>
      (new_view (js ''xKEY42'') (WorkMeter 100 0 None) (Some 3))
    = ((new_view (js ''xKEY42'') (WorkMeter 100 3 None) (Some 3))\<lparr>tv_lowered := Some (js ''xkey42'')\<rparr>, Inr [(1, 1)])"
    by (simp add: anchorIntervals_def sample_fields an lowered_def v_bind_def v_return_def v_spend_def Let_def
        metered_def m_spend_def new_view_def low i0 len ceil_div_def loop_numerals add_interval_def)
  then show ?thesis
    by (simp add: detectAll_def groups wanted_index_def patternMatches_def sample_fields an
      v_bind_def v_return_def v_get_def metered_def new_view_def len m [unfolded One_nat_def] loop_numerals keepPatternMatch_def keep_def)
qed


text \<open>the ranges of a detector never overlap and are in text order.\<close>

theorem detections_disjoint:
  assumes "\<And>p. d = PatternDetector p \<Longrightarrow> accepted (pd_pattern p)"
  shows "range_disjoint (detector_result U s only i d)"
proof (cases d)
  case (PatternDetector p)
  with pattern_result_disjoint [OF assms [OF this]] show ?thesis by (simp add: detector_result_def range_disjoint_def)
next
  case (TermsDetector t)
  with terms_result_disjoint show ?thesis by (simp add: detector_result_def range_disjoint_def)
qed

theorem detections_disjoint_witness:
  "range_disjoint (detector_result ascii_unicode (js ''xKEY42'') None 0 (PatternDetector sample_detector))"
  by (rule detections_disjoint) (use sample_supported in \<open>auto simp: supported_def\<close>)

section \<open>The window in code points\<close>

lemma forwards_chars: "forwards s i n = i + length (concat (take n (chars (drop i s))))"
proof (induction s i n rule: forwards.induct)
  case (2 s i n)
  show ?case
  proof (cases "length s \<le> i")
    case False
    then have d: "drop i s = s ! i # drop (Suc i) s" by (simp add: Cons_nth_drop_Suc)
    show ?thesis
    proof (cases "is_high (s ! i) \<and> i + 1 < length s \<and> is_low (s ! (i + 1))")
      case True
      then have "drop (Suc i) s = s ! (Suc i) # drop (Suc (Suc i)) s" by (simp add: Cons_nth_drop_Suc)
      with d True have "chars (drop i s) = [s ! i, s ! Suc i] # chars (drop (Suc (Suc i)) s)" by simp
      with "2.IH"(1) [OF False True] True False show ?thesis by simp
    next
      case no: False
      have "chars (drop i s) = [s ! i] # chars (drop (Suc i) s)"
      proof (cases "Suc i < length s")
        case True
        then have "drop (Suc i) s = s ! (Suc i) # drop (Suc (Suc i)) s" by (simp add: Cons_nth_drop_Suc)
        with d True no show ?thesis by (metis Suc_eq_plus1 chars.simps(3))
      next
        case False
        with d show ?thesis by simp
      qed
      with "2.IH"(2) [OF False no] no False show ?thesis by auto
    qed
  qed simp
qed simp

lemma chars_snoc:
  "chars (xs @ [a]) =
     (if xs \<noteq> [] \<and> is_low a \<and> is_high (last xs) then butlast (chars xs) @ [[last xs, a]] else chars xs @ [[a]])"
proof (induction xs rule: chars.induct)
  case (3 x y s)
  show ?case
  proof (cases "is_high x \<and> is_low y")
    case True
    then have "\<not> is_high y" by (auto simp: is_high_def is_low_def)
    moreover have "s \<noteq> [] \<Longrightarrow> chars s \<noteq> []" by (cases s rule: chars.cases) auto
    ultimately show ?thesis using True "3.IH"(1) by (cases "s = []") auto
  next
    case False
    have "chars (y # s) \<noteq> []" by (cases s) auto
    with False "3.IH"(2) show ?thesis by auto
  qed
qed auto

lemma backwards_chars:
  "i \<le> length s \<Longrightarrow> backwards s i n = length (concat (take (length (chars (take i s)) - n) (chars (take i s))))"
proof (induction s i n rule: backwards.induct)
  case (1 s i)
  then show ?case by simp
next
  case (2 s i n)
  show ?case
  proof (cases "i = 0")
    case False
    define j where "j = i - 1"
    with False have i: "i = Suc j" and j: "j < length s" using "2.prems" by auto
    have snoc: "take i s = take j s @ [s ! j]" using j by (simp add: i take_Suc_conv_app_nth)
    show ?thesis
    proof (cases "0 < j \<and> is_low (s ! j) \<and> is_high (s ! (j - 1))")
      case True
      define k where "k = j - 1"
      with True have k: "j = Suc k" by simp
      have t: "take j s = take k s @ [s ! k]" using j by (simp add: k take_Suc_conv_app_nth)
      have "\<not> is_low (s ! k)" using True by (auto simp: k is_high_def is_low_def)
      then have cj: "chars (take j s) = chars (take k s) @ [[s ! k]]"
        unfolding t by (simp add: chars_snoc)
      have "chars (take i s) = chars (take k s) @ [[s ! k, s ! j]]"
      proof -
        have "take j s \<noteq> []" "last (take j s) = s ! k" using t by simp_all
        with True have "chars (take j s @ [s ! j]) = butlast (chars (take j s)) @ [[s ! k, s ! j]]"
          by (simp add: chars_snoc k)
        with cj show ?thesis by (simp only: snoc butlast_snoc)
      qed
      moreover have "backwards s i (Suc n) = backwards s k n" using True by (simp add: i k Let_def)
      moreover have "backwards s k n = length (concat (take (length (chars (take k s)) - n) (chars (take k s))))"
        using "2.IH" [OF False refl refl] True j by (simp add: i k)
      ultimately show ?thesis by simp
    next
      case no: False
      have ne: "take j s \<noteq> [] \<longrightarrow> last (take j s) = s ! (j - 1)" and "take j s = [] \<longleftrightarrow> j = 0"
        using j by (auto simp: last_conv_nth)
      with no have "chars (take i s) = chars (take j s) @ [[s ! j]]"
        unfolding snoc by (auto simp: chars_snoc)
      moreover have "backwards s i (Suc n) = backwards s j n" using no by (auto simp: i Let_def)
      moreover have "backwards s j n = length (concat (take (length (chars (take j s)) - n) (chars (take j s))))"
      proof -
        have "(if 0 < i - 1 \<and> is_low (s ! (i - 1)) \<and> is_high (s ! (i - 1 - 1)) then i - 1 - 1 else i - 1) = j"
          using no by (auto simp: i)
        from "2.IH" [OF False refl refl, unfolded this] j show ?thesis by simp
      qed
      ultimately show ?thesis by simp
    qed
  qed simp
qed

text \<open>The context window is the contract's: around a match, \<open>backwards\<close> and \<open>forwards\<close> move by exactly
  \<open>count\<close> code points (or to the end of the text), a surrogate pair counting once.\<close>

theorem context_window_code_points:
  assumes "i \<le> length s"
  shows "forwards s i n = i + length (concat (take n (chars (drop i s)))) \<and>
    backwards s i n = length (concat (take (length (chars (take i s)) - n) (chars (take i s))))"
  using forwards_chars backwards_chars [OF assms] by blast

theorem context_window_code_points_witness:
  "forwards [65, 0xD83D, 0xDE00, 66] 1 1 = 3 \<and> backwards [65, 0xD83D, 0xDE00, 66] 3 1 = 1"
  using context_window_code_points [of 1 "[65, 0xD83D, 0xDE00, 66]" 1] context_window_code_points [of 3 "[65, 0xD83D, 0xDE00, 66]" 1]
  by (simp add: is_high_def is_low_def numeral_2_eq_2 numeral_3_eq_3)

end
