(* ===== verification/Rules_Pack.thy ===== *)
theory Rules_Pack
  imports Detect_All
begin

text \<open>
  Compilation of a rules pack (\<open>core/src/custom/pack.ts\<close>): the checks of the contract in its
  order, the compilation of every detector, and the pack's own self-tests under a shared work
  budget. A payload is the JSON value the runner verified.
\<close>

datatype rules_pack_error =
  ErrSchema
| ErrDuplicateDetector
| ErrValidityWindow
| ErrTooManyDigests
| ErrInvalidPattern
| ErrUnknownTestDetector
| ErrMissingPositive
| ErrPositiveNotDetected
| ErrNegativeDetected
| ErrSelfTestIncomplete

definition MAX_TOTAL_DIGESTS :: nat where "MAX_TOTAL_DIGESTS = 20000"
definition SELF_TEST_WORK_BUDGET :: int where "SELF_TEST_WORK_BUDGET = 2000000"
definition SELF_TESTS_TOTAL_BUDGET :: int where "SELF_TESTS_TOTAL_BUDGET = 150000000"

record compiled_pack =
  cp_payload :: rules_payload
  cp_detectors :: "compiled_detector list"
  cp_groups :: "term_group list"

definition new_pack :: "rules_payload \<Rightarrow> compiled_detector list \<Rightarrow> compiled_pack" where
  "new_pack payload detectors =
     \<lparr>cp_payload = payload, cp_detectors = detectors, cp_groups = termGroups detectors\<rparr>"

text \<open>\<open>CompiledRulesPack.detect\<close>: the meter after the scan and its result.\<close>

definition pack_detect ::
  "unicode \<Rightarrow> native_engine \<Rightarrow> compiled_pack \<Rightarrow> ustring \<Rightarrow> work_meter \<Rightarrow> nat set option \<Rightarrow> nat option \<Rightarrow>
   custom_match list list metered" where
  "pack_detect U R pack s meter only maxMatches =
     (case detectAll U R (cp_detectors pack) (cp_groups pack) only (new_view s meter maxMatches) of
        (view, r) \<Rightarrow> (tv_meter view, r))"

definition compileDetector :: "detector_spec \<Rightarrow> compiled_detector option" where
  "compileDetector detector =
     (let context' = compileContext (ds_context detector) in
      case ds_match detector of
        TermsMatchSpec salt digests maxWords \<Rightarrow>
          Some (TermsDetector \<lparr>td_spec = detector, td_salt = salt, td_digests = set digests,
                   td_maxWords = maxWords, td_context = context'\<rparr>)
      | PatternMatchSpec pattern caseInsensitive minEntropyTenths \<Rightarrow>
          (case validatePattern pattern (ds_context detector \<noteq> None) (caseInsensitive = Some True) of
             Inl _ \<Rightarrow> None
           | Inr p \<Rightarrow> Some (PatternDetector \<lparr>pd_spec = detector, pd_pattern = p,
                         pd_minEntropyTenths = minEntropyTenths, pd_context = context'\<rparr>)))"

text \<open>\<open>selfTest\<close>: the total meter is the parent of the test's own; both errors of the scan are
  \<open>undefined\<close>.\<close>

definition selfTest ::
  "unicode \<Rightarrow> native_engine \<Rightarrow> compiled_pack \<Rightarrow> ustring \<Rightarrow> work_meter \<Rightarrow> nat set option \<Rightarrow>
   work_meter \<times> custom_match list list option" where
  "selfTest U R pack s total' only =
     (case pack_detect U R pack s (WorkMeter SELF_TEST_WORK_BUDGET 0 (Some total')) only None of
        (m, r) \<Rightarrow> (case meter_parent m of Some t \<Rightarrow> t | None \<Rightarrow> total',
                   case r of Inl _ \<Rightarrow> None | Inr results \<Rightarrow> Some results))"

fun positives_pass ::
  "unicode \<Rightarrow> native_engine \<Rightarrow> compiled_pack \<Rightarrow> (ustring \<Rightarrow> nat) \<Rightarrow> (ustring \<times> ustring) list \<Rightarrow> work_meter \<Rightarrow>
   rules_pack_error + work_meter" where
  "positives_pass U R pack indexOf [] total' = Inr total'"
| "positives_pass U R pack indexOf ((detector, s) # positives) total' =
     (case selfTest U R pack s total' (Some {indexOf detector}) of
        (total', None) \<Rightarrow> Inl ErrSelfTestIncomplete
      | (total', Some results) \<Rightarrow>
          if results ! indexOf detector = [] then Inl ErrPositiveNotDetected
          else positives_pass U R pack indexOf positives total')"

fun negatives_pass ::
  "unicode \<Rightarrow> native_engine \<Rightarrow> compiled_pack \<Rightarrow> ustring list \<Rightarrow> work_meter \<Rightarrow> rules_pack_error + work_meter" where
  "negatives_pass U R pack [] total' = Inr total'"
| "negatives_pass U R pack (s # negatives) total' =
     (case selfTest U R pack s total' None of
        (total', None) \<Rightarrow> Inl ErrSelfTestIncomplete
      | (total', Some results) \<Rightarrow>
          if list_ex (\<lambda>matches. matches \<noteq> []) results then Inl ErrNegativeDetected
          else negatives_pass U R pack negatives total')"

text \<open>\<open>a > b\<close> on strings compares code units lexicographically.\<close>

fun string_less :: "ustring \<Rightarrow> ustring \<Rightarrow> bool" where
  "string_less _ [] = False"
| "string_less [] (y # ys) = True"
| "string_less (x # xs) (y # ys) = (x < y \<or> (x = y \<and> string_less xs ys))"

fun digest_count :: "match_spec \<Rightarrow> nat" where
  "digest_count (TermsMatchSpec _ digests _) = length digests"
| "digest_count (PatternMatchSpec _ _ _) = 0"

fun is_pattern_spec :: "match_spec \<Rightarrow> bool" where
  "is_pattern_spec (PatternMatchSpec _ _ _) = True"
| "is_pattern_spec (TermsMatchSpec _ _ _) = False"

fun index_of_id :: "nat \<Rightarrow> ustring list \<Rightarrow> ustring \<Rightarrow> nat option" where
  "index_of_id i [] key = None"
| "index_of_id i (x # xs) key =
     (case index_of_id (Suc i) xs key of Some j \<Rightarrow> Some j | None \<Rightarrow> if x = key then Some i else None)"

fun compile_all :: "detector_spec list \<Rightarrow> compiled_detector list option" where
  "compile_all [] = Some []"
| "compile_all (d # ds) =
     (case compileDetector d of None \<Rightarrow> None
      | Some c \<Rightarrow> (case compile_all ds of None \<Rightarrow> None | Some cs \<Rightarrow> Some (c # cs)))"

definition compileRulesPack ::
  "unicode \<Rightarrow> native_engine \<Rightarrow> json \<Rightarrow> bool \<Rightarrow> rules_pack_error + compiled_pack" where
  "compileRulesPack U R value selfTests =
     (if \<not> isRulesPackPayload value then Inl ErrSchema
      else
        let payload = read_payload value; ids = map ds_id (rp_detectors payload) in
        if \<not> distinct ids then Inl ErrDuplicateDetector
        else if \<not> string_less (rp_issuedAt payload) (rp_expiresAt payload) then Inl ErrValidityWindow
        else if MAX_TOTAL_DIGESTS < foldl (\<lambda>n d. n + digest_count (ds_match d)) 0 (rp_detectors payload)
        then Inl ErrTooManyDigests
        else case compile_all (rp_detectors payload) of
          None \<Rightarrow> Inl ErrInvalidPattern
        | Some detectors \<Rightarrow>
            let positives = rp_positives payload; negatives = rp_negatives payload;
                indexOf = index_of_id 0 ids;
                tested = set (map fst positives) in
            if list_ex (\<lambda>p. indexOf (fst p) = None) positives then Inl ErrUnknownTestDetector
            else if list_ex (\<lambda>d. is_pattern_spec (ds_match d) \<and> ds_id d \<notin> tested) (rp_detectors payload)
            then Inl ErrMissingPositive
            else
              let pack = new_pack payload detectors in
              if \<not> selfTests then Inr pack
              else case positives_pass U R pack (\<lambda>d. the (indexOf d)) positives
                          (WorkMeter SELF_TESTS_TOTAL_BUDGET 0 None) of
                Inl e \<Rightarrow> Inl e
              | Inr total' \<Rightarrow>
                  (case negatives_pass U R pack negatives total' of Inl e \<Rightarrow> Inl e | Inr _ \<Rightarrow> Inr pack))"

section \<open>What an accepted pack satisfies\<close>

lemma string_less_irrefl: "\<not> string_less x x"
  by (induction x) auto

lemma string_less_asym: "string_less x y \<Longrightarrow> \<not> string_less y x"
  by (induction x y rule: string_less.induct) auto

lemma compile_all_Some:
  "compile_all ds = Some cs \<Longrightarrow> length cs = length ds \<and> (\<forall>i < length ds. compileDetector (ds ! i) = Some (cs ! i))"
  by (induction ds arbitrary: cs) (auto split: option.splits simp: less_Suc_eq_0_disj)

lemma compileDetector_accepted:
  "compileDetector spec = Some (PatternDetector d) \<Longrightarrow> accepted (pd_pattern d)"
  by (auto simp: compileDetector_def Let_def accepted_def split: match_spec.splits sum.splits) blast

lemma index_of_id_None: "key \<notin> set ids \<Longrightarrow> index_of_id i ids key = None"
  by (induction i ids key rule: index_of_id.induct) auto

lemma index_of_id_nth: "distinct ids \<Longrightarrow> k < length ids \<Longrightarrow> index_of_id i ids (ids ! k) = Some (i + k)"
proof (induction ids arbitrary: i k)
  case (Cons x xs)
  then show ?case by (cases k) (simp_all add: index_of_id_None)
qed simp

lemma selfTest_Some:
  assumes sup: "\<And>s. supported \<lparr>sx_unicode = U, sx_native = R, sx_text = s, sx_max = None\<rparr> detectors"
    and run: "selfTest U R (new_pack payload detectors) s total' only = (total1, Some results)"
  shows "results = map (\<lambda>i. detector_result U s only i (detectors ! i)) [0 ..< length detectors]"
proof -
  let ?m = "WorkMeter SELF_TEST_WORK_BUDGET 0 (Some total')"
  from run obtain view where "detectAll U R detectors (termGroups detectors) only (new_view s ?m None) = (view, Inr results)"
    by (auto simp: selfTest_def pack_detect_def new_pack_def split: prod.splits sum.splits)
  from tripleD [OF detectAll_triple [OF sup] view_ok_new, unfolded scan_context.simps, OF this] show ?thesis by blast
qed

lemma positives_pass_Inr:
  assumes sup: "\<And>s. supported \<lparr>sx_unicode = U, sx_native = R, sx_text = s, sx_max = None\<rparr> detectors"
  shows "positives_pass U R (new_pack payload detectors) indexOf positives total' = Inr total1 \<Longrightarrow>
    (d, s) \<in> set positives \<Longrightarrow> indexOf d < length detectors \<Longrightarrow>
    detector_result U s None (indexOf d) (detectors ! indexOf d) \<noteq> []"
proof (induction positives arbitrary: total')
  case (Cons p positives)
  obtain d' s' where p: "p = (d', s')" by (cases p)
  from Cons.prems(1) p obtain t results where
    st: "selfTest U R (new_pack payload detectors) s' total' (Some {indexOf d'}) = (t, Some results)"
    and ne: "results ! indexOf d' \<noteq> []"
    and rest: "positives_pass U R (new_pack payload detectors) indexOf positives t = Inr total1"
    by (auto split: prod.splits option.splits if_splits)
  show ?case
  proof (cases "(d, s) = p")
    case True
    with selfTest_Some [OF sup st] ne p Cons.prems(3)
    have "detector_result U s (Some {indexOf d}) (indexOf d) (detectors ! indexOf d) \<noteq> []" by simp
    then show ?thesis by (simp add: detector_result_def wanted_index_def)
  next
    case False
    with Cons.IH [OF rest] Cons.prems(2,3) show ?thesis by simp
  qed
qed simp

lemma negatives_pass_Inr:
  assumes sup: "\<And>s. supported \<lparr>sx_unicode = U, sx_native = R, sx_text = s, sx_max = None\<rparr> detectors"
  shows "negatives_pass U R (new_pack payload detectors) negatives total' = Inr total1 \<Longrightarrow>
    s \<in> set negatives \<Longrightarrow> i < length detectors \<Longrightarrow> detector_result U s None i (detectors ! i) = []"
proof (induction negatives arbitrary: total')
  case (Cons n negatives)
  from Cons.prems(1) obtain t results where
    st: "selfTest U R (new_pack payload detectors) n total' None = (t, Some results)"
    and none: "\<not> list_ex (\<lambda>matches. matches \<noteq> []) results"
    and rest: "negatives_pass U R (new_pack payload detectors) negatives t = Inr total1"
    by (auto split: prod.splits option.splits if_splits)
  show ?case
  proof (cases "s = n")
    case True
    have "results ! i = []" if "i < length results" for i using none that by (auto simp: list_ex_iff)
    with selfTest_Some [OF sup st] True Cons.prems(3) show ?thesis by simp
  next
    case False
    with Cons.IH [OF rest] Cons.prems(2,3) show ?thesis by simp
  qed
qed simp

text \<open>The engine's \<open>RegExp\<close> implements ECMAScript on every context-only pattern of a payload.\<close>

definition native_sound :: "native_engine \<Rightarrow> compiled_detector list \<Rightarrow> bool" where
  "native_sound R detectors \<longleftrightarrow>
     (\<forall>d s. PatternDetector d \<in> set detectors \<longrightarrow> sp_anchor (pd_pattern d) = None \<longrightarrow>
        R (sp_caseInsensitive (pd_pattern d)) (sourceOf (sp_alternatives (pd_pattern d))) s = ecma_all (pd_pattern d) s)"

lemma compile_supported:
  assumes "compile_all ds = Some detectors" and "native_sound R detectors"
  shows "supported \<lparr>sx_unicode = U, sx_native = R, sx_text = s, sx_max = mx\<rparr> detectors"
  unfolding supported_def
proof (intro allI impI conjI)
  fix d assume d: "PatternDetector d \<in> set detectors"
  with compile_all_Some [OF assms(1)] obtain i where "compileDetector (ds ! i) = Some (PatternDetector d)"
    by (metis in_set_conv_nth)
  then show "accepted (pd_pattern d)" by (rule compileDetector_accepted)
  assume "sp_anchor (pd_pattern d) = None"
  with d assms(2) show "native_law \<lparr>sx_unicode = U, sx_native = R, sx_text = s, sx_max = mx\<rparr> (pd_pattern d)"
    by (simp add: native_law_def native_sound_def)
qed

lemma digest_total: "foldl (\<lambda>n d. n + digest_count (ds_match d)) k ds = k + sum_list (map (\<lambda>d. digest_count (ds_match d)) ds)"
  by (induction ds arbitrary: k) auto

section \<open>A sample pack\<close>

definition sample_detector_json :: json where
  "sample_detector_json = JObj
     [(js ''id'', JStr (js ''keys'')), (js ''label'', JStr (js ''Keys'')), (js ''category'', JStr (js ''credential'')),
      (js ''action'', JStr (js ''block'')),
      (js ''match'', JObj [(js ''type'', JStr (js ''pattern'')), (js ''pattern'', JStr (js ''key'' @ [92, 100] @ js ''{1,2}'')),
         (js ''caseInsensitive'', JBool True)])]"

definition sample_pack_json :: json where
  "sample_pack_json = JObj
     [(js ''schemaVersion'', JNum 1), (js ''kind'', JStr (js ''xsom.secret-guard.rules-pack'')),
      (js ''packId'', JStr (js ''p'')), (js ''tenantId'', JStr (js ''t'')), (js ''version'', JNum 1),
      (js ''issuedAt'', JStr (js ''2026-01-01T00:00:00Z'')), (js ''expiresAt'', JStr (js ''2026-02-01T00:00:00Z'')),
      (js ''issuer'', JStr (js ''i'')), (js ''detectors'', JArr [sample_detector_json]),
      (js ''tests'', JObj [(js ''positives'', JArr [JObj [(js ''detector'', JStr (js ''keys'')), (js ''text'', JStr (js ''KEY4''))]]),
         (js ''negatives'', JArr [JStr (js ''x'')])])]"

lemmas schema_defs = isContext_def isPatternMatch_def isTermsMatch_def isDetector_def isTests_def isRulesPackPayload_def
  isObject_def hasOnly_def field_def obj_get_def IDENTIFIER_def TIMESTAMP_def CATEGORIES_def is_lower_alpha_def
  is_digit_def

lemma sample_detector_ok: "isDetector sample_detector_json"
  by (simp add: sample_detector_json_def schema_defs js_def is_high_def)

lemma sample_pack_ok: "isRulesPackPayload sample_pack_json"
  using sample_detector_ok
  by (simp add: sample_pack_json_def isRulesPackPayload_def isObject_def hasOnly_def field_def obj_get_def isTests_def
    IDENTIFIER_def TIMESTAMP_def is_lower_alpha_def is_digit_def js_def is_high_def)
lemma sample_read:
  "read_payload sample_pack_json =
     \<lparr>rp_packId = js ''p'', rp_tenantId = js ''t'', rp_version = 1, rp_issuedAt = js ''2026-01-01T00:00:00Z'',
      rp_expiresAt = js ''2026-02-01T00:00:00Z'', rp_issuer = js ''i'', rp_detectors = [pd_spec sample_detector],
      rp_positives = [(js ''keys'', js ''KEY4'')], rp_negatives = [js ''x'']\<rparr>"
  by (simp add: read_payload_def sample_pack_json_def sample_detector_json_def sample_detector_def read_detector_def
    read_match_def read_context_def field_def obj_get_def CATEGORIES_def js_def)


lemma sample_compile: "compile_all [pd_spec sample_detector] = Some [PatternDetector sample_detector]"
  using validate_sample
  by (simp add: compileDetector_def compileContext_def sample_detector_def)

lemma sample_pack_groups: "termGroups [PatternDetector sample_detector] = []"
  by (simp add: termGroups_def)

lemma sample_positive:
  "selfTest ascii_unicode (\<lambda>_ _ _. []) (new_pack P [PatternDetector sample_detector]) (js ''KEY4'')
     (WorkMeter SELF_TESTS_TOTAL_BUDGET 0 None) (Some {0})
   = (WorkMeter SELF_TESTS_TOTAL_BUDGET 13 None, Some [[(0, 4)]])"
proof -
  have low: "asciiLower (js ''KEY4'') = js ''key4''"
    by (simp add: js_def asciiLower_def ascii_lower_unit_def)
  have i0: "index_of (js ''key4'') [107, 101, 121] 0 = Some 0" "index_of (js ''key4'') [107, 101, 121] (Suc 0) = None"
    by (simp_all add: js_def index_of_def)
  have m: "matchAt sample_pattern (js ''KEY4'') 0
      (WorkMeter SELF_TEST_WORK_BUDGET 3 (Some (WorkMeter SELF_TESTS_TOTAL_BUDGET 3 None)))
     = (WorkMeter SELF_TEST_WORK_BUDGET 13 (Some (WorkMeter SELF_TESTS_TOTAL_BUDGET 13 None)), Inr (Some 4))"
    by (simp add: matchAt_def sample_pattern_def sp_first_def sp_program_def js_def m_bind_def m_spend_def
      m_return_def in_union_set in_set_charSet char_matches_def ascii_lower_unit_def DIGITS_def code_range_def Let_def
      upt_rec parser_numerals numeral_2_eq_2 SELF_TEST_WORK_BUDGET_def SELF_TESTS_TOTAL_BUDGET_def)
  have an: "sp_anchor sample_pattern = Some \<lparr>an_text = [107, 101, 121], an_offsetMin = 0, an_offsetMax = 0\<rparr>"
    "sp_caseInsensitive sample_pattern" by (simp_all add: sample_pattern_def)
  have len: "length (js ''KEY4'') = 4" "length (js ''key4'') = 4" by (simp_all add: js_def)
  let ?meter = "\<lambda>n. WorkMeter SELF_TEST_WORK_BUDGET n (Some (WorkMeter SELF_TESTS_TOTAL_BUDGET n None))"
  have "anchorIntervals sample_detector \<lparr>an_text = [107, 101, 121], an_offsetMin = 0, an_offsetMax = 0\<rparr>
      (new_view (js ''KEY4'') (?meter 0) None)
    = ((new_view (js ''KEY4'') (?meter 3) None)\<lparr>tv_lowered := Some (js ''key4'')\<rparr>, Inr [(0, 0)])"
    by (simp add: anchorIntervals_def sample_fields an lowered_def v_bind_def v_return_def v_spend_def Let_def
        metered_def m_spend_def new_view_def low i0 len ceil_div_def loop_numerals add_interval_def
        SELF_TEST_WORK_BUDGET_def SELF_TESTS_TOTAL_BUDGET_def)
  then have "\<exists>view. detectAll ascii_unicode (\<lambda>_ _ _. []) [PatternDetector sample_detector] [] (Some {0})
      (new_view (js ''KEY4'') (?meter 0) None) = (view, Inr [[(0, 4)]]) \<and> tv_meter view = ?meter 13"
    by (simp add: detectAll_def wanted_index_def patternMatches_def sample_fields an
      v_bind_def v_return_def v_get_def metered_def new_view_def len m loop_numerals keepPatternMatch_def keep_def)
  then show ?thesis
    by (auto simp: selfTest_def pack_detect_def new_pack_def sample_pack_groups)
qed

lemma sample_negative:
  "selfTest ascii_unicode (\<lambda>_ _ _. []) (new_pack P [PatternDetector sample_detector]) (js ''x'')
     (WorkMeter SELF_TESTS_TOTAL_BUDGET 13 None) None
   = (WorkMeter SELF_TESTS_TOTAL_BUDGET 15 None, Some [[]])"
proof -
  have low: "asciiLower (js ''x'') = js ''x''" "index_of (js ''x'') [107, 101, 121] 0 = None" "length (js ''x'') = 1"
    by (simp_all add: js_def asciiLower_def ascii_lower_unit_def index_of_def)
  have an: "sp_anchor sample_pattern = Some \<lparr>an_text = [107, 101, 121], an_offsetMin = 0, an_offsetMax = 0\<rparr>"
    "sp_caseInsensitive sample_pattern" by (simp_all add: sample_pattern_def)
  let ?meter = "\<lambda>n. WorkMeter SELF_TEST_WORK_BUDGET n (Some (WorkMeter SELF_TESTS_TOTAL_BUDGET (13 + n) None))"
  have "anchorIntervals sample_detector \<lparr>an_text = [107, 101, 121], an_offsetMin = 0, an_offsetMax = 0\<rparr>
      (new_view (js ''x'') (?meter 0) None)
    = ((new_view (js ''x'') (?meter 2) None)\<lparr>tv_lowered := Some (js ''x'')\<rparr>, Inr [])"
    by (simp add: anchorIntervals_def sample_fields an lowered_def v_bind_def v_return_def v_spend_def Let_def
        metered_def m_spend_def new_view_def low ceil_div_def loop_numerals
        SELF_TEST_WORK_BUDGET_def SELF_TESTS_TOTAL_BUDGET_def)
  then have "\<exists>view. detectAll ascii_unicode (\<lambda>_ _ _. []) [PatternDetector sample_detector] [] None
      (new_view (js ''x'') (?meter 0) None) = (view, Inr [[]]) \<and> tv_meter view = ?meter 2"
    by (simp add: detectAll_def wanted_index_def patternMatches_def sample_fields an
      v_bind_def v_return_def new_view_def keep_def)
  then show ?thesis
    by (auto simp: selfTest_def pack_detect_def new_pack_def sample_pack_groups)
qed

lemma sample_pack_compiles:
  "compileRulesPack ascii_unicode (\<lambda>_ _ _. []) sample_pack_json True
    = Inr (new_pack (read_payload sample_pack_json) [PatternDetector sample_detector])"
proof -
  have less: "string_less (js ''2026-01-01T00:00:00Z'') (js ''2026-02-01T00:00:00Z'')" by (simp add: js_def)
  have spec: "ds_id (pd_spec sample_detector) = js ''keys''" "digest_count (ds_match (pd_spec sample_detector)) = 0"
    by (simp_all add: sample_detector_def)
  show ?thesis
    using sample_pack_ok
    by (simp add: compileRulesPack_def sample_read sample_compile less spec sample_positive sample_negative Let_def
      del: string_less.simps compile_all.simps)
qed

section \<open>Properties\<close>



end
