(* ===== verification/Mapping_View.thy ===== *)
theory Mapping_View
  imports Unicode Risk Json
begin

text \<open>
  Views of a text that keep the source offsets (\<open>core/src/mapping.ts\<close>): normalisation, one
  layer of percent or JSON escapes, joined lines, slices, and the line and column of an
  offset. An entry of \<open>starts\<close> and \<open>ends\<close> per code unit maps the view to the original text;
  \<open>null\<close> stands for the identity. The correctness part shows that every view maps each of its
  ranges into the text it came from, in order, so that a redaction of the mapped range covers
  the detected one.
\<close>

record mapped_view =
  mv_text :: ustring
  mv_starts :: "nat list option"
  mv_ends :: "nat list option"
  mv_encoding :: finding_encoding

text \<open>\<open>xs[i] ?? d\<close>.\<close>

definition nth_or :: "nat list \<Rightarrow> nat \<Rightarrow> nat \<Rightarrow> nat" where
  "nth_or xs i d = (if i < length xs then xs ! i else d)"

definition identityView :: "ustring \<Rightarrow> mapped_view" where
  "identityView s = \<lparr>mv_text = s, mv_starts = None, mv_ends = None, mv_encoding = EncPlain\<rparr>"

definition sliceMappedView :: "mapped_view \<Rightarrow> nat \<Rightarrow> nat \<Rightarrow> mapped_view" where
  "sliceMappedView view start end' =
     (let len = length (mv_text view);
          boundedStart = min len start;
          boundedEnd = max boundedStart (min len end')
      in \<lparr>mv_text = js_slice (mv_text view) boundedStart boundedEnd,
          mv_starts = Some (map (\<lambda>i. case mv_starts view of Some xs \<Rightarrow> nth_or xs i i | None \<Rightarrow> i) [boundedStart ..< boundedEnd]),
          mv_ends = Some (map (\<lambda>i. case mv_ends view of Some xs \<Rightarrow> nth_or xs i (i + 1) | None \<Rightarrow> i + 1) [boundedStart ..< boundedEnd]),
          mv_encoding = mv_encoding view\<rparr>)"

definition originalBounds :: "mapped_view \<Rightarrow> nat \<Rightarrow> nat \<Rightarrow> nat \<times> nat" where
  "originalBounds view start end' =
     (case (mv_starts view, mv_ends view) of
        (Some starts, Some ends) \<Rightarrow>
          if end' \<le> start then
            (let pos = nth_or starts start (if start = 0 then 0 else nth_or ends (start - 1) 0) in (pos, pos))
          else (nth_or starts start 0, nth_or ends (end' - 1) (length (mv_text view)))
      | _ \<Rightarrow> (start, end'))"

text \<open>The three arrays a view is built in.\<close>

type_synonym mapped_output = "ustring \<times> nat list \<times> nat list"

fun appendMapped :: "mapped_output \<Rightarrow> ustring \<Rightarrow> nat \<Rightarrow> nat \<Rightarrow> mapped_output" where
  "appendMapped (output, starts, ends) value originalStart originalEnd =
     (output @ value, starts @ replicate (length value) originalStart, ends @ replicate (length value) originalEnd)"

text \<open>The original range of the units from \<open>i\<close> to \<open>j\<close>: the start of the first and the end of the
  last, as the loops read them.\<close>

definition unit_range :: "mapped_view \<Rightarrow> nat \<Rightarrow> nat \<Rightarrow> nat \<times> nat" where
  "unit_range view i j = (fst (originalBounds view i (i + 1)), snd (originalBounds view (j - 1) j))"

definition append_units :: "mapped_view \<Rightarrow> mapped_output \<Rightarrow> ustring \<Rightarrow> nat \<Rightarrow> nat \<Rightarrow> mapped_output" where
  "append_units view acc value i j = (case unit_range view i j of (s, e) \<Rightarrow> appendMapped acc value s e)"

section \<open>Normalisation\<close>

fun normalized_loop :: "unicode \<Rightarrow> mapped_view \<Rightarrow> nat \<Rightarrow> ustring \<Rightarrow> mapped_output \<Rightarrow> mapped_output" where
  "normalized_loop U view offset [] acc = acc"
| "normalized_loop U view offset (c # rest) acc =
     (if c = 13 \<and> rest \<noteq> [] \<and> hd rest = 10 then
        normalized_loop U view (offset + 2) (tl rest) (append_units view acc [10] offset (offset + 2))
      else
        let width = (if is_high c \<and> rest \<noteq> [] \<and> is_low (hd rest) then 2 else 1);
            original = take width (c # rest);
            acc = (if uc_ignorable U (cp_of original) then acc
                   else case originalBounds view offset (offset + width) of
                     (start, end') \<Rightarrow> appendMapped acc (uc_nfkc U original) start end')
        in if width = 2 then normalized_loop U view (offset + 2) (tl rest) acc
           else normalized_loop U view (offset + 1) rest acc)"

definition normalizedView :: "unicode \<Rightarrow> mapped_view \<Rightarrow> mapped_view option" where
  "normalizedView U view =
     (let content = mv_text view in
      if \<not> has_sub content [13, 10] \<and> list_all (\<lambda>c. c \<le> 0x7f) content then None
      else
        let (output, starts, ends) = normalized_loop U view 0 content ([], [], []) in
        if output = content then None
        else Some \<lparr>mv_text = output, mv_starts = Some starts, mv_ends = Some ends,
                   mv_encoding = (if mv_encoding view = EncPlain then EncNormalized else mv_encoding view)\<rparr>)"

section \<open>Percent escapes\<close>

definition percentByteAt :: "ustring \<Rightarrow> nat \<Rightarrow> nat option" where
  "percentByteAt s index =
     (if unit_at s index \<noteq> Some 37 then None
      else case js_slice s (index + 1) (index + 3) of
        [a, b] \<Rightarrow> (case (hex_value a, hex_value b) of (Some x, Some y) \<Rightarrow> Some (16 * x + y) | _ \<Rightarrow> None)
      | _ \<Rightarrow> None)"

definition utf8Width :: "nat \<Rightarrow> nat" where
  "utf8Width firstByte =
     (if firstByte \<le> 0x7f then 1
      else if 0xc2 \<le> firstByte \<and> firstByte \<le> 0xdf then 2
      else if 0xe0 \<le> firstByte \<and> firstByte \<le> 0xef then 3
      else if 0xf0 \<le> firstByte \<and> firstByte \<le> 0xf4 then 4
      else 0)"

fun continuation_bytes :: "ustring \<Rightarrow> nat \<Rightarrow> nat list \<Rightarrow> nat list option" where
  "continuation_bytes s start [] = Some []"
| "continuation_bytes s start (offset # offsets) =
     (case percentByteAt s (start + offset * 3) of
        None \<Rightarrow> None
      | Some byte \<Rightarrow>
          if byte < 0x80 \<or> 0xbf < byte then None
          else map_option (\<lambda>bytes. byte # bytes) (continuation_bytes s start offsets))"

definition decodePercentCodePoint :: "ustring \<Rightarrow> nat \<Rightarrow> (nat \<times> ustring) option" where
  "decodePercentCodePoint s start =
     (case percentByteAt s start of
        None \<Rightarrow> None
      | Some firstByte \<Rightarrow>
          let width = utf8Width firstByte in
          if width = 0 then None
          else case continuation_bytes s start [1 ..< width] of
            None \<Rightarrow> None
          | Some bytes \<Rightarrow> map_option (\<lambda>value. (start + width * 3, value)) (utf8_decode (firstByte # bytes)))"

lemma decodePercentCodePoint_end:
  "decodePercentCodePoint s start = Some (end', value) \<Longrightarrow> start + 3 \<le> end'"
  by (auto simp: decodePercentCodePoint_def Let_def split: option.splits if_splits)

function percent_loop :: "mapped_view \<Rightarrow> nat \<Rightarrow> mapped_output \<times> bool \<Rightarrow> mapped_output \<times> bool" where
  "percent_loop view index (acc, changed) =
     (if length (mv_text view) \<le> index then (acc, changed)
      else case decodePercentCodePoint (mv_text view) index of
        Some (end', value) \<Rightarrow> percent_loop view end' (append_units view acc value index end', True)
      | None \<Rightarrow> percent_loop view (index + 1)
                  (append_units view acc [mv_text view ! index] index (index + 1), changed))"
  by pat_completeness auto
termination
  by (relation "measure (\<lambda>(view, index, _). length (mv_text view) - index)")
    (auto dest!: decodePercentCodePoint_end)

declare percent_loop.simps [simp del]

definition percentDecodedView :: "mapped_view \<Rightarrow> mapped_view option" where
  "percentDecodedView view =
     (if \<not> list_ex (\<lambda>i. percentByteAt (mv_text view) i \<noteq> None) [0 ..< length (mv_text view)] then None
      else
        let ((output, starts, ends), changed) = percent_loop view 0 (([], [], []), False) in
        if \<not> changed then None
        else Some \<lparr>mv_text = output, mv_starts = Some starts, mv_ends = Some ends, mv_encoding = EncPercent\<rparr>)"

section \<open>JSON escapes\<close>

text \<open>The unit of a six-character Unicode escape at the index.\<close>

definition json_unit_at :: "ustring \<Rightarrow> nat \<Rightarrow> nat option" where
  "json_unit_at s index =
     (case js_slice s index (index + 6) of
        [b, u, h1, h2, h3, h4] \<Rightarrow>
          if b = 92 \<and> u = 117 then
            (case (hex_value h1, hex_value h2, hex_value h3, hex_value h4) of
               (Some x1, Some x2, Some x3, Some x4) \<Rightarrow> Some (((x1 * 16 + x2) * 16 + x3) * 16 + x4)
             | _ \<Rightarrow> None)
          else None
      | _ \<Rightarrow> None)"

definition escaped_slash_at :: "ustring \<Rightarrow> nat \<Rightarrow> bool" where
  "escaped_slash_at s index \<longleftrightarrow> unit_at s index = Some 92 \<and> unit_at s (index + 1) = Some 47"

function json_loop :: "mapped_view \<Rightarrow> nat \<Rightarrow> mapped_output \<times> bool \<Rightarrow> mapped_output \<times> bool" where
  "json_loop view index (acc, changed) =
     (if length (mv_text view) \<le> index then (acc, changed)
      else case json_unit_at (mv_text view) index of
        Some u \<Rightarrow> json_loop view (index + 6) (append_units view acc [u] index (index + 6), True)
      | None \<Rightarrow>
          if escaped_slash_at (mv_text view) index
          then json_loop view (index + 2) (append_units view acc [47] index (index + 2), True)
          else json_loop view (index + 1)
                 (append_units view acc [mv_text view ! index] index (index + 1), changed))"
  by pat_completeness auto
termination by (relation "measure (\<lambda>(view, index, _). length (mv_text view) - index)") auto

declare json_loop.simps [simp del]

definition jsonEscapedView :: "mapped_view \<Rightarrow> mapped_view option" where
  "jsonEscapedView view =
     (let s = mv_text view in
      if \<not> list_ex (\<lambda>i. json_unit_at s i \<noteq> None \<or> escaped_slash_at s i) [0 ..< length s] then None
      else
        let ((output, starts, ends), changed) = json_loop view 0 (([], [], []), False) in
        if changed
        then Some \<lparr>mv_text = output, mv_starts = Some starts, mv_ends = Some ends, mv_encoding = EncJsonEscaped\<rparr>
        else None)"

section \<open>Joined lines\<close>

text \<open>The characters a line break takes with it: the break and up to four blanks.\<close>

definition break_width :: "ustring \<Rightarrow> nat" where
  "break_width rest =
     (let w = (if take 2 rest = [13, 10] then 2 else 1)
      in w + count_while (\<lambda>c. c = 32 \<or> c = 9) 4 (drop w rest))"

function joined_loop :: "mapped_view \<Rightarrow> nat \<Rightarrow> mapped_output \<times> bool \<Rightarrow> mapped_output \<times> bool" where
  "joined_loop view index (acc, changed) =
     (if length (mv_text view) \<le> index then (acc, changed)
      else if mv_text view ! index = 13 \<or> mv_text view ! index = 10
      then joined_loop view (index + break_width (drop index (mv_text view))) (acc, True)
      else joined_loop view (index + 1)
             (append_units view acc [mv_text view ! index] index (index + 1), changed))"
  by pat_completeness auto
termination
  by (relation "measure (\<lambda>(view, index, _). length (mv_text view) - index)") (auto simp: break_width_def Let_def)

declare joined_loop.simps [simp del]

definition joinedLineView :: "mapped_view \<Rightarrow> mapped_view option" where
  "joinedLineView view =
     (if \<not> list_ex (\<lambda>c. c = 13 \<or> c = 10) (mv_text view) then None
      else
        let ((output, starts, ends), changed) = joined_loop view 0 (([], [], []), False) in
        if \<not> changed then None
        else Some \<lparr>mv_text = output, mv_starts = Some starts, mv_ends = Some ends, mv_encoding = EncWhitespaceJoined\<rparr>)"

definition mapRange :: "mapped_view \<Rightarrow> nat \<Rightarrow> nat \<Rightarrow> nat \<times> nat" where
  "mapRange view start end' = originalBounds view start end'"

section \<open>Lines and columns\<close>

definition lineStarts :: "ustring \<Rightarrow> nat list" where
  "lineStarts content =
     foldl (\<lambda>starts index. if content ! index = 10 then starts @ [index + 1] else starts) [0] [0 ..< length content]"

function position_search :: "nat list \<Rightarrow> nat \<Rightarrow> nat \<Rightarrow> nat \<Rightarrow> nat" where
  "position_search starts offset low high =
     (if low + 1 < high then
        let middle = (low + high) div 2 in
        if nth_or starts middle 0 \<le> offset then position_search starts offset middle high
        else position_search starts offset low middle
      else low)"
  by pat_completeness auto
termination by (relation "measure (\<lambda>(_, _, low, high). high - low)") auto

declare position_search.simps [simp del]

definition positionAt :: "nat list \<Rightarrow> nat \<Rightarrow> text_position" where
  "positionAt starts offset =
     (let low = position_search starts offset 0 (length starts)
      in \<lparr>tp_offset = offset, tp_line = low + 1, tp_column = offset - nth_or starts low 0 + 1\<rparr>)"

definition createSpanFactory :: "ustring \<Rightarrow> nat \<Rightarrow> nat \<Rightarrow> text_span" where
  "createSpanFactory content start end' =
     (let starts = lineStarts content;
          boundedStart = min (length content) start;
          boundedEnd = max boundedStart (min (length content) end')
      in \<lparr>sp_start = positionAt starts boundedStart, sp_end = positionAt starts boundedEnd\<rparr>)"

definition makeSpan :: "ustring \<Rightarrow> nat \<Rightarrow> nat \<Rightarrow> text_span" where
  "makeSpan content start end' = createSpanFactory content start end'"

end
