(* ===== verification/Mapping_Correct.thy ===== *)
theory Mapping_Correct
  imports Mapping_View
begin

text \<open>
  Correctness of the mapped views: every view derived from a text maps its ranges into that
  text, in order; percent decoding inverts percent encoding; the binary search finds the line
  and the column of an offset.
\<close>

section \<open>Well-formed views\<close>

definition view_wf :: "nat \<Rightarrow> mapped_view \<Rightarrow> bool" where
  "view_wf n view \<longleftrightarrow>
     (case (mv_starts view, mv_ends view) of
        (None, None) \<Rightarrow> length (mv_text view) = n
      | (Some starts, Some ends) \<Rightarrow>
          length starts = length (mv_text view) \<and> length ends = length (mv_text view) \<and>
          sorted starts \<and> sorted ends \<and>
          (\<forall>i < length starts. starts ! i < ends ! i \<and> ends ! i \<le> n)
      | _ \<Rightarrow> False)"

lemma view_wf_identity: "view_wf (length s) (identityView s)"
  by (simp add: view_wf_def identityView_def)

lemma view_wf_cases:
  assumes "view_wf n view"
  obtains "mv_starts view = None" "mv_ends view = None" "length (mv_text view) = n"
  | S E where "mv_starts view = Some S" "mv_ends view = Some E" "length S = length (mv_text view)"
    "length E = length (mv_text view)" "sorted S" "sorted E" "\<And>i. i < length (mv_text view) \<Longrightarrow> S ! i < E ! i \<and> E ! i \<le> n"
  using assms by (auto simp: view_wf_def split: option.splits)

text \<open>The original range of the unit at an index.\<close>

definition unit_start :: "mapped_view \<Rightarrow> nat \<Rightarrow> nat" where
  "unit_start view i = (case mv_starts view of Some S \<Rightarrow> S ! i | None \<Rightarrow> i)"

definition unit_end :: "mapped_view \<Rightarrow> nat \<Rightarrow> nat" where
  "unit_end view i = (case mv_ends view of Some E \<Rightarrow> E ! i | None \<Rightarrow> i + 1)"

lemma originalBounds_units:
  assumes "view_wf n view" and "i < j" and "j \<le> length (mv_text view)"
  shows "originalBounds view i j = (unit_start view i, unit_end view (j - 1))"
  using assms(1)
  by (rule view_wf_cases) (use assms(2,3) in \<open>auto simp: originalBounds_def unit_start_def unit_end_def nth_or_def\<close>)

lemma unit_range_units:
  assumes "view_wf n view" and "i < j" and "j \<le> length (mv_text view)"
  shows "unit_range view i j = (unit_start view i, unit_end view (j - 1))"
proof -
  have "originalBounds view i (i + 1) = (unit_start view i, unit_end view i)"
    using originalBounds_units [OF assms(1), of i "i + 1"] assms by simp
  moreover have "originalBounds view (j - 1) j = (unit_start view (j - 1), unit_end view (j - 1))"
    using originalBounds_units [OF assms(1), of "j - 1" j] assms by simp
  ultimately show ?thesis by (simp add: unit_range_def)
qed

lemma unit_facts:
  assumes "view_wf n view" and "i \<le> j" and "j < length (mv_text view)"
  shows "unit_start view i \<le> unit_start view j" "unit_end view i \<le> unit_end view j"
    "unit_start view i < unit_end view j" "unit_end view j \<le> n"
proof -
  have "unit_start view i \<le> unit_start view j \<and> unit_end view i \<le> unit_end view j \<and> unit_start view j < unit_end view j \<and>
    unit_end view j \<le> n"
    using assms(1)
    by (rule view_wf_cases) (use assms(2,3) in \<open>auto simp: unit_start_def unit_end_def sorted_nth_mono\<close>)
  then show "unit_start view i \<le> unit_start view j" "unit_end view i \<le> unit_end view j"
    "unit_start view i < unit_end view j" "unit_end view j \<le> n" by auto
qed

section \<open>The arrays of a view under construction\<close>

definition out_inv :: "nat \<Rightarrow> mapped_view \<Rightarrow> nat \<Rightarrow> mapped_output \<Rightarrow> bool" where
  "out_inv n view index = (\<lambda>(output, S, E).
     length S = length output \<and> length E = length output \<and> sorted S \<and> sorted E \<and>
     (\<forall>i < length S. S ! i < E ! i \<and> E ! i \<le> n) \<and>
     (\<forall>x \<in> set S. \<forall>k. index \<le> k \<longrightarrow> k < length (mv_text view) \<longrightarrow> x \<le> unit_start view k) \<and>
     (\<forall>x \<in> set E. \<forall>k. index \<le> k \<longrightarrow> k < length (mv_text view) \<longrightarrow> x \<le> unit_end view k))"

lemma out_inv_start: "out_inv n view 0 ([], [], [])"
  by (simp add: out_inv_def)

lemma out_inv_later: "out_inv n view index acc \<Longrightarrow> index \<le> index' \<Longrightarrow> out_inv n view index' acc"
  by (auto simp: out_inv_def)

lemma out_inv_append:
  assumes wf: "view_wf n view" and inv: "out_inv n view i acc" and ij: "i < j" "j \<le> length (mv_text view)"
  shows "out_inv n view j (appendMapped acc value (unit_start view i) (unit_end view (j - 1)))"
proof -
  obtain out S E where acc: "acc = (out, S, E)" by (cases acc)
  let ?s = "unit_start view i" and ?e = "unit_end view (j - 1)"
  have last: "j - 1 < length (mv_text view)" "i \<le> j - 1" using ij by auto
  note f = unit_facts [OF wf last(2,1)]
  from inv acc have len: "length S = length out" "length E = length out" "sorted S" "sorted E"
    and lt: "\<And>k. k < length S \<Longrightarrow> S ! k < E ! k \<and> E ! k \<le> n"
    and s: "\<And>x. x \<in> set S \<Longrightarrow> x \<le> ?s" and e: "\<And>x. x \<in> set E \<Longrightarrow> x \<le> ?e"
    using last ij by (auto simp: out_inv_def)
  have later: "?s \<le> unit_start view k" "?e \<le> unit_end view k" if "j \<le> k" "k < length (mv_text view)" for k
    using unit_facts(1) [OF wf _ that(2), of i] unit_facts(2) [OF wf _ that(2), of "j - 1"] that ij by auto
  have "(S @ replicate (length value) ?s) ! k < (E @ replicate (length value) ?e) ! k \<and>
      (E @ replicate (length value) ?e) ! k \<le> n" if "k < length S + length value" for k
    using that lt [of k] len f(3,4) by (auto simp: nth_append)
  moreover have "sorted (S @ replicate (length value) ?s)" "sorted (E @ replicate (length value) ?e)"
    using len s e by (auto simp: sorted_append)
  moreover have "\<forall>x \<in> set (S @ replicate (length value) ?s). \<forall>k. j \<le> k \<longrightarrow> k < length (mv_text view) \<longrightarrow> x \<le> unit_start view k"
    using s later(1) by (auto intro: order.trans)
  moreover have "\<forall>x \<in> set (E @ replicate (length value) ?e). \<forall>k. j \<le> k \<longrightarrow> k < length (mv_text view) \<longrightarrow> x \<le> unit_end view k"
    using e later(2) by (auto intro: order.trans)
  ultimately show ?thesis using len unfolding acc appendMapped.simps out_inv_def by simp
qed

lemma out_inv_append_units:
  assumes "view_wf n view" and "out_inv n view i acc" and "i < j" and "j \<le> length (mv_text view)"
  shows "out_inv n view j (append_units view acc value i j)"
  using out_inv_append [OF assms] unit_range_units [OF assms(1,3,4)] by (simp add: append_units_def)

lemma view_wf_built:
  "out_inv n view index (output, S, E) \<Longrightarrow>
     view_wf n \<lparr>mv_text = output, mv_starts = Some S, mv_ends = Some E, mv_encoding = e\<rparr>"
  by (simp add: out_inv_def view_wf_def)

lemma percentByteAt_inside: "percentByteAt s i = Some b \<Longrightarrow> i + 3 \<le> length s"
  by (auto simp: percentByteAt_def js_slice_def sublist_at_def dest!: arg_cong [where f = length]
      split: if_splits list.splits)

lemma continuation_inside:
  "continuation_bytes s start offsets = Some bytes \<Longrightarrow> k \<in> set offsets \<Longrightarrow> start + k * 3 + 3 \<le> length s"
  by (induction offsets arbitrary: bytes)
    (auto split: option.splits if_splits dest: percentByteAt_inside)

lemma decodePercentCodePoint_inside:
  assumes "decodePercentCodePoint s start = Some (end', value)"
  shows "end' \<le> length s"
proof -
  from assms obtain b bytes where b: "percentByteAt s start = Some b"
    and c: "continuation_bytes s start [1 ..< utf8Width b] = Some bytes" and e: "end' = start + utf8Width b * 3"
    and w: "utf8Width b \<noteq> 0"
    by (auto simp: decodePercentCodePoint_def Let_def split: option.splits if_splits)
  show ?thesis
  proof (cases "utf8Width b = 1")
    case True
    with percentByteAt_inside [OF b] e show ?thesis by simp
  next
    case False
    with w have "utf8Width b - 1 \<in> set [1 ..< utf8Width b]" by auto
    from continuation_inside [OF c this] e w show ?thesis by (cases "utf8Width b") auto
  qed
qed

section \<open>Every derived view is well formed\<close>

lemma normalized_loop_inv:
  "view_wf n view \<Longrightarrow> rest = drop offset (mv_text view) \<Longrightarrow> out_inv n view offset acc \<Longrightarrow> offset \<le> length (mv_text view) \<Longrightarrow>
    \<exists>index. out_inv n view index (normalized_loop U view offset rest acc)"
proof (induction U view offset rest acc rule: normalized_loop.induct)
  case (1 U view offset acc)
  then show ?case by auto
next
  case (2 U view offset c rest acc)
  note wf = "2.prems"(1)
  let ?len = "length (mv_text view)"
  have rest: "rest = drop (offset + 1) (mv_text view)"
    using "2.prems"(2) by (metis Suc_eq_plus1 drop_Suc list.sel(3) tl_drop)
  have lt: "offset + 1 \<le> ?len" using "2.prems"(2) by (cases "offset < ?len") auto
  have tl: "tl rest = drop (offset + 2) (mv_text view)" by (simp add: rest tl_drop drop_Suc [symmetric])
  have lt2: "rest \<noteq> [] \<Longrightarrow> offset + 2 \<le> ?len" using rest by (cases "offset + 1 < ?len") auto
  note app = out_inv_append_units [OF wf "2.prems"(3)]
  show ?case
  proof (cases "c = 13 \<and> rest \<noteq> [] \<and> hd rest = 10")
    case True
    then have "offset + 2 \<le> ?len" using lt2 by simp
    from "2.IH"(1) [OF True wf tl app [OF _ this] this] True show ?thesis by simp
  next
    case no: False
    let ?width = "if is_high c \<and> rest \<noteq> [] \<and> is_low (hd rest) then 2 else 1 :: nat"
    let ?original = "take ?width (c # rest)"
    let ?acc = "if uc_ignorable U (cp_of ?original) then acc
       else case originalBounds view offset (offset + ?width) of (start, end') \<Rightarrow> appendMapped acc (uc_nfkc U ?original) start end'"
    have w: "offset + ?width \<le> ?len" using lt lt2 by auto
    have acc: "out_inv n view (offset + ?width) ?acc"
    proof (cases "uc_ignorable U (cp_of ?original)")
      case True
      then show ?thesis using out_inv_later [OF "2.prems"(3)] by simp
    next
      case False
      have "offset < offset + ?width" by simp
      from out_inv_append [OF wf "2.prems"(3) this w] originalBounds_units [OF wf this w] False
      show ?thesis by simp
    qed
    show ?thesis
    proof (cases "is_high c \<and> rest \<noteq> [] \<and> is_low (hd rest)")
      case True
      then have w2: "?width = 2" by simp
      from acc w have "out_inv n view (offset + 2) ?acc" "offset + 2 \<le> ?len" unfolding w2 by auto
      from "2.IH"(2) [OF no refl refl refl w2 wf tl this] show ?thesis
        unfolding normalized_loop.simps if_not_P [OF no] Let_def if_P [OF w2] .
    next
      case False
      then have w1: "?width = 1" by simp
      then have w2: "\<not> ?width = 2" by simp
      from acc w have "out_inv n view (offset + 1) ?acc" "offset + 1 \<le> ?len" unfolding w1 by auto
      from "2.IH"(3) [OF no refl refl refl w2 wf rest this] show ?thesis
        unfolding normalized_loop.simps if_not_P [OF no] Let_def if_not_P [OF w2] .
    qed
  qed
qed

lemma percent_loop_inv:
  assumes wf: "view_wf n view"
  shows "out_inv n view index acc \<Longrightarrow> \<exists>i. out_inv n view i (fst (percent_loop view index (acc, changed)))"
proof (induction "length (mv_text view) - index" arbitrary: index acc changed rule: less_induct)
  case less
  show ?case
  proof (cases "length (mv_text view) \<le> index")
    case True
    with less.prems show ?thesis by (auto simp: percent_loop.simps [of view index])
  next
    case False
    show ?thesis
    proof (cases "decodePercentCodePoint (mv_text view) index")
      case None
      from less.hyps [OF _ out_inv_append_units [OF wf less.prems, of "index + 1"]] False None
      show ?thesis by (auto simp: percent_loop.simps [of view index])
    next
      case (Some r)
      obtain e v where r: "r = (e, v)" by (cases r)
      note e = decodePercentCodePoint_end [OF Some [unfolded r]] decodePercentCodePoint_inside [OF Some [unfolded r]]
      from less.hyps [OF _ out_inv_append_units [OF wf less.prems _ e(2)]] e(1) False Some r
      show ?thesis by (auto simp: percent_loop.simps [of view index])
    qed
  qed
qed

lemma json_loop_inv:
  assumes wf: "view_wf n view"
  shows "out_inv n view index acc \<Longrightarrow> \<exists>i. out_inv n view i (fst (json_loop view index (acc, changed)))"
proof (induction "length (mv_text view) - index" arbitrary: index acc changed rule: less_induct)
  case less
  let ?s = "mv_text view"
  note app = out_inv_append_units [OF wf less.prems]
  show ?case
  proof (cases "length ?s \<le> index")
    case True
    with less.prems show ?thesis by (auto simp: json_loop.simps [of view index])
  next
    case False
    show ?thesis
    proof (cases "json_unit_at ?s index")
      case (Some u)
      then have "index + 6 \<le> length ?s"
        by (auto simp: json_unit_at_def js_slice_def sublist_at_def dest!: arg_cong [where f = length]
          split: list.splits)
      from less.hyps [OF _ app [OF _ this]] False Some show ?thesis by (auto simp: json_loop.simps [of view index])
    next
      case None
      show ?thesis
      proof (cases "escaped_slash_at ?s index")
        case True
        then have "index + 2 \<le> length ?s" by (auto simp: escaped_slash_at_def unit_at_def split: if_splits)
        from less.hyps [OF _ app [OF _ this]] False None True show ?thesis by (auto simp: json_loop.simps [of view index])
      next
        case no: False
        from less.hyps [OF _ app [of "index + 1"]] False None no show ?thesis by (auto simp: json_loop.simps [of view index])
      qed
    qed
  qed
qed

lemma joined_loop_inv:
  assumes wf: "view_wf n view"
  shows "out_inv n view index acc \<Longrightarrow> \<exists>i. out_inv n view i (fst (joined_loop view index (acc, changed)))"
proof (induction "length (mv_text view) - index" arbitrary: index acc changed rule: less_induct)
  case less
  have w: "0 < break_width r" for r by (simp add: break_width_def Let_def)
  show ?case
  proof (cases "length (mv_text view) \<le> index")
    case True
    with less.prems show ?thesis by (auto simp: joined_loop.simps [of view index])
  next
    case False
    show ?thesis
    proof (cases "mv_text view ! index = 13 \<or> mv_text view ! index = 10")
      case True
      let ?i = "index + break_width (drop index (mv_text view))"
      have "out_inv n view ?i acc" by (rule out_inv_later [OF less.prems]) simp
      from less.hyps [OF _ this] w [of "drop index (mv_text view)"] False True show ?thesis
        by (auto simp: joined_loop.simps [of view index])
    next
      case no: False
      from less.hyps [OF _ out_inv_append_units [OF wf less.prems, of "index + 1"]] False no
      show ?thesis by (auto simp: joined_loop.simps [of view index])
    qed
  qed
qed

text \<open>The views the scanner builds, from a text: each step is one of the view operations.\<close>

inductive derived_view :: "unicode \<Rightarrow> ustring \<Rightarrow> mapped_view \<Rightarrow> bool" for U s where
  identity: "derived_view U s (identityView s)"
| normalized: "derived_view U s v \<Longrightarrow> normalizedView U v = Some v' \<Longrightarrow> derived_view U s v'"
| percent: "derived_view U s v \<Longrightarrow> percentDecodedView v = Some v' \<Longrightarrow> derived_view U s v'"
| escaped: "derived_view U s v \<Longrightarrow> jsonEscapedView v = Some v' \<Longrightarrow> derived_view U s v'"
| joined: "derived_view U s v \<Longrightarrow> joinedLineView v = Some v' \<Longrightarrow> derived_view U s v'"
| sliced: "derived_view U s v \<Longrightarrow> derived_view U s (sliceMappedView v i j)"

inductive_cases derived_viewE: "derived_view U s v"

lemma normalizedView_wf:
  assumes "view_wf n view" and "normalizedView U view = Some view'"
  shows "view_wf n view'"
proof -
  obtain u S E where r: "normalized_loop U view 0 (mv_text view) ([], [], []) = (u, S, E)"
    by (cases "normalized_loop U view 0 (mv_text view) ([], [], [])")
  from normalized_loop_inv [OF assms(1), of "mv_text view" 0 "([], [], [])" U] out_inv_start
  obtain index where "out_inv n view index (u, S, E)" using r by auto
  with assms(2) r view_wf_built show ?thesis
    by (auto simp: normalizedView_def Let_def split: if_splits)
qed

lemma built_wf:
  assumes "\<exists>i. out_inv n view i (fst r)" and "r = ((u, S, E), changed)"
  shows "view_wf n \<lparr>mv_text = u, mv_starts = Some S, mv_ends = Some E, mv_encoding = e\<rparr>"
  using assms view_wf_built by auto

lemma percentDecodedView_wf: "view_wf n view \<Longrightarrow> percentDecodedView view = Some view' \<Longrightarrow> view_wf n view'"
  using built_wf [OF percent_loop_inv [OF _ out_inv_start]]
  by (auto simp: percentDecodedView_def split: if_splits prod.splits)

lemma jsonEscapedView_wf: "view_wf n view \<Longrightarrow> jsonEscapedView view = Some view' \<Longrightarrow> view_wf n view'"
  using built_wf [OF json_loop_inv [OF _ out_inv_start]]
  by (auto simp: jsonEscapedView_def Let_def split: if_splits prod.splits)

lemma joinedLineView_wf: "view_wf n view \<Longrightarrow> joinedLineView view = Some view' \<Longrightarrow> view_wf n view'"
  using built_wf [OF joined_loop_inv [OF _ out_inv_start]]
  by (auto simp: joinedLineView_def split: if_splits prod.splits)

lemma sliceMappedView_wf:
  assumes "view_wf n view"
  shows "view_wf n (sliceMappedView view i j)"
proof -
  let ?len = "length (mv_text view)"
  define a where "a = min ?len i"
  define b where "b = max a (min ?len j)"
  have b: "a \<le> b" "b \<le> ?len" by (auto simp: a_def b_def)
  have slice: "sliceMappedView view i j =
    \<lparr>mv_text = js_slice (mv_text view) a b, mv_starts = Some (map (unit_start view) [a ..< b]),
     mv_ends = Some (map (unit_end view) [a ..< b]), mv_encoding = mv_encoding view\<rparr>"
    using assms
    by (rule view_wf_cases)
      (use b in \<open>auto simp: sliceMappedView_def Let_def a_def [symmetric] b_def [symmetric] unit_start_def [abs_def] unit_end_def [abs_def] nth_or_def\<close>)
  have "sorted (map (unit_start view) [a ..< b])" "sorted (map (unit_end view) [a ..< b])"
    unfolding sorted_iff_nth_mono using b by (auto intro!: unit_facts(1,2) [OF assms])
  moreover have "unit_start view k < unit_end view k \<and> unit_end view k \<le> n" if "k < ?len" for k
    using unit_facts [OF assms order.refl that] by simp
  moreover have "length (js_slice (mv_text view) a b) = b - a" using b by (simp add: js_slice_def)
  ultimately show ?thesis unfolding slice view_wf_def using b by simp
qed

lemma derived_view_wf: "derived_view U s v \<Longrightarrow> view_wf (length s) v"
  by (induction rule: derived_view.induct)
    (auto intro: view_wf_identity normalizedView_wf percentDecodedView_wf jsonEscapedView_wf joinedLineView_wf
      sliceMappedView_wf)

section \<open>Lines\<close>

definition newlines :: "ustring \<Rightarrow> nat list" where
  "newlines s = filter (\<lambda>i. s ! i = 10) [0 ..< length s]"

lemma lineStarts_newlines: "lineStarts s = 0 # map Suc (newlines s)"
proof -
  have "foldl (\<lambda>starts index. if s ! index = 10 then starts @ [index + 1] else starts) acc is
      = acc @ map Suc (filter (\<lambda>i. s ! i = 10) is)" for acc "is"
    by (induction "is" arbitrary: acc) auto
  then show ?thesis by (simp add: lineStarts_def newlines_def)
qed

lemma position_search_result:
  assumes "sorted starts" and "low < high" and "high \<le> length starts" and "starts ! low \<le> offset"
    and "\<And>i. high \<le> i \<Longrightarrow> i < length starts \<Longrightarrow> offset < starts ! i"
  shows "position_search starts offset low high < length starts \<and>
    starts ! position_search starts offset low high \<le> offset \<and>
    (\<forall>i. position_search starts offset low high < i \<longrightarrow> i < length starts \<longrightarrow> offset < starts ! i)"
  using assms
proof (induction starts offset low high rule: position_search.induct)
  case (1 starts offset low high)
  show ?case
  proof (cases "low + 1 < high")
    case False
    with "1.prems" have "high = low + 1" by simp
    with "1.prems" show ?thesis by (auto simp: position_search.simps)
  next
    case True
    let ?m = "(low + high) div 2"
    have m: "low < ?m" "?m < high" using True by auto
    then have nth: "nth_or starts ?m 0 = starts ! ?m" using "1.prems"(3) by (simp add: nth_or_def)
    show ?thesis
    proof (cases "starts ! ?m \<le> offset")
      case le: True
      from "1.IH"(1) [OF True refl] nth le m "1.prems" show ?thesis
        by (simp add: position_search.simps [of starts offset low high] True Let_def)
    next
      case False
      have "offset < starts ! i" if "?m \<le> i" "i < length starts" for i
        using False sorted_nth_mono [OF "1.prems"(1) that] by simp
      with "1.IH"(2) [OF True refl] nth False m "1.prems" show ?thesis
        by (simp add: position_search.simps [of starts offset low high] True Let_def)
    qed
  qed
qed

lemma sorted_newlines: "sorted_wrt (<) (newlines s)"
  unfolding newlines_def by (rule sorted_wrt_filter) simp

lemma filter_below: "filter (\<lambda>i. i < k) [0 ..< n] = [0 ..< min n k]"
  by (induction n) (auto simp: min_def not_less_eq_eq le_Suc_eq)

lemma newlines_before: "filter (\<lambda>i. i < k) (newlines s) = newlines (take k s)"
proof -
  have "filter (\<lambda>i. i < k) (newlines s) = filter (\<lambda>i. s ! i = 10) (filter (\<lambda>i. i < k) [0 ..< length s])"
    by (simp add: newlines_def conj_commute)
  also have "filter (\<lambda>i. i < k) [0 ..< length s] = [0 ..< min (length s) k]"
    by (rule filter_below)
  also have "filter (\<lambda>i. s ! i = 10) [0 ..< min (length s) k] = newlines (take k s)"
    unfolding newlines_def by (intro filter_cong) auto
  finally show ?thesis .
qed

lemma length_newlines: "length (newlines s) = count_list s 10"
proof -
  have "count_list s 10 = card {i. i < length s \<and> s ! i = 10}"
    by (simp add: count_list_eq_length_filter length_filter_conv_card eq_commute)
  moreover have "length (newlines s) = card {i. i < length s \<and> s ! i = 10}"
    unfolding newlines_def by (subst length_filter_conv_card) (rule arg_cong [where f = card], auto)
  ultimately show ?thesis by simp
qed

lemma positionAt_result:
  assumes "offset \<le> length s"
  shows "positionAt (lineStarts s) offset =
    \<lparr>tp_offset = offset, tp_line = count_list (take offset s) 10 + 1,
     tp_column = length (takeWhile (\<lambda>c. c \<noteq> 10) (rev (take offset s))) + 1\<rparr>"
proof -
  let ?starts = "lineStarts s"
  define low where "low = position_search ?starts offset 0 (length ?starts)"
  have sorted: "sorted_wrt (<) ?starts"
    using sorted_newlines [of s] by (simp add: lineStarts_newlines sorted_wrt_map)
  then have "sorted ?starts" by (rule strict_sorted_imp_sorted)
  from position_search_result [OF this, of 0 "length ?starts" offset]
  have low: "low < length ?starts" "?starts ! low \<le> offset" "\<And>i. low < i \<Longrightarrow> i < length ?starts \<Longrightarrow> offset < ?starts ! i"
    by (simp_all add: low_def lineStarts_newlines)
  let ?nl = "newlines s" and ?k = "length (newlines (take offset s))"
  have before: "\<And>i. i < length ?nl \<Longrightarrow> ?nl ! i < offset \<longleftrightarrow> i < low"
  proof -
    fix i assume i: "i < length ?nl"
    then have st: "?starts ! (Suc i) = Suc (?nl ! i)" by (simp add: lineStarts_newlines)
    have len: "length ?starts = Suc (length ?nl)" by (simp add: lineStarts_newlines)
    show "?nl ! i < offset \<longleftrightarrow> i < low"
    proof (cases "i < low")
      case True
      then have "?starts ! (Suc i) \<le> ?starts ! low"
        using \<open>sorted ?starts\<close> low(1) by (intro sorted_nth_mono) auto
      with low(2) st True show ?thesis by simp
    next
      case False
      then have "offset < ?starts ! (Suc i)" using low(3) [of "Suc i"] i len by simp
      with st False show ?thesis by simp
    qed
  qed
  have "length (filter (\<lambda>i. i < offset) ?nl) = card {i. i < length ?nl \<and> ?nl ! i < offset}"
    by (rule length_filter_conv_card)
  also have "{i. i < length ?nl \<and> ?nl ! i < offset} = {0 ..< low}"
    using before low(1) by (auto simp: lineStarts_newlines)
  finally have line: "low = count_list (take offset s) 10"
    by (simp add: newlines_before length_newlines)
  have column: "length (takeWhile (\<lambda>c. c \<noteq> 10) (rev (take offset s))) = offset - ?starts ! low"
  proof -
    let ?a = "?starts ! low"
    have split: "take offset s = take ?a s @ sublist_at s ?a offset"
      using low(2) sublist_at_append [of 0 ?a offset s] by (simp add: sublist_at_def)
    have no: "10 \<notin> set (sublist_at s ?a offset)"
    proof
      assume "10 \<in> set (sublist_at s ?a offset)"
      then obtain k where "k < length (sublist_at s ?a offset)" "sublist_at s ?a offset ! k = 10"
        by (auto simp: in_set_conv_nth)
      then have k: "?a + k < offset" "s ! (?a + k) = 10"
        using assms nth_sublist_at [of ?a k offset s] by auto
      with assms have "?a + k \<in> set ?nl" by (simp add: newlines_def)
      then obtain i where i: "i < length ?nl" "?nl ! i = ?a + k" by (auto simp: in_set_conv_nth)
      with before [of i] k have "i < low" by simp
      then have "?starts ! Suc i \<le> ?a" using \<open>sorted ?starts\<close> low(1) by (intro sorted_nth_mono) auto
      with i show False by (simp add: lineStarts_newlines)
    qed
    have "takeWhile (\<lambda>c. c \<noteq> 10) (rev (take ?a s)) = []"
    proof (cases low)
      case 0
      then show ?thesis by (simp add: lineStarts_newlines)
    next
      case (Suc l)
      then have l: "l < length ?nl" "?a = Suc (?nl ! l)" using low(1) by (simp_all add: lineStarts_newlines)
      then have "?nl ! l \<in> set ?nl" by simp
      then have "?nl ! l < length s" "s ! (?nl ! l) = 10" by (simp_all add: newlines_def)
      then show ?thesis by (simp add: l(2) take_Suc_conv_app_nth)
    qed
    then have "takeWhile (\<lambda>c. c \<noteq> 10) (rev (take offset s)) = rev (sublist_at s ?a offset)"
      unfolding split rev_append using no by (subst takeWhile_append2) auto
    then show ?thesis using assms low(2) by simp
  qed
  show ?thesis
    using line column low(1)
    unfolding positionAt_def Let_def low_def [symmetric] by (simp add: nth_or_def)
qed

section \<open>Properties\<close>

text \<open>C33: every view the scanner derives from a text, by any sequence of normalisation, percent and JSON unescaping,
  line joining and slicing, maps each of its non-empty ranges to a non-empty range inside the text.\<close>

theorem views_map_into_source:
  assumes "derived_view U s v" and "i < j" and "j \<le> length (mv_text v)"
  shows "fst (mapRange v i j) < snd (mapRange v i j) \<and> snd (mapRange v i j) \<le> length s"
proof -
  note wf = derived_view_wf [OF assms(1)]
  have "i \<le> j - 1" "j - 1 < length (mv_text v)" using assms(2,3) by auto
  from unit_facts [OF wf this] originalBounds_units [OF wf assms(2,3)]
  show ?thesis by (simp add: mapRange_def)
qed

text \<open>And it maps them in order: a range inside another range of the view maps inside its image, so what covers
  a match in the view covers it in the text.\<close>

theorem views_map_monotone:
  assumes "derived_view U s v" and "i < j" and "j \<le> length (mv_text v)" and "i' \<le> i" and "j \<le> j'" and "j' \<le> length (mv_text v)"
  shows "fst (mapRange v i' j') \<le> fst (mapRange v i j) \<and> snd (mapRange v i j) \<le> snd (mapRange v i' j')"
proof -
  note wf = derived_view_wf [OF assms(1)]
  have "i' < j'" "i < length (mv_text v)" "j - 1 \<le> j' - 1" "j' - 1 < length (mv_text v)" using assms(2-) by auto
  with unit_facts(1) [OF wf assms(4)] unit_facts(2) [OF wf, of "j - 1" "j' - 1"]
    originalBounds_units [OF wf assms(2,3)] originalBounds_units [OF wf _ assms(6), of i']
  show ?thesis by (simp add: mapRange_def)
qed

text \<open>The line of an offset is one more than the line feeds before it and the column one more than the code
  units since the last line feed: the binary search over the line starts computes exactly that.\<close>

theorem position_is_line_and_column:
  assumes "offset \<le> length s"
  shows "positionAt (lineStarts s) offset =
    \<lparr>tp_offset = offset, tp_line = count_list (take offset s) 10 + 1,
     tp_column = length (takeWhile (\<lambda>c. c \<noteq> 10) (rev (take offset s))) + 1\<rparr>"
  by (rule positionAt_result [OF assms])

theorem position_is_line_and_column_witness:
  "positionAt (lineStarts [65, 10, 66, 67]) 3 = \<lparr>tp_offset = 3, tp_line = 2, tp_column = 2\<rparr>"
  using position_is_line_and_column [of 3 "[65, 10, 66, 67]"] by (simp add: numeral_3_eq_3)

lemma sample_view:
  "derived_view ascii_unicode [37, 52, 49, 66]
     \<lparr>mv_text = [65, 66], mv_starts = Some [0, 3], mv_ends = Some [3, 4], mv_encoding = EncPercent\<rparr>"
proof (rule derived_view.percent [OF derived_view.identity])
  have d: "utf8_decode [65] = Some [65]" by (simp add: utf8_decode_def utf8_decode_raw.simps units_of_cp_def)
  have "decodePercentCodePoint [37, 52, 49, 66] 0 = Some (3, [65])"
    by (simp add: decodePercentCodePoint_def percentByteAt_def unit_at_def js_slice_def sublist_at_def
      hex_value_def is_digit_def utf8Width_def d numeral_3_eq_3)
  moreover have "decodePercentCodePoint [37, 52, 49, 66] 3 = None"
    by (simp add: decodePercentCodePoint_def percentByteAt_def unit_at_def numeral_3_eq_3)
  moreover have "percentByteAt [37, 52, 49, 66] 0 \<noteq> None"
    by (simp add: percentByteAt_def unit_at_def js_slice_def sublist_at_def hex_value_def is_digit_def numeral_3_eq_3)
  ultimately show "percentDecodedView (identityView [37, 52, 49, 66]) = Some
     \<lparr>mv_text = [65, 66], mv_starts = Some [0, 3], mv_ends = Some [3, 4], mv_encoding = EncPercent\<rparr>"
    by (simp add: percentDecodedView_def identityView_def percent_loop.simps append_units_def unit_range_def
      originalBounds_def numeral_3_eq_3)
qed

theorem views_map_into_source_witness:
  "mapRange \<lparr>mv_text = [65, 66], mv_starts = Some [0, 3], mv_ends = Some [3, 4], mv_encoding = EncPercent\<rparr> 0 1 = (0, 3)
   \<and> (3 :: nat) \<le> length [37, 52, 49, 66 :: nat]"
  using views_map_into_source [OF sample_view, of 0 1] by (simp add: mapRange_def originalBounds_def nth_or_def)

theorem views_map_monotone_witness:
  "snd (mapRange \<lparr>mv_text = [65, 66], mv_starts = Some [0, 3], mv_ends = Some [3, 4], mv_encoding = EncPercent\<rparr> 0 1)
   \<le> snd (mapRange \<lparr>mv_text = [65, 66], mv_starts = Some [0, 3], mv_ends = Some [3, 4], mv_encoding = EncPercent\<rparr> 0 2)"
  using views_map_monotone [OF sample_view, of 0 1 0 2] by simp

section \<open>Percent escapes\<close>

definition hex_upper :: "nat \<Rightarrow> nat" where
  "hex_upper d = (if d < 10 then 48 + d else 55 + d)"

definition percent_bytes :: "nat list \<Rightarrow> ustring" where
  "percent_bytes bytes = concat (map (\<lambda>b. [37, hex_upper (b div 16), hex_upper (b mod 16)]) bytes)"

definition percent_encode :: "ustring \<Rightarrow> ustring" where
  "percent_encode s = percent_bytes (utf8_encode s)"

lemma length_percent_bytes [simp]: "length (percent_bytes bytes) = 3 * length bytes"
  by (induction bytes) (simp_all add: percent_bytes_def)

lemma percent_bytes_append [simp]: "percent_bytes (a @ b) = percent_bytes a @ percent_bytes b"
  by (simp add: percent_bytes_def)

lemma percent_bytes_Cons: "percent_bytes (b # bs) = 37 # hex_upper (b div 16) # hex_upper (b mod 16) # percent_bytes bs"
  by (simp add: percent_bytes_def)

lemma percentByteAt_encoded:
  assumes "b < 256"
  shows "percentByteAt (pre @ percent_bytes (b # bs)) (length pre) = Some b"
proof -
  have "b div 16 < 16" "b mod 16 < 16" using assms by auto
  then have hex: "hex_value (hex_upper (b div 16)) = Some (b div 16)" "hex_value (hex_upper (b mod 16)) = Some (b mod 16)"
    by (auto simp: hex_value_def hex_upper_def is_digit_def)
  show ?thesis
    unfolding percent_bytes_Cons
    by (simp add: percentByteAt_def unit_at_def js_slice_def sublist_at_def hex nth_append)
qed

lemma percentByteAt_at:
  assumes "list_all (\<lambda>b. b < 256) bytes" and "k < length bytes"
  shows "percentByteAt (pre @ percent_bytes bytes @ post) (length pre + k * 3) = Some (bytes ! k)"
proof -
  have split: "bytes = take k bytes @ bytes ! k # drop (Suc k) bytes" using assms(2) by (simp add: id_take_nth_drop)
  have e: "pre @ percent_bytes bytes @ post = (pre @ percent_bytes (take k bytes)) @ percent_bytes [bytes ! k]
      @ (percent_bytes (drop (Suc k) bytes) @ post)"
    by (subst split) (simp add: percent_bytes_Cons percent_bytes_def)
  have len: "length (pre @ percent_bytes (take k bytes)) = length pre + k * 3" using assms(2) by (simp add: min_def)
  have "b < 256 \<Longrightarrow> percentByteAt (p @ percent_bytes [b] @ q) (length p) = Some b" for b p q
  proof -
    assume "b < 256"
    then have "b div 16 < 16" "b mod 16 < 16" by auto
    then have hex: "hex_value (hex_upper (b div 16)) = Some (b div 16)" "hex_value (hex_upper (b mod 16)) = Some (b mod 16)"
      by (auto simp: hex_value_def hex_upper_def is_digit_def)
    show ?thesis
      by (simp add: percent_bytes_def percentByteAt_def unit_at_def js_slice_def sublist_at_def hex nth_append)
  qed
  from this [of "bytes ! k" "pre @ percent_bytes (take k bytes)"] assms show ?thesis
    unfolding e len [symmetric] by (simp add: list_all_length)
qed

lemma continuation_encoded:
  assumes "list_all (\<lambda>b. b < 256) bytes" and "\<And>k. k \<in> set offsets \<Longrightarrow> k < length bytes \<and> 0x80 \<le> bytes ! k \<and> bytes ! k \<le> 0xbf"
  shows "continuation_bytes (pre @ percent_bytes bytes @ post) (length pre) offsets = Some (map (\<lambda>k. bytes ! k) offsets)"
  using assms(2)
proof (induction offsets)
  case (Cons k ks)
  have k: "k < length bytes" "0x80 \<le> bytes ! k" "bytes ! k \<le> 0xbf" using Cons.prems [of k] by auto
  have "continuation_bytes (pre @ percent_bytes bytes @ post) (length pre) ks = Some (map (\<lambda>k. bytes ! k) ks)"
    by (rule Cons.IH) (use Cons.prems in auto)
  with percentByteAt_at [OF assms(1) k(1), of pre post] k(2,3) show ?case by simp
qed simp

lemma utf8_width_cp:
  assumes "cp < 0x110000"
  shows "utf8Width (hd (utf8_of_cp cp)) = length (utf8_of_cp cp) \<and>
    list_all (\<lambda>b. 0x80 \<le> b \<and> b \<le> 0xbf) (tl (utf8_of_cp cp))"
proof -
  have m: "n mod 0x40 < 64" for n :: nat by simp
  then have le: "n mod 0x40 \<le> 63" for n :: nat by (simp add: less_Suc_eq_le [symmetric])
  consider "cp < 0x80" | "0x80 \<le> cp" "cp < 0x800" | "0x800 \<le> cp" "cp < 0x10000" | "0x10000 \<le> cp" by linarith
  then show ?thesis
  proof cases
    case 1
    then show ?thesis by (simp add: utf8_of_cp_def utf8Width_def)
  next
    case 2
    define a where "a = cp div 0x40"
    have "2 \<le> a" "a < 32" using 2 by (simp_all add: a_def)
    then show ?thesis using 2 le [of cp] by (simp add: utf8_of_cp_def utf8Width_def a_def [symmetric])
  next
    case 3
    define a where "a = cp div 0x1000"
    have "a < 16" using 3 by (simp add: a_def)
    then show ?thesis using 3 le [of cp] le [of "cp div 0x40"]
      by (simp add: utf8_of_cp_def utf8Width_def a_def [symmetric])
  next
    case 4
    define a where "a = cp div 0x40000"
    have "a \<le> 4" using assms by (simp add: a_def)
    then show ?thesis using 4 le [of cp] le [of "cp div 0x40"] le [of "cp div 0x1000"]
      by (simp add: utf8_of_cp_def utf8Width_def a_def [symmetric])
  qed
qed

lemma decodePercentCodePoint_encoded:
  assumes cp: "cp < 0x110000" "\<not> is_surrogate cp" "cp \<noteq> 0xFEFF"
  shows "decodePercentCodePoint (pre @ percent_bytes (utf8_of_cp cp) @ post) (length pre)
    = Some (length pre + 3 * length (utf8_of_cp cp), units_of_cp cp)"
proof -
  let ?b = "utf8_of_cp cp" and ?s = "pre @ percent_bytes (utf8_of_cp cp) @ post"
  have bytes: "list_all (\<lambda>b. b < 256) ?b" using utf8_of_cp_bytes [OF cp(1)] by (simp add: list_all_iff)
  have ne: "?b \<noteq> []" using length_utf8_of_cp [of cp] by auto
  note w = utf8_width_cp [OF cp(1)]
  have first: "percentByteAt ?s (length pre) = Some (hd ?b)"
    using percentByteAt_at [OF bytes, of 0 pre post] ne by (simp add: hd_conv_nth)
  have "continuation_bytes ?s (length pre) [1 ..< length ?b] = Some (map (\<lambda>k. ?b ! k) [1 ..< length ?b])"
  proof (rule continuation_encoded [OF bytes])
    fix k assume "k \<in> set [1 ..< length ?b]"
    then have k: "1 \<le> k" "k < length ?b" by auto
    then have "?b ! k = tl ?b ! (k - 1)" using ne by (cases ?b) auto
    moreover have "k - 1 < length (tl ?b)" using k by simp
    ultimately show "k < length ?b \<and> 0x80 \<le> ?b ! k \<and> ?b ! k \<le> 0xbf"
      using w k by (simp add: list_all_length)
  qed
  moreover have "map (\<lambda>k. ?b ! k) [1 ..< length ?b] = tl ?b"
    by (rule nth_equalityI) (auto simp: nth_tl)
  moreover have "utf8_decode ?b = Some (units_of_cp cp)"
  proof -
    have "take 3 (?b @ []) \<noteq> [0xEF, 0xBB, 0xBF]" using utf8_of_cp_bom [OF cp(1,2), of "[]"] cp(3) by blast
    with utf8_decode_raw_step [OF cp(1,2), of "[]"] show ?thesis
      by (simp add: utf8_decode_def utf8_decode_raw.simps [of "[]"])
  qed
  ultimately show ?thesis
    using w first ne by (simp add: decodePercentCodePoint_def)
qed

lemma appendMapped_text: "fst (append_units view acc value i j) = fst acc @ value"
  by (cases acc) (simp add: append_units_def split: prod.splits)

lemma percent_loop_encoded:
  assumes all: "list_all (\<lambda>u. u < 0x10000) s"
    and ok: "\<And>c. c \<in> set (chars s) \<Longrightarrow> \<not> is_surrogate (cp_of c) \<and> cp_of c \<noteq> 0xFEFF"
  shows "set cs \<subseteq> set (chars s) \<Longrightarrow>
    mv_text view = pre @ percent_bytes (concat (map (\<lambda>c. utf8_of_cp (cp_of c)) cs)) \<Longrightarrow>
    fst (fst (percent_loop view (length pre) (acc, changed))) = fst acc @ concat cs \<and>
    snd (percent_loop view (length pre) (acc, changed)) = (changed \<or> cs \<noteq> [])"
proof (induction cs arbitrary: pre acc changed)
  case Nil
  then show ?case by (simp add: percent_loop.simps percent_bytes_def)
next
  case (Cons c cs)
  then have c: "c \<in> set (chars s)" by simp
  note u = units_of_cp_of [OF c all]
  let ?b = "utf8_of_cp (cp_of c)" and ?rest = "percent_bytes (concat (map (\<lambda>c. utf8_of_cp (cp_of c)) cs))"
  have t: "mv_text view = pre @ percent_bytes ?b @ ?rest" using Cons.prems(2) by simp
  have d: "decodePercentCodePoint (mv_text view) (length pre) = Some (length pre + 3 * length ?b, c)"
    using decodePercentCodePoint_encoded [OF u(2)] ok [OF c] u(1) unfolding t by auto
  have lt: "\<not> length (mv_text view) \<le> length pre"
    unfolding t using length_utf8_of_cp [of "cp_of c"] by simp
  have len: "length pre + 3 * length ?b = length (pre @ percent_bytes ?b)" by simp
  let ?acc = "append_units view acc c (length pre) (length (pre @ percent_bytes ?b))"
  have "percent_loop view (length pre) (acc, changed) = percent_loop view (length (pre @ percent_bytes ?b)) (?acc, True)"
    by (subst percent_loop.simps) (simp only: lt if_False d option.case prod.case len)
  moreover have "fst (fst (percent_loop view (length (pre @ percent_bytes ?b)) (?acc, True))) = fst ?acc @ concat cs \<and>
    snd (percent_loop view (length (pre @ percent_bytes ?b)) (?acc, True)) = (True \<or> cs \<noteq> [])"
    by (rule Cons.IH) (use Cons.prems(1) t in auto)
  ultimately show ?case by (simp add: appendMapped_text)
qed

text \<open>percent decoding inverts percent encoding: the view of the percent-encoded UTF-8 bytes of a text without
  byte-order marks and lone surrogates has that text.\<close>

theorem percent_roundtrip:
  assumes "well_formed s" and "0xFEFF \<notin> set s" and "s \<noteq> []"
  shows "\<exists>v. percentDecodedView (identityView (percent_encode s)) = Some v \<and> mv_text v = s"
proof -
  have all: "list_all (\<lambda>u. u < 0x10000) s" and ns: "\<And>c. c \<in> set (chars s) \<Longrightarrow> \<not> is_surrogate (cp_of c)"
    using assms(1) by (auto simp: well_formed_def code_points_def list_all_iff)
  have ok: "\<not> is_surrogate (cp_of c) \<and> cp_of c \<noteq> 0xFEFF" if "c \<in> set (chars s)" for c
  proof -
    have sub: "set c \<subseteq> set s" using that concat_chars [of s] by (metis UN_upper set_concat)
    have "c = units_of_cp (cp_of c)" using units_of_cp_of(1) [OF that all] by simp
    then have "cp_of c = 0xFEFF \<Longrightarrow> 0xFEFF \<in> set c" by (auto simp: units_of_cp_def)
    with sub assms(2) ns [OF that] show ?thesis by blast
  qed
  let ?v = "identityView (percent_encode s)"
  have enc: "utf8_encode s = concat (map (\<lambda>c. utf8_of_cp (cp_of c)) (chars s))"
    unfolding utf8_encode_def code_points_def using ns by (simp add: comp_def cong: map_cong)
  have t: "mv_text ?v = [] @ percent_bytes (concat (map (\<lambda>c. utf8_of_cp (cp_of c)) (chars s)))"
    by (simp add: identityView_def percent_encode_def enc)
  have loop: "fst (fst (percent_loop ?v 0 (([], [], []), False))) = s \<and> snd (percent_loop ?v 0 (([], [], []), False))"
    using percent_loop_encoded [OF all ok order.refl t, of "([], [], [])" False] assms(3) by (cases s rule: chars.cases) auto
  have bytes: "utf8_encode s \<noteq> []"
    unfolding enc using assms(3) length_utf8_of_cp by (cases s rule: chars.cases) (auto simp: less_not_refl2 split: if_splits)
  then obtain b bs where b: "utf8_encode s = b # bs" by (cases "utf8_encode s") auto
  with utf8_encode_bytes [OF assms(1), of b] have "percentByteAt (mv_text ?v) 0 = Some b"
    using percentByteAt_encoded [of b "[]" bs] by (simp add: identityView_def percent_encode_def)
  moreover have "0 < length (mv_text ?v)" using b by (simp add: identityView_def percent_encode_def percent_bytes_Cons)
  ultimately have "list_ex (\<lambda>i. percentByteAt (mv_text ?v) i \<noteq> None) [0 ..< length (mv_text ?v)]"
    by (auto simp: list_ex_iff)
  with loop show ?thesis
    by (cases "percent_loop ?v 0 (([], [], []), False)") (auto simp: percentDecodedView_def)
qed

theorem percent_roundtrip_witness:
  "\<exists>v. percentDecodedView (identityView (percent_encode [233, 65])) = Some v \<and> mv_text v = [233, 65]"
  by (rule percent_roundtrip) (simp_all add: well_formed_def code_points_def is_high_def is_surrogate_def)

end
