(* ===== verification/Hidden.thy ===== *)
theory Hidden
  imports Unicode Risk
begin

text \<open>
  Hidden instructions (\<open>core/src/hidden.ts\<close>): tag characters, bidirectional controls, repeated
  invisible characters and runs of variation selectors, their report by run with line and
  column, and the stripped text. The script and emoji properties of the engine's regular
  expressions are a parameter (\<open>hidden_unicode\<close>).
\<close>

record hidden_unicode =
  hu_ignorable :: "nat \<Rightarrow> bool"
  hu_emoji :: "nat \<Rightarrow> bool"
  hu_letter_mark :: "nat \<Rightarrow> bool"
  hu_joining :: "nat \<Rightarrow> bool"
  hu_mongolian :: "nat \<Rightarrow> bool"

datatype hidden_kind = TagCharacters | BidiControls | InvisibleCharacters | VariationSelectors

datatype verdict = Kind hidden_kind | SuspectInvisible

record hidden_finding =
  hf_kind :: hidden_kind
  hf_line :: nat
  hf_column :: nat
  hf_count :: nat

record hidden_report =
  hr_complete :: bool
  hr_hidden :: nat
  hr_findings :: "hidden_finding list"

definition MAX_HIDDEN_FINDINGS :: nat where "MAX_HIDDEN_FINDINGS = 50"
definition SCATTERED_INVISIBLE_THRESHOLD :: nat where "SCATTERED_INVISIBLE_THRESHOLD = 4"
definition BLACK_FLAG :: nat where "BLACK_FLAG = 0x1f3f4"
definition CANCEL_TAG :: nat where "CANCEL_TAG = 0xe007f"
definition ZWNJ :: nat where "ZWNJ = 0x200c"
definition ZWJ :: nat where "ZWJ = 0x200d"
definition BOM :: nat where "BOM = 0xfeff"
definition SOFT_HYPHEN :: nat where "SOFT_HYPHEN = 0x00ad"

definition isTag :: "nat \<Rightarrow> bool" where "isTag cp \<longleftrightarrow> 0xe0000 \<le> cp \<and> cp \<le> 0xe007f"

definition isBidiControl :: "nat \<Rightarrow> bool" where
  "isBidiControl cp \<longleftrightarrow> (0x202a \<le> cp \<and> cp \<le> 0x202e) \<or> (0x2066 \<le> cp \<and> cp \<le> 0x2069)"

definition isVariationSelector :: "nat \<Rightarrow> bool" where
  "isVariationSelector cp \<longleftrightarrow> (0xfe00 \<le> cp \<and> cp \<le> 0xfe0f) \<or> (0xe0100 \<le> cp \<and> cp \<le> 0xe01ef)"

definition isDirectionalMark :: "nat \<Rightarrow> bool" where
  "isDirectionalMark cp \<longleftrightarrow> cp = 0x200e \<or> cp = 0x200f \<or> cp = 0x061c"

definition utf8Bytes :: "nat \<Rightarrow> nat" where
  "utf8Bytes cp = (if cp < 0x80 then 1 else if cp < 0x800 then 2 else if cp < 0x10000 then 3 else 4)"

text \<open>\<open>points[i]\<close>, \<open>undefined\<close> out of range and before the first.\<close>

definition point_at :: "nat list \<Rightarrow> nat \<Rightarrow> nat option" where
  "point_at points i = (if i < length points then Some (points ! i) else None)"

definition point_before :: "nat list \<Rightarrow> nat \<Rightarrow> nat option" where
  "point_before points i = (if i = 0 then None else point_at points (i - 1))"

fun holds :: "(nat \<Rightarrow> bool) \<Rightarrow> nat option \<Rightarrow> bool" where
  "holds P None = False"
| "holds P (Some cp) = P cp"

definition isEmojiContext :: "hidden_unicode \<Rightarrow> nat option \<Rightarrow> bool" where
  "isEmojiContext H = holds (\<lambda>cp. hu_emoji H cp \<or> cp = 0xfe0f \<or> cp = 0x20e3)"

definition is_spec_tag :: "nat \<Rightarrow> bool" where
  "is_spec_tag cp \<longleftrightarrow> 0xe0020 \<le> cp \<and> cp \<le> 0xe007e"

definition flagTags :: "nat list \<Rightarrow> nat list" where
  "flagTags points =
     concat (map (\<lambda>index.
       if points ! index \<noteq> BLACK_FLAG then []
       else
         let end' = index + 1 + count_while is_spec_tag 7 (drop (index + 1) points)
         in if index + 1 < end' \<and> point_at points end' = Some CANCEL_TAG then [index + 1 ..< end' + 1] else [])
       [0 ..< length points])"

definition benignInvisible :: "hidden_unicode \<Rightarrow> nat \<Rightarrow> nat \<Rightarrow> nat list \<Rightarrow> bool" where
  "benignInvisible H cp index points =
     (let before = point_before points index; after = point_at points (index + 1) in
      if cp = BOM then index = 0
      else if cp = ZWJ \<and> isEmojiContext H before \<and> isEmojiContext H after then True
      else if (cp = ZWJ \<or> cp = ZWNJ) \<and> holds (hu_joining H) before \<and>
              holds (\<lambda>c. hu_joining H c \<or> hu_letter_mark H c) after then True
      else if 0x180b \<le> cp \<and> cp \<le> 0x180f \<and> cp \<noteq> 0x180e \<and> holds (hu_mongolian H) before then True
      else cp = SOFT_HYPHEN \<and> holds (hu_letter_mark H) before \<and> holds (hu_letter_mark H) after)"

text \<open>The byte count of the first loop; \<open>None\<close> past the limit.\<close>

fun bytes_within :: "nat \<Rightarrow> nat list \<Rightarrow> bool" where
  "bytes_within bytes [] = True"
| "bytes_within bytes (cp # cps) =
     (if MAX_INPUT_BYTES < bytes + utf8Bytes cp then False else bytes_within (bytes + utf8Bytes cp) cps)"

definition isAscii :: "ustring \<Rightarrow> bool" where
  "isAscii = list_all (\<lambda>c. c \<le> 0x7f)"

definition verdict_at :: "hidden_unicode \<Rightarrow> nat list \<Rightarrow> nat list \<Rightarrow> nat \<Rightarrow> verdict option" where
  "verdict_at H points flags index =
     (let cp = points ! index in
      if isTag cp then (if index \<in> set flags then None else Some (Kind TagCharacters))
      else if isBidiControl cp then Some (Kind BidiControls)
      else if isVariationSelector cp then
        (case point_before points index of
           None \<Rightarrow> Some (Kind VariationSelectors)
         | Some previous \<Rightarrow> if isVariationSelector previous then Some (Kind VariationSelectors) else None)
      else if isDirectionalMark cp then None
      else if \<not> hu_ignorable H cp then None
      else if benignInvisible H cp index points then None else Some SuspectInvisible)"

text \<open>\<open>None\<close> where \<open>classify\<close> is incomplete.\<close>

definition classify :: "hidden_unicode \<Rightarrow> ustring \<Rightarrow> (ustring list \<times> verdict option list) option" where
  "classify H s =
     (if length s \<le> MAX_INPUT_BYTES \<and> isAscii s then Some ([], [])
      else
        let characters = chars s; points = map cp_of characters in
        if \<not> bytes_within 0 points then None
        else
          let flags = flagTags points
          in Some (characters, map (verdict_at H points flags) [0 ..< length points]))"

definition verdict_nth :: "verdict option list \<Rightarrow> nat \<Rightarrow> verdict option" where
  "verdict_nth verdicts i = (if i < length verdicts then verdicts ! i else None)"

definition resolveInvisible :: "verdict option list \<Rightarrow> hidden_kind option list" where
  "resolveInvisible verdicts =
     (let scattered = length (filter (\<lambda>v. v = Some SuspectInvisible) verdicts) in
      map (\<lambda>index.
        case verdicts ! index of
          None \<Rightarrow> None
        | Some (Kind k) \<Rightarrow> Some k
        | Some SuspectInvisible \<Rightarrow>
            let inRun = (0 < index \<and> verdict_nth verdicts (index - 1) = Some SuspectInvisible) \<or>
                        verdict_nth verdicts (index + 1) = Some SuspectInvisible
            in if inRun \<or> SCATTERED_INVISIBLE_THRESHOLD \<le> scattered then Some InvisibleCharacters else None)
        [0 ..< length verdicts])"

section \<open>The report\<close>

record hidden_state =
  hs_findings :: "hidden_finding list"
  hs_hidden :: nat
  hs_line :: nat
  hs_column :: nat
  hs_run :: "(nat \<times> nat \<times> nat) option"

definition push_finding :: "hidden_finding list \<Rightarrow> hidden_finding \<Rightarrow> hidden_finding list" where
  "push_finding findings f = (if length findings < MAX_HIDDEN_FINDINGS then findings @ [f] else findings)"

text \<open>The end of a run at \<open>index\<close>, where the kind is another one.\<close>

definition close_run :: "hidden_kind option list \<Rightarrow> nat \<Rightarrow> hidden_kind option \<Rightarrow> hidden_state \<Rightarrow> hidden_state" where
  "close_run kinds index kind st =
     (case hs_run st of
        None \<Rightarrow> st
      | Some (runStart, runLine, runColumn) \<Rightarrow>
          (case kinds ! runStart of
             None \<Rightarrow> st
           | Some runKind \<Rightarrow>
               if kind = Some runKind then st
               else st\<lparr>hs_findings := push_finding (hs_findings st)
                         \<lparr>hf_kind = runKind, hf_line = runLine, hf_column = runColumn, hf_count = index - runStart\<rparr>,
                       hs_run := None\<rparr>))"

fun hidden_loop :: "hidden_kind option list \<Rightarrow> nat \<Rightarrow> ustring list \<Rightarrow> hidden_state \<Rightarrow> hidden_state" where
  "hidden_loop kinds index [] st = close_run kinds index None st"
| "hidden_loop kinds index (character # characters) st =
     (let kind = kinds ! index;
          st = close_run kinds index kind st;
          st = (if kind = None then st
                else st\<lparr>hs_hidden := hs_hidden st + 1,
                        hs_run := (case hs_run st of None \<Rightarrow> Some (index, hs_line st, hs_column st) | r \<Rightarrow> r)\<rparr>);
          st = (if character = [10] then st\<lparr>hs_line := hs_line st + 1, hs_column := 1\<rparr>
                else st\<lparr>hs_column := hs_column st + 1\<rparr>)
      in hidden_loop kinds (index + 1) characters st)"

definition findHidden :: "hidden_unicode \<Rightarrow> ustring \<Rightarrow> hidden_report" where
  "findHidden H s =
     (case classify H s of
        None \<Rightarrow> \<lparr>hr_complete = False, hr_hidden = 0, hr_findings = []\<rparr>
      | Some (characters, verdicts) \<Rightarrow>
          let st = hidden_loop (resolveInvisible verdicts) 0 characters
                \<lparr>hs_findings = [], hs_hidden = 0, hs_line = 1, hs_column = 1, hs_run = None\<rparr>
          in \<lparr>hr_complete = True, hr_hidden = hs_hidden st, hr_findings = hs_findings st\<rparr>)"

record stripped_text =
  st_complete :: bool
  st_text :: ustring
  st_removed :: nat

definition stripHidden :: "hidden_unicode \<Rightarrow> ustring \<Rightarrow> stripped_text" where
  "stripHidden H s =
     (case classify H s of
        None \<Rightarrow> \<lparr>st_complete = False, st_text = s, st_removed = 0\<rparr>
      | Some (characters, verdicts) \<Rightarrow>
          if characters = [] then \<lparr>st_complete = True, st_text = s, st_removed = 0\<rparr>
          else
            let kinds = resolveInvisible verdicts;
                kept = filter (\<lambda>(_, kind). kind = None) (zip characters kinds)
            in \<lparr>st_complete = True, st_text = concat (map fst kept),
                st_removed = length (filter (\<lambda>(_, kind). kind \<noteq> None) (zip characters kinds))\<rparr>)"

fun hiddenKindLabel :: "hidden_kind \<Rightarrow> ustring" where
  "hiddenKindLabel TagCharacters =
     [233] @ js ''tiquettes Unicode '' @ [183] @ js '' ASCII masqu'' @ [233]"
| "hiddenKindLabel BidiControls =
     js ''contr'' @ [244] @ js ''les bidirectionnels '' @ [183] @ js '' texte r'' @ [233] @ js ''ordonn'' @ [233]"
| "hiddenKindLabel InvisibleCharacters = js ''caract'' @ [232] @ js ''res de largeur nulle''"
| "hiddenKindLabel VariationSelectors = js ''s'' @ [233] @ js ''lecteurs de variante en s'' @ [233] @ js ''rie''"

section \<open>Maximal runs\<close>

function kind_runs :: "nat \<Rightarrow> hidden_kind option list \<Rightarrow> (hidden_kind \<times> nat \<times> nat) list" where
  "kind_runs i [] = []"
| "kind_runs i (None # ks) = kind_runs (i + 1) ks"
| "kind_runs i (Some k # ks) =
     (let n = length (takeWhile (\<lambda>x. x = Some k) ks)
      in (k, i, n + 1) # kind_runs (i + n + 1) (drop n ks))"
  by pat_completeness auto
termination by (relation "measure (\<lambda>(_, ks). length ks)") auto

definition line_at :: "ustring list \<Rightarrow> nat \<Rightarrow> nat" where
  "line_at characters i = count_list (take i characters) [10] + 1"

definition column_at :: "ustring list \<Rightarrow> nat \<Rightarrow> nat" where
  "column_at characters i = length (takeWhile (\<lambda>c. c \<noteq> [10]) (rev (take i characters))) + 1"

definition run_finding :: "ustring list \<Rightarrow> hidden_kind \<times> nat \<times> nat \<Rightarrow> hidden_finding" where
  "run_finding characters = (\<lambda>(k, i, n).
     \<lparr>hf_kind = k, hf_line = line_at characters i, hf_column = column_at characters i, hf_count = n\<rparr>)"

lemma line_column_Suc:
  assumes "drop i characters = c # cs"
  shows "line_at characters (Suc i) = (if c = [10] then line_at characters i + 1 else line_at characters i)"
    and "column_at characters (Suc i) = (if c = [10] then 1 else column_at characters i + 1)"
proof -
  have "i < length characters" using assms by (cases "i < length characters") auto
  moreover from this assms have "characters ! i = c" by (simp add: Cons_nth_drop_Suc [symmetric])
  ultimately have "take (Suc i) characters = take i characters @ [c]" by (simp add: take_Suc_conv_app_nth)
  then show "line_at characters (Suc i) = (if c = [10] then line_at characters i + 1 else line_at characters i)"
    and "column_at characters (Suc i) = (if c = [10] then 1 else column_at characters i + 1)"
    by (simp_all add: line_at_def column_at_def)
qed

lemma foldl_push: 
  "length fs \<le> MAX_HIDDEN_FINDINGS \<Longrightarrow> foldl push_finding fs xs = fs @ take (MAX_HIDDEN_FINDINGS - length fs) xs"
proof (induction xs arbitrary: fs)
  case (Cons x xs)
  then show ?case
  proof (cases "length fs < MAX_HIDDEN_FINDINGS")
    case True
    with Cons have "foldl push_finding (fs @ [x]) xs = (fs @ [x]) @ take (MAX_HIDDEN_FINDINGS - length (fs @ [x])) xs"
      by (intro Cons.IH) simp
    moreover have "push_finding fs x = fs @ [x]" using True by (simp add: push_finding_def)
    ultimately show ?thesis using True by (simp add: take_Cons')
  next
    case False
    with Cons show ?thesis by (simp add: push_finding_def)
  qed
qed simp

text \<open>The runs the loop still has to report, with the open run's.\<close>

definition pending :: "hidden_kind option list \<Rightarrow> ustring list \<Rightarrow> nat \<Rightarrow> (nat \<times> nat \<times> nat) option \<Rightarrow> hidden_finding list" where
  "pending kinds characters index run =
     (case run of
        None \<Rightarrow> map (run_finding characters) (kind_runs index (drop index kinds))
      | Some (start, l, c) \<Rightarrow>
          let k = the (kinds ! start); n = length (takeWhile (\<lambda>x. x = Some k) (drop index kinds))
          in \<lparr>hf_kind = k, hf_line = l, hf_column = c, hf_count = index + n - start\<rparr> #
             map (run_finding characters) (kind_runs (index + n) (drop (index + n) kinds)))"

definition run_ok :: "hidden_kind option list \<Rightarrow> ustring list \<Rightarrow> nat \<Rightarrow> (nat \<times> nat \<times> nat) option \<Rightarrow> bool" where
  "run_ok kinds characters index run \<longleftrightarrow>
     (case run of None \<Rightarrow> True
      | Some (start, l, c) \<Rightarrow> start < index \<and> kinds ! start \<noteq> None)"

lemma hidden_loop_result:
  assumes len: "length kinds = length characters"
  shows "drop index characters = cs \<Longrightarrow> index \<le> length characters \<Longrightarrow>
    hs_line st = line_at characters index \<Longrightarrow> hs_column st = column_at characters index \<Longrightarrow>
    run_ok kinds characters index (hs_run st) \<Longrightarrow>
    hs_findings (hidden_loop kinds index cs st)
      = foldl push_finding (hs_findings st) (pending kinds characters index (hs_run st)) \<and>
    hs_hidden (hidden_loop kinds index cs st) = hs_hidden st + length (filter (\<lambda>k. k \<noteq> None) (drop index kinds))"
proof (induction cs arbitrary: index st)
  case Nil
  then have "length kinds \<le> index" using len by simp
  with Nil show ?case
    by (auto simp: close_run_def pending_def run_ok_def split: option.splits)
next
  case (Cons c cs)
  then have i: "index < length kinds" using len by (cases "index < length characters") auto
  then have drop: "drop index kinds = kinds ! index # drop (Suc index) kinds" by (simp add: Cons_nth_drop_Suc)
  have cs: "drop (Suc index) characters = cs" using Cons.prems(1) by (metis drop_Suc list.sel(3) tl_drop)
  note lc = line_column_Suc [OF Cons.prems(1)]
  have le: "Suc index \<le> length characters" using i len by simp
  note ih = Cons.IH [OF cs le]
  let ?next = "\<lambda>st. if c = [10] then st\<lparr>hs_line := hs_line st + 1, hs_column := 1\<rparr> else st\<lparr>hs_column := hs_column st + 1\<rparr>"
  let ?goal = "\<lambda>st. hs_findings (hidden_loop kinds index (c # cs) st)
      = foldl push_finding (hs_findings st) (pending kinds characters index (hs_run st)) \<and>
    hs_hidden (hidden_loop kinds index (c # cs) st) = hs_hidden st + length (filter (\<lambda>k. k \<noteq> None) (drop index kinds))"
  have next': "hs_line (?next st) = line_at characters (Suc index)" "hs_column (?next st) = column_at characters (Suc index)"
    "hs_run (?next st) = hs_run st" "hs_findings (?next st) = hs_findings st" "hs_hidden (?next st) = hs_hidden st"
    if "hs_line st = line_at characters index" "hs_column st = column_at characters index" for st
    using that lc by simp_all
  have fresh: "?goal st" if st: "hs_line st = line_at characters index" "hs_column st = column_at characters index"
    "hs_run st = None" for st
  proof (cases "kinds ! index")
    case None
    have loop: "hidden_loop kinds index (c # cs) st = hidden_loop kinds (Suc index) cs (?next st)"
      by (simp add: None close_run_def st(3))
    have "run_ok kinds characters (Suc index) (hs_run (?next st))" by (simp add: run_ok_def st(3))
    from ih [OF next'(1,2) [OF st(1,2)] this] show ?thesis
      unfolding loop next'(3-5) [OF st(1,2)] st(3) by (simp add: pending_def drop None)
  next
    case (Some k)
    let ?st = "st\<lparr>hs_hidden := hs_hidden st + 1, hs_run := Some (index, hs_line st, hs_column st)\<rparr>"
    have st': "hs_line ?st = line_at characters index" "hs_column ?st = column_at characters index" using st by simp_all
    have loop: "hidden_loop kinds index (c # cs) st = hidden_loop kinds (Suc index) cs (?next ?st)"
      by (simp add: Some close_run_def st(3))
    have "run_ok kinds characters (Suc index) (hs_run (?next ?st))" by (simp add: run_ok_def Some)
    from ih [OF next'(1,2) [OF st'] this] show ?thesis
      unfolding loop next'(3-5) [OF st'] st(3)
      by (simp add: pending_def drop Some Let_def run_finding_def st add.commute)
  qed
  show ?case
  proof (cases "hs_run st")
    case None
    with fresh Cons.prems show ?thesis by blast
  next
    case (Some r)
    obtain start l col where r: "r = (start, l, col)" by (cases r)
    from Cons.prems(5) Some r obtain k where k: "kinds ! start = Some k" "start < index" by (auto simp: run_ok_def)
    show ?thesis
    proof (cases "kinds ! index = Some k")
      case True
      let ?st = "st\<lparr>hs_hidden := hs_hidden st + 1, hs_run := Some r\<rparr>"
      have st': "hs_line ?st = line_at characters index" "hs_column ?st = column_at characters index"
        using Cons.prems by simp_all
      have loop: "hidden_loop kinds index (c # cs) st = hidden_loop kinds (Suc index) cs (?next ?st)"
        using True k Some r by (simp add: close_run_def)
      have "run_ok kinds characters (Suc index) (hs_run (?next ?st))" using k Some r by (simp add: run_ok_def)
      from ih [OF next'(1,2) [OF st'] this] show ?thesis
        unfolding loop next'(3-5) [OF st'] using True k
        by (simp add: pending_def drop Some r Let_def)
    next
      case False
      let ?f = "\<lparr>hf_kind = k, hf_line = l, hf_column = col, hf_count = index - start\<rparr>"
      let ?st = "st\<lparr>hs_findings := push_finding (hs_findings st) ?f, hs_run := None\<rparr>"
      have closed: "close_run kinds index (kinds ! index) st = ?st" using False k Some r by (simp add: close_run_def)
      have again: "close_run kinds index (kinds ! index) ?st = ?st" by (simp add: close_run_def)
      have loop: "hidden_loop kinds index (c # cs) st = hidden_loop kinds index (c # cs) ?st"
        by (simp only: hidden_loop.simps Let_def closed again)
      have st': "hs_line ?st = line_at characters index" "hs_column ?st = column_at characters index" "hs_run ?st = None"
        using Cons.prems by simp_all
      have "takeWhile (\<lambda>x. x = Some k) (drop index kinds) = []" using False drop by simp
      then have "pending kinds characters index (hs_run st) = ?f # pending kinds characters index None"
        using Some r k by (simp add: pending_def)
      with fresh [OF st'] show ?thesis unfolding loop by simp
    qed
  qed
qed

lemma resolve_Nil [simp]: "resolveInvisible [] = []"
  by (simp add: resolveInvisible_def)

lemma length_resolve [simp]: "length (resolveInvisible verdicts) = length verdicts"
  by (simp add: resolveInvisible_def Let_def)

lemma classify_lengths: "classify H s = Some (characters, verdicts) \<Longrightarrow> length verdicts = length characters"
  by (auto simp: classify_def Let_def split: if_splits)

lemma findHidden_result:
  assumes "classify H s = Some (characters, verdicts)"
  shows "findHidden H s =
    \<lparr>hr_complete = True, hr_hidden = length (filter (\<lambda>k. k \<noteq> None) (resolveInvisible verdicts)),
     hr_findings = take MAX_HIDDEN_FINDINGS (map (run_finding characters) (kind_runs 0 (resolveInvisible verdicts)))\<rparr>"
proof -
  let ?st = "\<lparr>hs_findings = [], hs_hidden = 0, hs_line = 1, hs_column = 1, hs_run = None\<rparr>"
  have len: "length (resolveInvisible verdicts) = length characters" using classify_lengths [OF assms] by simp
  have "hs_findings (hidden_loop (resolveInvisible verdicts) 0 characters ?st)
      = foldl push_finding (hs_findings ?st) (pending (resolveInvisible verdicts) characters 0 (hs_run ?st)) \<and>
    hs_hidden (hidden_loop (resolveInvisible verdicts) 0 characters ?st)
      = hs_hidden ?st + length (filter (\<lambda>k. k \<noteq> None) (drop 0 (resolveInvisible verdicts)))"
    by (rule hidden_loop_result [OF len]) (simp_all add: line_at_def column_at_def run_ok_def)
  then show ?thesis
    using foldl_push [of "[]"] by (simp add: findHidden_def assms pending_def)
qed

lemma count_filter_zip: "length xs = length ys \<Longrightarrow> length (filter (\<lambda>(_, y). P y) (zip xs ys)) = length (filter P ys)"
  by (induction xs ys rule: list_induct2) auto

section \<open>Properties\<close>

text \<open>C34: the report is by maximal runs: every flagged character counts, and the findings are the first fifty maximal
  runs of one kind, in order, each with its length, and the line and column of its first character.\<close>

theorem findHidden_reports_runs:
  assumes "classify H s = Some (characters, verdicts)"
  shows "findHidden H s =
    \<lparr>hr_complete = True, hr_hidden = length (filter (\<lambda>k. k \<noteq> None) (resolveInvisible verdicts)),
     hr_findings = take 50 (map (run_finding characters) (kind_runs 0 (resolveInvisible verdicts)))\<rparr>"
  using findHidden_result [OF assms] by (simp add: MAX_HIDDEN_FINDINGS_def)

text \<open>The stripped text and the report agree: the same inputs are complete, as many characters are removed as
  are reported, and where none is reported the text is unchanged.\<close>

theorem stripHidden_agrees:
  "st_complete (stripHidden H s) = hr_complete (findHidden H s) \<and>
   st_removed (stripHidden H s) = hr_hidden (findHidden H s) \<and>
   (hr_hidden (findHidden H s) = 0 \<longrightarrow> st_text (stripHidden H s) = s)"
proof (cases "classify H s")
  case None
  then show ?thesis by (simp add: stripHidden_def findHidden_def)
next
  case (Some r)
  obtain characters verdicts where c: "classify H s = Some (characters, verdicts)" using Some by (cases r) auto
  let ?kinds = "resolveInvisible verdicts"
  have len: "length characters = length ?kinds" using classify_lengths [OF c] by simp
  show ?thesis
  proof (cases "characters = []")
    case True
    with c len show ?thesis unfolding findHidden_result [OF c] by (simp add: stripHidden_def)
  next
    case False
    then have text': "concat characters = s"
      using c by (auto simp: classify_def Let_def split: if_splits)
    have none: "filter (\<lambda>(_, kind). kind = None) (zip characters ?kinds) = zip characters ?kinds"
      if "length (filter (\<lambda>k. k \<noteq> None) ?kinds) = 0"
      using that set_zip_rightD by (fastforce simp: filter_empty_conv intro!: filter_True)
    show ?thesis
      using False c count_filter_zip [OF len, of "\<lambda>k. k \<noteq> None"] none len text'
      unfolding findHidden_result [OF c] by (simp add: stripHidden_def Let_def)
  qed
qed

text \<open>The ASCII fast path is exact: on ASCII text the full classification flags nothing either.\<close>

theorem ascii_fast_path_exact:
  assumes "isAscii s" and "\<And>c. c \<le> 0x7f \<Longrightarrow> \<not> hu_ignorable H c" and "i < length (chars s)"
  shows "verdict_at H (map cp_of (chars s)) flags i = None"
proof -
  have "chars s = map (\<lambda>c. [c]) s"
    using assms(1) by (induction s rule: chars.induct) (auto simp: isAscii_def is_high_def)
  with assms have "cp_of (chars s ! i) \<le> 0x7f"
    by (auto simp: isAscii_def list_all_length)
  with assms(2,3) show ?thesis
    by (simp add: verdict_at_def Let_def isTag_def isBidiControl_def isVariationSelector_def isDirectionalMark_def)
qed

definition sample_hidden_unicode :: hidden_unicode where
  "sample_hidden_unicode = \<lparr>hu_ignorable = (\<lambda>c. c = 0x200b), hu_emoji = (\<lambda>_. False), hu_letter_mark = (\<lambda>_. False),
     hu_joining = (\<lambda>_. False), hu_mongolian = (\<lambda>_. False)\<rparr>"

theorem stripHidden_agrees_witness:
  "st_text (stripHidden sample_hidden_unicode (js ''abc'')) = js ''abc''"
  using stripHidden_agrees [of sample_hidden_unicode "js ''abc''"]
  by (simp add: findHidden_def classify_def isAscii_def js_def MAX_INPUT_BYTES_def close_run_def)

theorem ascii_fast_path_exact_witness:
  "verdict_at sample_hidden_unicode (map cp_of (chars [97, 98])) [] 1 = None"
  by (rule ascii_fast_path_exact) (simp_all add: isAscii_def sample_hidden_unicode_def is_high_def)

lemmas hidden_eval = findHidden_def stripHidden_def classify_def isAscii_def MAX_INPUT_BYTES_def is_high_def utf8Bytes_def
  flagTags_def BLACK_FLAG_def verdict_at_def isTag_def isBidiControl_def isVariationSelector_def point_before_def
  point_at_def isDirectionalMark_def resolveInvisible_def verdict_nth_def close_run_def push_finding_def
  MAX_HIDDEN_FINDINGS_def SCATTERED_INVISIBLE_THRESHOLD_def upt_rec Let_def

theorem findHidden_reports_runs_witness:
  "findHidden sample_hidden_unicode [65, 10, 66, 0x202e, 0x202d] =
     \<lparr>hr_complete = True, hr_hidden = 2,
      hr_findings = [\<lparr>hf_kind = BidiControls, hf_line = 2, hf_column = 2, hf_count = 2\<rparr>]\<rparr>"
proof -
  have c: "classify sample_hidden_unicode [65, 10, 66, 0x202e, 0x202d]
      = Some ([[65], [10], [66], [0x202e], [0x202d]], [None, None, None, Some (Kind BidiControls), Some (Kind BidiControls)])"
    by (simp add: hidden_eval sample_hidden_unicode_def)
  show ?thesis
    unfolding findHidden_reports_runs [OF c]
    by (simp add: resolveInvisible_def Let_def upt_rec run_finding_def line_at_def column_at_def)
qed

text \<open>Stripping is not idempotent: removing a bidirectional control between two variation selectors brings them
  together, and the stripped text is flagged again.\<close>

theorem strip_can_leave_hidden:
  "st_text (stripHidden sample_hidden_unicode [65, 0xfe0f, 0x202a, 0xfe0f]) = [65, 0xfe0f, 0xfe0f] \<and>
   hr_hidden (findHidden sample_hidden_unicode [65, 0xfe0f, 0xfe0f]) = 1"
proof -
  have c1: "classify sample_hidden_unicode [65, 0xfe0f, 0x202a, 0xfe0f]
      = Some ([[65], [0xfe0f], [0x202a], [0xfe0f]], [None, None, Some (Kind BidiControls), None])"
    by (simp add: hidden_eval sample_hidden_unicode_def)
  have c2: "classify sample_hidden_unicode [65, 0xfe0f, 0xfe0f]
      = Some ([[65], [0xfe0f], [0xfe0f]], [None, None, Some (Kind VariationSelectors)])"
    by (simp add: hidden_eval sample_hidden_unicode_def)
  show ?thesis
    unfolding findHidden_result [OF c2]
    by (simp add: stripHidden_def c1 resolveInvisible_def Let_def upt_rec)
qed

end
