(* ===== verification/Scanner_Windows.thy ===== *)
theory Scanner_Windows
  imports Mapping_View Encoding
begin

text \<open>
  The bounded windows of the scanner (\<open>core/src/scanner.ts\<close>): line-wrapped fixed tokens and
  Base64 blocks are joined in at most 128 windows, each read forward from its start with at
  most 16,384 token characters. \<open>text[i]\<close> out of range is \<open>undefined\<close>, which no class contains.
\<close>

definition TOKEN_PREFIXES :: "ustring list" where
  "TOKEN_PREFIXES = map js [''github_pat_'', ''ghp_'', ''gho_'', ''ghu_'', ''ghs_'', ''ghr_'', ''glpat-'', ''sk-'',
     ''sk_live_'', ''sk_test_'', ''rk_live_'', ''rk_test_'', ''xoxb-'', ''xoxa-'', ''xoxp-'', ''xoxr-'', ''xoxs-'',
     ''https://hooks.slack.com/services/'', ''AIza'', ''ya29.'', ''SG.'', ''npm_'', ''hf_'', ''dapi'', ''dop_v1_'',
     ''shpat_'', ''shpss_'', ''shpca_'', ''shppa_'', ''AccountKey='', ''AKIA'', ''ASIA'', ''AGPA'', ''AIDA'', ''AROA'',
     ''AIPA'', ''ANPA'', ''ANVA'', ''eyJ'']"

definition MAX_JOINED_WINDOWS :: nat where "MAX_JOINED_WINDOWS = 128"
definition MAX_JOINED_CANDIDATE_CHARACTERS :: nat where "MAX_JOINED_CANDIDATE_CHARACTERS = 16384"

definition isBase64Character :: "nat \<Rightarrow> bool" where
  "isBase64Character c \<longleftrightarrow>
     (48 \<le> c \<and> c \<le> 57) \<or> (65 \<le> c \<and> c \<le> 90) \<or> (97 \<le> c \<and> c \<le> 122) \<or> c = 43 \<or> c = 47 \<or> c = 95 \<or> c = 45"

definition isFixedTokenCharacter :: "nat \<Rightarrow> bool" where
  "isFixedTokenCharacter c \<longleftrightarrow> isBase64Character c \<or> c = 46 \<or> c = 61"

definition is_blank :: "nat \<Rightarrow> bool" where
  "is_blank c \<longleftrightarrow> c = 32 \<or> c = 9"

text \<open>The length of the longest run of a class at a position, at most \<open>n\<close>.\<close>

definition run_at :: "(nat \<Rightarrow> bool) \<Rightarrow> nat \<Rightarrow> ustring \<Rightarrow> nat \<Rightarrow> nat" where
  "run_at p n s i = count_while p n (drop i s)"

section \<open>Base64 candidates\<close>

text \<open>\<open>/^sha(256|384|512)-([A-Za-z0-9+/]+={0,2})$/i\<close> and the length of its body.\<close>

definition isKnownSriCandidate :: "ustring \<Rightarrow> bool" where
  "isKnownSriCandidate value \<longleftrightarrow>
     map (\<lambda>c. if 65 \<le> c \<and> c \<le> 90 then c + 32 else c) (take 3 value) = js ''sha'' \<and>
     unit_at value 6 = Some 45 \<and>
     (let body = drop 7 value;
          core = takeWhile (\<lambda>c. isBase64Character c \<and> c \<noteq> 95 \<and> c \<noteq> 45) body;
          padding = drop (length core) body
      in core \<noteq> [] \<and> length padding \<le> 2 \<and> list_all (\<lambda>c. c = 61) padding \<and>
         ((take 3 (drop 3 value) = js ''256'' \<and> (length body = 43 \<or> length body = 44)) \<or>
          (take 3 (drop 3 value) = js ''384'' \<and> length body = 64) \<or>
          (take 3 (drop 3 value) = js ''512'' \<and> (length body = 86 \<or> length body = 88))))"

definition isPlausibleBase64Payload :: "ustring \<Rightarrow> bool" where
  "isPlausibleBase64Payload value \<longleftrightarrow>
     \<not> isKnownSriCandidate value \<and> 4 \<le> length (remdups (chars value)) \<and> length value mod 4 \<noteq> 1 \<and>
     \<not> (list_ex (\<lambda>c. c = 43 \<or> c = 47) value \<and> list_ex (\<lambda>c. c = 45 \<or> c = 95) value)"

text \<open>The matches of \<open>BASE64_CANDIDATE\<close>: 20 to 16,384 characters and up to two \<open>=\<close>.\<close>

function base64_candidates :: "ustring \<Rightarrow> nat \<Rightarrow> (nat \<times> nat) list" where
  "base64_candidates s i =
     (if length s \<le> i then []
      else
        let n = run_at isBase64Character 16384 s i in
        if n < 20 then base64_candidates s (i + 1)
        else let e = i + n + run_at (\<lambda>c. c = 61) 2 s (i + n) in (i, e) # base64_candidates s e)"
  by pat_completeness auto
termination by (relation "measure (\<lambda>(s, i). length s - i)") auto

declare base64_candidates.simps [simp del]

section \<open>Windows\<close>

definition joinedWindow :: "mapped_view \<Rightarrow> nat \<Rightarrow> nat \<Rightarrow> mapped_view option" where
  "joinedWindow view start end' = joinedLineView (sliceMappedView view start end')"

text \<open>A line break and up to four blanks at the position, \<open>None\<close> where there is no break.\<close>

definition line_wrap_at :: "ustring \<Rightarrow> nat \<Rightarrow> nat option" where
  "line_wrap_at s i =
     (if unit_at s i = Some 13 \<and> unit_at s (i + 1) = Some 10 then Some (i + 2 + run_at is_blank 4 s (i + 2))
      else if unit_at s i = Some 10 then Some (i + 1 + run_at is_blank 4 s (i + 1))
      else None)"

lemma line_wrap_at_progress: "line_wrap_at s i = Some j \<Longrightarrow> i < j \<and> j \<le> length s"
proof -
  have r: "run_at p n s k \<le> length s - k" for p n k
    using count_while_length [of p n "drop k s"] by (simp add: run_at_def)
  assume "line_wrap_at s i = Some j"
  then show ?thesis
    using r [of is_blank 4 "i + 2"] r [of is_blank 4 "i + 1"]
    by (auto simp: line_wrap_at_def unit_at_def split: if_splits)
qed

text \<open>\<open>consumeWrappedTail\<close>: whole wrapped lines of Base64 characters, ended by padding.\<close>

function wrapped_tail :: "ustring \<Rightarrow> nat \<Rightarrow> nat \<Rightarrow> nat" where
  "wrapped_tail s end' characters =
     (if \<not> characters < MAX_JOINED_CANDIDATE_CHARACTERS then end'
      else case line_wrap_at s end' of
        None \<Rightarrow> end'
      | Some cursor \<Rightarrow>
          let n = run_at isBase64Character (MAX_JOINED_CANDIDATE_CHARACTERS - characters) s cursor in
          if n = 0 then end'
          else
            let padding = run_at (\<lambda>c. c = 61) 2 s (cursor + n); e = cursor + n + padding in
            if 0 < padding then e else wrapped_tail s e (characters + n))"
  by pat_completeness auto
termination
  by (relation "measure (\<lambda>(s, e, characters). length s - e)")
    (auto dest!: line_wrap_at_progress intro!: diff_less_mono2)

declare wrapped_tail.simps [simp del]

definition consumeWrappedTail :: "ustring \<Rightarrow> nat \<Rightarrow> nat \<Rightarrow> nat" where
  "consumeWrappedTail s initialEnd initialCharacters =
     (let padding = run_at (\<lambda>c. c = 61) 2 s initialEnd in
      if 0 < padding then initialEnd + padding else wrapped_tail s initialEnd initialCharacters)"

text \<open>One line feed of \<open>lineWrappedBase64Views\<close>: the window around it, if any.\<close>

definition base64_window_at :: "mapped_view \<Rightarrow> nat \<Rightarrow> (nat \<times> nat) option" where
  "base64_window_at view newline =
     (let s = mv_text view;
          leftEnd = (if 0 < newline \<and> s ! (newline - 1) = 13 then newline - 1 else newline);
          leftLength = count_while isBase64Character MAX_JOINED_CANDIDATE_CHARACTERS (rev (take leftEnd s));
          rightStart = newline + 1 + run_at is_blank 4 s (newline + 1);
          rightLength = run_at isBase64Character (MAX_JOINED_CANDIDATE_CHARACTERS - leftLength) s rightStart
      in if 8 \<le> leftLength \<and> 8 \<le> rightLength
         then Some (leftEnd - leftLength,
                    consumeWrappedTail s (rightStart + rightLength) (leftLength + rightLength))
         else None)"

text \<open>The loop over the line feeds; \<open>covered\<close> is \<open>coveredUntil\<close>, \<open>windows\<close> the shared budget. The
  result is \<open>None\<close> past the budget.\<close>

fun base64_windows_loop ::
  "mapped_view \<Rightarrow> nat list \<Rightarrow> int \<Rightarrow> nat \<Rightarrow> mapped_view list \<Rightarrow> nat \<times> mapped_view list option" where
  "base64_windows_loop view [] covered windows acc = (windows, Some acc)"
| "base64_windows_loop view (newline # newlines) covered windows acc =
     (if int newline < covered then base64_windows_loop view newlines covered windows acc
      else case base64_window_at view newline of
        None \<Rightarrow> base64_windows_loop view newlines covered windows acc
      | Some (start, end') \<Rightarrow>
          let (windows, acc) = (case joinedWindow view start end' of
                 Some joined \<Rightarrow> (windows + 1, acc @ [joined]) | None \<Rightarrow> (windows, acc))
          in if MAX_JOINED_WINDOWS < windows then (windows, None)
             else base64_windows_loop view newlines (int end') windows acc)"

definition lineWrappedBase64Views :: "mapped_view \<Rightarrow> nat \<Rightarrow> nat \<times> mapped_view list option" where
  "lineWrappedBase64Views view windows =
     base64_windows_loop view (filter (\<lambda>i. mv_text view ! i = 10) [0 ..< length (mv_text view)]) (- 1) windows []"

section \<open>Wrapped token prefixes\<close>

text \<open>A prefix with an optional line wrap between its characters. No prefix holds a blank or a line
  break, so the greedy optional group never has to give back.\<close>

fun split_prefix_end :: "ustring \<Rightarrow> nat \<Rightarrow> ustring \<Rightarrow> nat option" where
  "split_prefix_end s i [] = Some i"
| "split_prefix_end s i (c # cs) =
     (if unit_at s i \<noteq> Some c then None
      else if cs = [] then Some (i + 1)
      else split_prefix_end s (case line_wrap_at s (i + 1) of Some j \<Rightarrow> j | None \<Rightarrow> i + 1) cs)"

fun first_prefix_end :: "ustring list \<Rightarrow> ustring \<Rightarrow> nat \<Rightarrow> nat option" where
  "first_prefix_end [] s i = None"
| "first_prefix_end (p # ps) s i =
     (case split_prefix_end s i p of Some e \<Rightarrow> Some e | None \<Rightarrow> first_prefix_end ps s i)"

text \<open>The matches of \<open>SPLIT_TOKEN_PREFIX\<close> over the text.\<close>

function prefix_matches :: "ustring \<Rightarrow> nat \<Rightarrow> (nat \<times> nat) list" where
  "prefix_matches s i =
     (if length s \<le> i then []
      else case first_prefix_end TOKEN_PREFIXES s i of
        None \<Rightarrow> prefix_matches s (i + 1)
      | Some e \<Rightarrow> (i, e) # prefix_matches s (max e (i + 1)))"
  by pat_completeness auto
termination by (relation "measure (\<lambda>(s, i). length s - i)") auto

declare prefix_matches.simps [simp del]

function wrapped_token :: "ustring \<Rightarrow> nat \<Rightarrow> nat \<Rightarrow> nat" where
  "wrapped_token s end' characters =
     (if \<not> characters < MAX_JOINED_CANDIDATE_CHARACTERS then end'
      else case line_wrap_at s end' of
        None \<Rightarrow> end'
      | Some cursor \<Rightarrow>
          let n = run_at isFixedTokenCharacter (MAX_JOINED_CANDIDATE_CHARACTERS - characters) s cursor in
          if n = 0 then end' else wrapped_token s (cursor + n) (characters + n))"
  by pat_completeness auto
termination
  by (relation "measure (\<lambda>(s, e, characters). length s - e)")
    (auto dest!: line_wrap_at_progress intro!: diff_less_mono2)

declare wrapped_token.simps [simp del]

definition is_word_unit :: "nat \<Rightarrow> bool" where
  "is_word_unit c \<longleftrightarrow> is_digit c \<or> (65 \<le> c \<and> c \<le> 90) \<or> (97 \<le> c \<and> c \<le> 122) \<or> c = 95"

text \<open>The window of one prefix match: \<open>None\<close> where it is skipped.\<close>

definition fixed_window_at :: "ustring \<Rightarrow> nat \<times> nat \<Rightarrow> (nat \<times> nat) option" where
  "fixed_window_at s = (\<lambda>(start, matchEnd).
     if 0 < start \<and> is_word_unit (s ! (start - 1)) then None
     else
       let characters = length (filter (\<lambda>c. c \<noteq> 13 \<and> c \<noteq> 10 \<and> c \<noteq> 32 \<and> c \<noteq> 9) (js_slice s start matchEnd));
           n = run_at isFixedTokenCharacter (MAX_JOINED_CANDIDATE_CHARACTERS - characters) s matchEnd;
           end' = wrapped_token s (matchEnd + n) (characters + n)
       in if 10 \<in> set (js_slice s start end') then Some (start, end') else None)"

fun fixed_windows_loop ::
  "mapped_view \<Rightarrow> (nat \<times> nat) list \<Rightarrow> nat \<Rightarrow> mapped_view list \<Rightarrow> nat \<times> mapped_view list option" where
  "fixed_windows_loop view [] windows acc = (windows, Some acc)"
| "fixed_windows_loop view (m # ms) windows acc =
     (case fixed_window_at (mv_text view) m of
        None \<Rightarrow> fixed_windows_loop view ms windows acc
      | Some (start, end') \<Rightarrow>
          let (windows, acc) = (case joinedWindow view start end' of
                 Some joined \<Rightarrow> (windows + 1, acc @ [joined]) | None \<Rightarrow> (windows, acc))
          in if MAX_JOINED_WINDOWS < windows then (windows, None)
             else fixed_windows_loop view ms windows acc)"

definition lineWrappedFixedViews :: "mapped_view \<Rightarrow> nat \<Rightarrow> nat \<times> mapped_view list option" where
  "lineWrappedFixedViews view windows =
     (if 10 \<notin> set (mv_text view) then (windows, Some [])
      else fixed_windows_loop view (prefix_matches (mv_text view) 0) windows [])"

end
