(* ===== verification/Scanner.thy ===== *)
theory Scanner
  imports Scanner_Windows Rules_Pack
begin

text \<open>
  The scanner (\<open>core/src/scanner.ts\<close>): one verdict for a text from the built-in rules on
  every view of it, one Base64 layer included, and from the xSOM pack; and the redaction of the
  findings with its rescan. The detectors of \<open>core/src/rules.ts\<close> reach it as a
  record of four functions (\<open>rule_engine\<close>), as the module imports them; \<open>Rules_Scan.builtin_engine\<close>
  is that record for the code's own detectors. The Unicode tables, the native matcher and
  \<open>localeCompare\<close> are parameters: the properties hold for every choice of them. A result \<open>None\<close> of a scanning step is the code's
  \<open>null\<close>: the analysis could not finish.
\<close>

definition MAX_FINDINGS :: nat where "MAX_FINDINGS = 2048"
definition CUSTOM_RULES_WORK_BUDGET :: int where "CUSTOM_RULES_WORK_BUDGET = 120000000"
definition CUSTOM_BLOCK_SCORE :: int where "CUSTOM_BLOCK_SCORE = 90"
definition CUSTOM_WARN_SCORE :: int where "CUSTOM_WARN_SCORE = 40"

record internal_finding =
  fi_ruleId :: ustring
  fi_secretType :: secret_type
  fi_start :: nat
  fi_end :: nat
  fi_score :: int
  fi_reasons :: "ustring list"
  fi_encoding :: finding_encoding

record custom_rule_ref =
  cr_packId :: ustring
  cr_packVersion :: nat
  cr_detectorId :: ustring
  cr_label :: ustring
  cr_category :: rules_category
  cr_action :: rules_action

record finding =
  fd_ruleId :: ustring
  fd_secretType :: secret_type
  fd_span :: text_span
  fd_score :: int
  fd_level :: risk_level
  fd_reasons :: "ustring list"
  fd_encoding :: finding_encoding
  fd_custom :: "custom_rule_ref option"

record scan_input =
  si_content :: "ustring option"
  si_languageId :: "ustring option"
  si_rules :: "compiled_pack option"
  si_workMeter :: "work_meter option"

record scan_result =
  sr_decision :: decision
  sr_level :: risk_level
  sr_score :: int
  sr_findings :: "finding list"
  sr_complete :: bool
  sr_inputBytes :: nat

record sanitize_result =
  sz_initial :: scan_result
  sz_content :: ustring
  sz_final :: scan_result

text \<open>The detectors of \<open>rules.ts\<close>: fixed formats and assignments may decode Base64 values and
  draw on the decode budget.\<close>

record rule_engine =
  re_fixed :: "mapped_view \<Rightarrow> bool \<Rightarrow> decode_budget \<Rightarrow> decode_budget \<times> internal_finding list"
  re_contextual ::
    "mapped_view \<Rightarrow> ustring option \<Rightarrow> bool \<Rightarrow> decode_budget \<Rightarrow> decode_budget \<times> internal_finding list"
  re_urls :: "mapped_view \<Rightarrow> internal_finding list"
  re_entropy :: "mapped_view \<Rightarrow> internal_finding list"

record scan_env =
  se_unicode :: unicode
  se_native :: native_engine
  se_engine :: rule_engine
  se_collate :: "ustring \<Rightarrow> ustring \<Rightarrow> int"

section \<open>Scanning steps\<close>

text \<open>The state of one scan: the decode budget, the joined windows used and the source ranges
  already tried as Base64.\<close>

record scan_state =
  ss_decode :: decode_budget
  ss_windows :: nat
  ss_seen :: "(nat \<times> nat) list"

definition new_scan_state :: scan_state where
  "new_scan_state = \<lparr>ss_decode = new_decode_budget, ss_windows = 0, ss_seen = []\<rparr>"

type_synonym 'a scanner = "scan_state \<Rightarrow> scan_state \<times> 'a option"

definition s_return :: "'a \<Rightarrow> 'a scanner" where "s_return x st = (st, Some x)"

definition s_null :: "'a scanner" where "s_null st = (st, None)"

definition s_bind :: "'a scanner \<Rightarrow> ('a \<Rightarrow> 'b scanner) \<Rightarrow> 'b scanner" where
  "s_bind m f st = (case m st of (st', None) \<Rightarrow> (st', None) | (st', Some x) \<Rightarrow> f x st')"

definition s_decode :: "(decode_budget \<Rightarrow> decode_budget \<times> 'a) \<Rightarrow> 'a scanner" where
  "s_decode f st = (case f (ss_decode st) of (b, x) \<Rightarrow> (st\<lparr>ss_decode := b\<rparr>, Some x))"

definition s_windows :: "(nat \<Rightarrow> nat \<times> 'a option) \<Rightarrow> 'a scanner" where
  "s_windows f st = (case f (ss_windows st) of (n, r) \<Rightarrow> (st\<lparr>ss_windows := n\<rparr>, r))"

definition s_exhausted :: "bool scanner" where
  "s_exhausted st = (st, Some (db_exhausted (ss_decode st)))"

definition appendBounded :: "internal_finding list \<Rightarrow> internal_finding list \<Rightarrow> internal_finding list scanner" where
  "appendBounded target additions =
     (if length (target @ additions) \<le> MAX_FINDINGS then s_return (target @ additions) else s_null)"

text \<open>A loop that appends what each element gives, within the bound.\<close>

fun append_each ::
  "('v \<Rightarrow> internal_finding list scanner) \<Rightarrow> 'v list \<Rightarrow> internal_finding list \<Rightarrow> internal_finding list scanner" where
  "append_each f [] acc = s_return acc"
| "append_each f (v # vs) acc = s_bind (f v) (\<lambda>found. s_bind (appendBounded acc found) (append_each f vs))"

definition scanDetectors ::
  "rule_engine \<Rightarrow> mapped_view \<Rightarrow> bool \<Rightarrow> ustring option \<Rightarrow> bool \<Rightarrow> internal_finding list scanner" where
  "scanDetectors E view includeEntropy languageId allow =
     s_bind (s_decode (re_fixed E view allow)) (\<lambda>fixed.
     s_bind s_exhausted (\<lambda>exhausted.
       if exhausted then s_null
       else
         s_bind (s_decode (re_contextual E view languageId allow)) (\<lambda>contextual.
         s_bind s_exhausted (\<lambda>exhausted.
           if exhausted then s_null
           else s_return (fixed @ re_urls E view @ contextual @
                          (if includeEntropy then re_entropy E view else []))))))"

definition canonicalizedView :: "unicode \<Rightarrow> mapped_view \<Rightarrow> mapped_view" where
  "canonicalizedView U view = (case normalizedView U view of Some v \<Rightarrow> v | None \<Rightarrow> view)"

definition transformedTextViews :: "unicode \<Rightarrow> mapped_view \<Rightarrow> mapped_view list" where
  "transformedTextViews U canonical =
     (case percentDecodedView canonical of
        None \<Rightarrow> []
      | Some percent \<Rightarrow>
          let canonicalPercent = canonicalizedView U percent in
          canonicalPercent #
          (case jsonEscapedView canonicalPercent of Some j \<Rightarrow> [canonicalizedView U j] | None \<Rightarrow> [])) @
     (case jsonEscapedView canonical of
        None \<Rightarrow> []
      | Some json \<Rightarrow>
          let canonicalJson = canonicalizedView U json in
          canonicalJson #
          (case percentDecodedView canonicalJson of Some p \<Rightarrow> [canonicalizedView U p] | None \<Rightarrow> []))"

text \<open>The views of a text: as written, normalised where that differs, and transformed.\<close>

definition first_views :: "unicode \<Rightarrow> ustring \<Rightarrow> mapped_view list" where
  "first_views U content =
     identityView content #
     (case normalizedView U (identityView content) of Some v \<Rightarrow> [v] | None \<Rightarrow> [])"

definition canonical_view :: "unicode \<Rightarrow> ustring \<Rightarrow> mapped_view" where
  "canonical_view U content = canonicalizedView U (identityView content)"

section \<open>One Base64 layer\<close>

text \<open>The fixed rules on the line-wrapped tokens of each view.\<close>

fun fixed_windows :: "(mapped_view \<Rightarrow> internal_finding list scanner) \<Rightarrow> mapped_view list \<Rightarrow> internal_finding list \<Rightarrow>
   internal_finding list scanner" where
  "fixed_windows f [] acc = s_return acc"
| "fixed_windows f (view # views) acc =
     s_bind (s_windows (lineWrappedFixedViews view)) (\<lambda>joined.
     s_bind (append_each f joined acc) (fixed_windows f views))"

definition scanDecodedText :: "unicode \<Rightarrow> rule_engine \<Rightarrow> ustring \<Rightarrow> internal_finding list scanner" where
  "scanDecodedText U E decoded =
     (let canonical = canonical_view U decoded; transformed = transformedTextViews U canonical in
      s_bind (append_each (\<lambda>view. scanDetectors E view False None False) (first_views U decoded @ transformed) [])
        (fixed_windows (\<lambda>joined. s_decode (re_fixed E joined False)) (canonical # transformed)))"

definition base64_finding :: "nat \<times> nat \<Rightarrow> internal_finding \<Rightarrow> internal_finding" where
  "base64_finding sourceRange f =
     f\<lparr>fi_start := fst sourceRange, fi_end := snd sourceRange,
       fi_score := boundedScore (Finite (of_int (fi_score f - 5))),
       fi_reasons := fi_reasons f @ [js ''single_level_base64_decode''], fi_encoding := EncBase64\<rparr>"

fun base64_pass :: "unicode \<Rightarrow> rule_engine \<Rightarrow> mapped_view \<Rightarrow> (nat \<times> nat) list \<Rightarrow> internal_finding list \<Rightarrow>
   internal_finding list scanner" where
  "base64_pass U E view [] findings st = (st, Some findings)"
| "base64_pass U E view ((i, j) # candidates) findings st =
     (let value = js_slice (mv_text view) i j; sourceRange = mapRange view i j in
      if \<not> isPlausibleBase64Payload value \<or> sourceRange \<in> set (ss_seen st)
      then base64_pass U E view candidates findings st
      else
        case decodeBase64Budgeted value 16384 (ss_decode st) of
          (budget, decoded) \<Rightarrow>
            let st = st\<lparr>ss_seen := sourceRange # ss_seen st, ss_decode := budget\<rparr> in
            if db_exhausted budget then (st, None)
            else case decoded of
              None \<Rightarrow> base64_pass U E view candidates findings st
            | Some s \<Rightarrow>
                s_bind (scanDecodedText U E s)
                  (\<lambda>inner. base64_pass U E view candidates (findings @ map (base64_finding sourceRange) inner)) st)"

definition scanBase64Candidates :: "unicode \<Rightarrow> rule_engine \<Rightarrow> mapped_view \<Rightarrow> internal_finding list scanner" where
  "scanBase64Candidates U E view = base64_pass U E view (base64_candidates (mv_text view) 0) []"

section \<open>Overlapping findings\<close>

definition overlaps :: "internal_finding \<Rightarrow> internal_finding \<Rightarrow> bool" where
  "overlaps l r \<longleftrightarrow> fi_start l < fi_end r \<and> fi_start r < fi_end l"

fun encodingRank :: "finding_encoding \<Rightarrow> int" where
  "encodingRank EncPlain = 0"
| "encodingRank EncNormalized = 1"
| "encodingRank EncPercent = 2"
| "encodingRank EncJsonEscaped = 3"
| "encodingRank EncWhitespaceJoined = 4"
| "encodingRank EncBase64 = 5"

definition specificityRank :: "internal_finding \<Rightarrow> int" where
  "specificityRank f =
     (if fi_ruleId f = js ''high_entropy'' then 2
      else if take 11 (fi_ruleId f) = js ''contextual_'' then 1
      else 0)"

text \<open>\<open>a || b\<close> on numbers.\<close>

definition js_or :: "int \<Rightarrow> int \<Rightarrow> int" where
  "js_or a b = (if a \<noteq> 0 then a else b)"

definition strength_compare :: "(ustring \<Rightarrow> ustring \<Rightarrow> int) \<Rightarrow> internal_finding \<Rightarrow> internal_finding \<Rightarrow> int" where
  "strength_compare collate l r =
     js_or (specificityRank l - specificityRank r)
      (js_or (fi_score r - fi_score l)
        (js_or (int (fi_end r) - int (fi_start r) - (int (fi_end l) - int (fi_start l)))
          (js_or (encodingRank (fi_encoding l) - encodingRank (fi_encoding r))
            (collate (fi_ruleId l) (fi_ruleId r)))))"

definition widen :: "internal_finding \<Rightarrow> internal_finding \<Rightarrow> internal_finding" where
  "widen existing f =
     existing\<lparr>fi_start := min (fi_start existing) (fi_start f), fi_end := max (fi_end existing) (fi_end f)\<rparr>"

fun absorb :: "internal_finding list \<Rightarrow> internal_finding \<Rightarrow> internal_finding list" where
  "absorb [] f = [f]"
| "absorb (e # es) f = (if overlaps e f then widen e f # es else e # absorb es f)"

definition position_compare :: "internal_finding \<Rightarrow> internal_finding \<Rightarrow> int" where
  "position_compare l r =
     js_or (int (fi_start l) - int (fi_start r)) (int (fi_end l) - int (fi_end r))"

definition dedupeOverlaps :: "(ustring \<Rightarrow> ustring \<Rightarrow> int) \<Rightarrow> internal_finding list \<Rightarrow> internal_finding list" where
  "dedupeOverlaps collate findings =
     (let strongestFirst = sort_by (\<lambda>l r. strength_compare collate l r \<le> 0) findings
      in sort_by (\<lambda>l r. position_compare l r \<le> 0) (foldl absorb [] strongestFirst))"

section \<open>The built-in findings of a text\<close>

fun view_passes :: "unicode \<Rightarrow> rule_engine \<Rightarrow> mapped_view list \<Rightarrow> internal_finding list \<Rightarrow> internal_finding list scanner" where
  "view_passes U E [] acc = s_return acc"
| "view_passes U E (view # views) acc =
     s_bind (s_windows (lineWrappedFixedViews view)) (\<lambda>joined.
     s_bind (append_each (\<lambda>v. s_bind (s_decode (re_fixed E v True)) (\<lambda>found.
               s_bind s_exhausted (\<lambda>exhausted. if exhausted then s_null else s_return found))) joined acc) (\<lambda>acc.
     s_bind (s_windows (lineWrappedBase64Views view)) (\<lambda>joined.
     s_bind (append_each (scanBase64Candidates U E) joined acc) (\<lambda>acc.
     s_bind (append_each (scanBase64Candidates U E) [view] acc) (view_passes U E views)))))"

definition collectFindings :: "scan_env \<Rightarrow> ustring \<Rightarrow> ustring option \<Rightarrow> internal_finding list option" where
  "collectFindings env content languageId =
     (let U = se_unicode env; E = se_engine env; canonical = canonical_view U content;
          transformed = transformedTextViews U canonical in
      map_option (dedupeOverlaps (se_collate env))
        (snd (s_bind (append_each (\<lambda>view. scanDetectors E view True languageId True)
                        (first_views U content @ transformed) [])
                (view_passes U E (canonical # transformed)) new_scan_state)))"

section \<open>The findings of the xSOM pack\<close>

record custom_internal =
  ci_start :: nat
  ci_end :: nat
  ci_rule :: custom_rule_ref

datatype custom_collection = CustomOk "custom_internal list" | CustomBudget | CustomTooMany

text \<open>\<open>UNSAFE_LABEL_CHARACTERS\<close>: controls, format characters and the two separators.\<close>

definition unsafe_label :: "unicode \<Rightarrow> nat \<Rightarrow> bool" where
  "unsafe_label U c \<longleftrightarrow> c < 32 \<or> (127 \<le> c \<and> c < 160) \<or> uc_format U c \<or> c = 0x2028 \<or> c = 0x2029"

text \<open>\<open>replace(/p+/gu, r)\<close> on the characters of a string: one \<open>r\<close> per maximal run.\<close>

fun replace_runs :: "('a \<Rightarrow> bool) \<Rightarrow> 'a \<Rightarrow> 'a list \<Rightarrow> 'a list" where
  "replace_runs p r [] = []"
| "replace_runs p r [c] = (if p c then [r] else [c])"
| "replace_runs p r (c # d # cs) =
     (if p c then (if p d then replace_runs p r (d # cs) else r # replace_runs p r (d # cs))
      else c # replace_runs p r (d # cs))"

definition trim_by :: "('a \<Rightarrow> bool) \<Rightarrow> 'a list \<Rightarrow> 'a list" where
  "trim_by p s = rev (dropWhile p (rev (dropWhile p s)))"

definition displayLabel :: "unicode \<Rightarrow> ustring \<Rightarrow> ustring" where
  "displayLabel U label =
     (let safe = replace_runs (\<lambda>c. unsafe_label U (cp_of c)) [32] (chars label);
          spaced = replace_runs (\<lambda>c. is_js_space (cp_of c)) [32] safe;
          trimmed = trim_by is_js_space (concat spaced)
      in if trimmed = [] then [82, 232, 103, 108, 101, 32, 120, 83, 79, 77] else trimmed)"

fun visible_loop :: "unicode \<Rightarrow> nat \<Rightarrow> ustring list \<Rightarrow> ustring \<times> nat list" where
  "visible_loop U index [] = ([], [])"
| "visible_loop U index (c # cs) =
     (case visible_loop U (index + length c) cs of
        (s, origin) \<Rightarrow>
          if uc_ignorable U (cp_of c) then (s, origin)
          else (c @ s, [index ..< index + length c] @ origin))"

definition visibleText :: "unicode \<Rightarrow> ustring \<Rightarrow> ustring \<times> nat list" where
  "visibleText U content = visible_loop U 0 (chars content)"

definition has_ignorable :: "unicode \<Rightarrow> ustring \<Rightarrow> bool" where
  "has_ignorable U content \<longleftrightarrow> list_ex (\<lambda>c. uc_ignorable U (cp_of c)) (chars content)"

text \<open>The two passes: their detections with the offsets they count in.\<close>

definition custom_passes ::
  "scan_env \<Rightarrow> compiled_pack \<Rightarrow> nat \<Rightarrow> ustring \<Rightarrow> work_meter \<Rightarrow>
   (custom_match list list \<times> nat list option) list metered" where
  "custom_passes env pack maxMatches content =
     m_bind (\<lambda>m. pack_detect (se_unicode env) (se_native env) pack content m None (Some maxMatches)) (\<lambda>perDetector.
       if has_ignorable (se_unicode env) content then
         case visibleText (se_unicode env) content of
           (visible, origin) \<Rightarrow>
             m_bind (m_spend ((int (length content) + 15) div 16)) (\<lambda>_.
             m_bind (\<lambda>m. pack_detect (se_unicode env) (se_native env) pack visible m None (Some maxMatches))
               (\<lambda>second. m_return [(perDetector, None), (second, Some origin)]))
       else m_return [(perDetector, None)])"

definition rule_ref :: "unicode \<Rightarrow> compiled_pack \<Rightarrow> detector_spec \<Rightarrow> custom_rule_ref" where
  "rule_ref U pack spec =
     \<lparr>cr_packId = rp_packId (cp_payload pack), cr_packVersion = rp_version (cp_payload pack),
      cr_detectorId = ds_id spec, cr_label = displayLabel U (ds_label spec),
      cr_category = ds_category spec, cr_action = ds_action spec\<rparr>"

definition detector_spec_of :: "compiled_detector \<Rightarrow> detector_spec" where
  "detector_spec_of d = (case d of PatternDetector p \<Rightarrow> pd_spec p | TermsDetector t \<Rightarrow> td_spec t)"

definition source_match :: "ustring \<Rightarrow> nat list option \<Rightarrow> custom_match \<Rightarrow> nat \<times> nat" where
  "source_match content origin m =
     (case origin of
        None \<Rightarrow> m
      | Some xs \<Rightarrow>
          (nth_or xs (fst m) 0,
           if snd m = 0 then length content
           else if snd m - 1 < length xs then xs ! (snd m - 1) + 1 else length content))"

text \<open>The candidates of the passes in order, each with the detector it belongs to.\<close>

definition pass_candidates ::
  "compiled_pack \<Rightarrow> ustring \<Rightarrow> custom_match list list \<times> nat list option \<Rightarrow> (nat \<times> nat \<times> nat) list" where
  "pass_candidates pack content pass =
     concat (map (\<lambda>index.
        if index < length (cp_detectors pack)
        then map (\<lambda>m. case source_match content (snd pass) m of (s, e) \<Rightarrow> (index, s, e)) (fst pass ! index)
        else []) [0 ..< length (fst pass)])"

fun first_seen :: "'a set \<Rightarrow> 'a list \<Rightarrow> 'a list" where
  "first_seen seen [] = []"
| "first_seen seen (x # xs) = (if x \<in> seen then first_seen seen xs else x # first_seen (insert x seen) xs)"

definition custom_internals ::
  "unicode \<Rightarrow> compiled_pack \<Rightarrow> ustring \<Rightarrow> (custom_match list list \<times> nat list option) list \<Rightarrow> custom_internal list" where
  "custom_internals U pack content passes =
     map (\<lambda>(index, s, e).
            \<lparr>ci_start = s, ci_end = e, ci_rule = rule_ref U pack (detector_spec_of (cp_detectors pack ! index))\<rparr>)
       (first_seen {} (concat (map (pass_candidates pack content) passes)))"

definition collectCustomFindings ::
  "scan_env \<Rightarrow> ustring \<Rightarrow> compiled_pack \<Rightarrow> nat \<Rightarrow> work_meter option \<Rightarrow> work_meter option \<times> custom_collection" where
  "collectCustomFindings env content pack maxMatches shared =
     (case custom_passes env pack maxMatches content (WorkMeter CUSTOM_RULES_WORK_BUDGET 0 shared) of
        (meter, Inl WorkBudgetExceeded) \<Rightarrow> (meter_parent meter, CustomBudget)
      | (meter, Inl TooManyMatches) \<Rightarrow> (meter_parent meter, CustomTooMany)
      | (meter, Inr passes) \<Rightarrow>
          let findings = custom_internals (se_unicode env) pack content passes in
          (meter_parent meter, if maxMatches < length findings then CustomTooMany else CustomOk findings))"

section \<open>Results\<close>

text \<open>\<open>utf8Length\<close>: the UTF-8 length of the text, or the bound plus one past it.\<close>

fun utf8_length_loop :: "nat \<Rightarrow> ustring \<Rightarrow> nat \<Rightarrow> nat" where
  "utf8_length_loop stopAfter [] bytes = bytes"
| "utf8_length_loop stopAfter (c # cs) bytes =
     (let pair = is_high c \<and> cs \<noteq> [] \<and> is_low (hd cs);
          bytes = bytes + (if c \<le> 0x7f then 1 else if c \<le> 0x7ff then 2 else if pair then 4 else 3)
      in if stopAfter < bytes then stopAfter + 1
         else utf8_length_loop stopAfter (if pair then tl cs else cs) bytes)"

definition utf8Length :: "ustring \<Rightarrow> nat \<Rightarrow> nat" where
  "utf8Length content stopAfter = utf8_length_loop stopAfter content 0"

datatype failure_kind = FailScanLimit | FailScanError | FailCustomBudget | FailCustomTooMany

fun failure_entry :: "failure_kind \<Rightarrow> ustring \<times> secret_type \<times> ustring" where
  "failure_entry FailScanLimit = (js ''input_too_large'', ScanLimit, js ''maximum_input_size_exceeded'')"
| "failure_entry FailScanError = (js ''scanner_failure'', ScanError, js ''scanner_failed_closed'')"
| "failure_entry FailCustomBudget = (js ''custom_rules_incomplete'', ScanLimit, js ''custom_rules_budget_exceeded'')"
| "failure_entry FailCustomTooMany =
     (js ''custom_rules_too_many_findings'', ScanLimit, js ''custom_findings_limit_exceeded'')"

definition limitFinding :: "failure_kind \<Rightarrow> finding" where
  "limitFinding kind =
     (case failure_entry kind of
        (ruleId, secretType, reason) \<Rightarrow>
          let origin = \<lparr>tp_offset = 0, tp_line = 1, tp_column = 1\<rparr> in
          \<lparr>fd_ruleId = ruleId, fd_secretType = secretType, fd_span = \<lparr>sp_start = origin, sp_end = origin\<rparr>,
           fd_score = 100, fd_level = levelForScore 100, fd_reasons = [reason], fd_encoding = EncPlain,
           fd_custom = None\<rparr>)"

definition failedResult :: "nat \<Rightarrow> failure_kind \<Rightarrow> scan_result" where
  "failedResult inputBytes kind =
     \<lparr>sr_decision = BLOCK, sr_level = CRITICAL, sr_score = 100, sr_findings = [limitFinding kind],
      sr_complete = False, sr_inputBytes = inputBytes\<rparr>"

fun category_name :: "rules_category \<Rightarrow> ustring" where
  "category_name Credential = js ''credential''"
| "category_name CustomerData = js ''customer_data''"
| "category_name PersonalData = js ''personal_data''"
| "category_name InternalInfra = js ''internal_infra''"
| "category_name Project = js ''project''"

definition customFinding :: "custom_internal \<Rightarrow> (nat \<Rightarrow> nat \<Rightarrow> text_span) \<Rightarrow> finding" where
  "customFinding f spanFor =
     (let score = (if cr_action (ci_rule f) = RuleBlock then CUSTOM_BLOCK_SCORE else CUSTOM_WARN_SCORE) in
      \<lparr>fd_ruleId = js ''xsom_'' @ cr_detectorId (ci_rule f), fd_secretType = CustomRule,
       fd_span = spanFor (ci_start f) (ci_end f), fd_score = score, fd_level = levelForScore (of_int score),
       fd_reasons = [js ''xsom_custom_rule'', js ''category_'' @ category_name (cr_category (ci_rule f))],
       fd_encoding = EncPlain, fd_custom = Some (ci_rule f)\<rparr>)"

definition builtin_finding :: "internal_finding \<Rightarrow> (nat \<Rightarrow> nat \<Rightarrow> text_span) \<Rightarrow> finding" where
  "builtin_finding f spanFor =
     (let score = boundedScore (Finite (of_int (fi_score f))) in
      \<lparr>fd_ruleId = fi_ruleId f, fd_secretType = fi_secretType f, fd_span = spanFor (fi_start f) (fi_end f),
       fd_score = score, fd_level = levelForScore (of_int score), fd_reasons = fi_reasons f,
       fd_encoding = fi_encoding f, fd_custom = None\<rparr>)"

abbreviation start_offset :: "finding \<Rightarrow> nat" where
  "start_offset f \<equiv> tp_offset (sp_start (fd_span f))"

abbreviation end_offset :: "finding \<Rightarrow> nat" where
  "end_offset f \<equiv> tp_offset (sp_end (fd_span f))"

definition span_compare :: "finding \<Rightarrow> finding \<Rightarrow> int" where
  "span_compare l r =
     js_or (int (start_offset l) - int (start_offset r)) (int (end_offset l) - int (end_offset r))"

definition max_score :: "finding list \<Rightarrow> int" where
  "max_score findings = foldl (\<lambda>maximum f. max maximum (fd_score f)) 0 findings"

definition successfulResult ::
  "ustring \<Rightarrow> nat \<Rightarrow> internal_finding list \<Rightarrow> custom_internal list \<Rightarrow> scan_result" where
  "successfulResult content inputBytes internal custom =
     (let spanFor = createSpanFactory content;
          findings = sort_by (\<lambda>l r. span_compare l r \<le> 0)
            (map (\<lambda>f. builtin_finding f spanFor) internal @ map (\<lambda>f. customFinding f spanFor) custom);
          score = max_score findings; level = levelForScore (of_int score)
      in \<lparr>sr_decision = decisionForLevel level, sr_level = level, sr_score = score, sr_findings = findings,
          sr_complete = True, sr_inputBytes = inputBytes\<rparr>)"

text \<open>\<open>scan\<close>, with the shared work meter it leaves. An input whose \<open>content\<close> is not a string is
  \<open>None\<close>.\<close>

definition scan :: "scan_env \<Rightarrow> scan_input \<Rightarrow> scan_result \<times> work_meter option" where
  "scan env input =
     (case si_content input of
        None \<Rightarrow> (failedResult 0 FailScanError, si_workMeter input)
      | Some content \<Rightarrow>
          let inputBytes = utf8Length content MAX_INPUT_BYTES in
          if MAX_INPUT_BYTES < inputBytes then (failedResult inputBytes FailScanLimit, si_workMeter input)
          else case collectFindings env content (si_languageId input) of
            None \<Rightarrow> (failedResult inputBytes FailScanError, si_workMeter input)
          | Some findings \<Rightarrow>
              (case si_rules input of
                 None \<Rightarrow> (successfulResult content inputBytes findings [], si_workMeter input)
               | Some pack \<Rightarrow>
                   (case collectCustomFindings env content pack (MAX_FINDINGS - length findings) (si_workMeter input) of
                      (meter, CustomBudget) \<Rightarrow> (failedResult inputBytes FailCustomBudget, meter)
                    | (meter, CustomTooMany) \<Rightarrow> (failedResult inputBytes FailCustomTooMany, meter)
                    | (meter, CustomOk custom) \<Rightarrow> (successfulResult content inputBytes findings custom, meter))))"

section \<open>Redaction\<close>

definition validSpan :: "ustring \<Rightarrow> finding \<Rightarrow> bool" where
  "validSpan content f \<longleftrightarrow> start_offset f \<le> end_offset f \<and> end_offset f \<le> length content"

definition placeholderName :: "unicode \<Rightarrow> finding \<Rightarrow> ustring" where
  "placeholderName U f =
     (case fd_custom f of
        None \<Rightarrow> map (\<lambda>c. if is_alnum c \<or> c = 95 then c else 95) (fd_ruleId f)
      | Some rule \<Rightarrow>
          let letters = concat (filter (\<lambda>c. \<not> uc_mark U (cp_of c)) (chars (uc_nfkd U (cr_label rule))));
              name = trim_by (\<lambda>c. c = 95) (replace_runs (\<lambda>c. \<not> is_alnum c) 95 letters);
              name = rev (dropWhile (\<lambda>c. c = 95) (rev (take 48 name)))
          in if name = [] then js ''custom_rule'' else name)"

type_synonym named_span = "nat \<times> nat \<times> ustring"

definition redact_compare :: "finding \<Rightarrow> finding \<Rightarrow> int" where
  "redact_compare l r =
     js_or (int (start_offset l) - int (start_offset r))
      (js_or (int (end_offset l) - int (end_offset r)) (fd_score r - fd_score l))"

definition redact_name :: "unicode \<Rightarrow> bool \<Rightarrow> finding \<Rightarrow> ustring" where
  "redact_name U neutral f =
     (if neutral \<and> fd_custom f \<noteq> None then js ''custom_rule'' else placeholderName U f)"

text \<open>The merge of touching spans; the accumulator holds the merged spans last first.\<close>

fun merge_loop :: "unicode \<Rightarrow> bool \<Rightarrow> finding list \<Rightarrow> named_span list \<Rightarrow> named_span list" where
  "merge_loop U neutral [] merged = merged"
| "merge_loop U neutral (f # fs) [] =
     merge_loop U neutral fs [(start_offset f, end_offset f, redact_name U neutral f)]"
| "merge_loop U neutral (f # fs) ((s, e, n) # merged) =
     (if start_offset f \<le> e then merge_loop U neutral fs ((s, max e (end_offset f), n) # merged)
      else merge_loop U neutral fs ((start_offset f, end_offset f, redact_name U neutral f) # (s, e, n) # merged))"

definition placeholder :: "ustring \<Rightarrow> ustring" where
  "placeholder name = js ''<REDACTED_'' @ name @ [62]"

definition replace_span :: "ustring \<Rightarrow> named_span \<Rightarrow> ustring" where
  "replace_span redacted = (\<lambda>(s, e, name). take s redacted @ placeholder name @ drop e redacted)"

definition redactable :: "ustring \<Rightarrow> finding list \<Rightarrow> finding list" where
  "redactable content findings =
     filter (\<lambda>f. validSpan content f \<and> start_offset f < end_offset f) findings"

definition redact :: "unicode \<Rightarrow> ustring \<Rightarrow> finding list \<Rightarrow> bool \<Rightarrow> ustring" where
  "redact U content findings neutral =
     (let valid = sort_by (\<lambda>l r. redact_compare l r \<le> 0) (redactable content findings)
      in foldl replace_span content (merge_loop U neutral valid []))"

definition approved :: "scan_result \<Rightarrow> bool" where
  "approved r \<longleftrightarrow> sr_complete r \<and> sr_decision r = ALLOW"

text \<open>\<open>redactAndRescan\<close>; every scan draws on the same meter.\<close>

definition redactAndRescan :: "scan_env \<Rightarrow> scan_input \<Rightarrow> sanitize_result" where
  "redactAndRescan env input =
     (let (initial, meter) = scan env input;
          original = (case si_content input of Some s \<Rightarrow> s | None \<Rightarrow> []) in
      if \<not> sr_complete initial then \<lparr>sz_initial = initial, sz_content = [], sz_final = initial\<rparr>
      else
        let content = redact (se_unicode env) original (sr_findings initial) False;
            (final, meter) = scan env (input\<lparr>si_content := Some content, si_workMeter := meter\<rparr>);
            (content, final) =
              (if \<not> approved final \<and> list_ex (\<lambda>f. fd_custom f \<noteq> None) (sr_findings initial) then
                 let content = redact (se_unicode env) original (sr_findings initial) True
                 in (content, fst (scan env (input\<lparr>si_content := Some content, si_workMeter := meter\<rparr>)))
               else (content, final))
        in \<lparr>sz_initial = initial, sz_content = (if approved final then content else []), sz_final = final\<rparr>)"

end
