(* ===== verification/Regexp.thy ===== *)
theory Regexp
  imports Js_String
begin

text \<open>
  The regular expressions of JavaScript, as far as the program's own ones go: the syntax of a
  literal, its backtracking semantics with captures (ECMA-262, \<open>RepeatMatcher\<close> and its
  empty-iteration rule), and \<open>test\<close>, \<open>exec\<close> and \<open>matchAll\<close>. A pattern is written in the
  theories as in the source, with \<open>~\<close> for the backslash. The outcomes of a pattern at a position
  are listed in the order the engine tries them; the correctness part shows that they are
  exactly the derivations of an inductive matching relation.
\<close>

datatype class_item = Single nat | Range nat nat | Digits bool | Spaces bool | Words bool

datatype rx =
  REmpty
| RSet bool "class_item list"
| RSeq rx rx
| RAlt rx rx
| RCapture nat rx
| RBack nat
| RRepeat rx nat "nat option" bool
| RStart
| REnd
| RBoundary bool

record regexp =
  rx_ast :: rx
  rx_icase :: bool
  rx_multiline :: bool

section \<open>Characters\<close>

definition rx_word :: "nat \<Rightarrow> bool" where
  "rx_word c \<longleftrightarrow> (48 \<le> c \<and> c \<le> 57) \<or> (65 \<le> c \<and> c \<le> 90) \<or> (97 \<le> c \<and> c \<le> 122) \<or> c = 95"

definition rx_newline :: "nat \<Rightarrow> bool" where
  "rx_newline c \<longleftrightarrow> c = 10 \<or> c = 13 \<or> c = 0x2028 \<or> c = 0x2029"

fun item_has :: "class_item \<Rightarrow> nat \<Rightarrow> bool" where
  "item_has (Single a) c = (c = a)"
| "item_has (Range a b) c = (a \<le> c \<and> c \<le> b)"
| "item_has (Digits yes) c = ((48 \<le> c \<and> c \<le> 57) = yes)"
| "item_has (Spaces yes) c = (is_js_space c = yes)"
| "item_has (Words yes) c = (rx_word c = yes)"

text \<open>The other case of an ASCII letter; every class of the program lists ASCII characters, so the
  \<open>i\<close> flag concerns no other ones.\<close>

definition other_case :: "nat \<Rightarrow> nat" where
  "other_case c = (if 65 \<le> c \<and> c \<le> 90 then c + 32 else if 97 \<le> c \<and> c \<le> 122 then c - 32 else c)"

definition set_has :: "bool \<Rightarrow> bool \<Rightarrow> class_item list \<Rightarrow> nat \<Rightarrow> bool" where
  "set_has icase negated items c \<longleftrightarrow>
     list_ex (\<lambda>item. item_has item c \<or> icase \<and> item_has item (other_case c)) items \<noteq> negated"

section \<open>Matching\<close>

text \<open>A state of the matcher: the position and the captured ranges, the latest first.\<close>

type_synonym rx_state = "nat \<times> (nat \<times> nat \<times> nat) list"

text \<open>The expression's flags and the input.\<close>

record rx_env =
  xe_icase :: bool
  xe_multiline :: bool
  xe_text :: ustring

fun captures_in :: "rx \<Rightarrow> nat list" where
  "captures_in (RSeq a b) = captures_in a @ captures_in b"
| "captures_in (RAlt a b) = captures_in a @ captures_in b"
| "captures_in (RCapture n a) = n # captures_in a"
| "captures_in (RRepeat a _ _ _) = captures_in a"
| "captures_in _ = []"

definition forget :: "rx \<Rightarrow> rx_state \<Rightarrow> rx_state" where
  "forget r x = (fst x, filter (\<lambda>(n, _). n \<notin> set (captures_in r)) (snd x))"

fun lower_bound :: "nat option \<Rightarrow> nat option" where
  "lower_bound None = None"
| "lower_bound (Some n) = Some (n - 1)"

text \<open>\<open>RepeatMatcher\<close>: the outcomes of a repeated pattern, whose own outcomes are \<open>m\<close>. Every
  iteration past the minimum moves forward, so the fuel of the caller is never used up.\<close>

fun repeats :: "(rx_state \<Rightarrow> rx_state list) \<Rightarrow> bool \<Rightarrow> nat \<Rightarrow> nat \<Rightarrow> nat option \<Rightarrow> rx_state \<Rightarrow> rx_state list" where
  "repeats m greedy 0 least most x = []"
| "repeats m greedy (Suc fuel) least most x =
     (if most = Some 0 then [x]
      else
        let more = concat (map (\<lambda>y. if least = 0 \<and> fst y = fst x then []
                                   else repeats m greedy fuel (least - 1) (lower_bound most) y) (m x))
        in if least \<noteq> 0 then more
           else if greedy then more @ [x] else x # more)"

definition at_boundary :: "ustring \<Rightarrow> nat \<Rightarrow> bool" where
  "at_boundary s i \<longleftrightarrow>
     (0 < i \<and> rx_word (s ! (i - 1))) \<noteq> (i < length s \<and> rx_word (s ! i))"

definition at_start :: "bool \<Rightarrow> ustring \<Rightarrow> nat \<Rightarrow> bool" where
  "at_start multiline s i \<longleftrightarrow> i = 0 \<or> multiline \<and> rx_newline (s ! (i - 1))"

definition at_end :: "bool \<Rightarrow> ustring \<Rightarrow> nat \<Rightarrow> bool" where
  "at_end multiline s i \<longleftrightarrow> length s \<le> i \<or> multiline \<and> rx_newline (s ! i)"

text \<open>A back reference: the captured text again, case-insensitively under \<open>i\<close>; a group that took no
  part matches the empty string.\<close>

definition same_unit :: "bool \<Rightarrow> nat \<Rightarrow> nat \<Rightarrow> bool" where
  "same_unit icase a b \<longleftrightarrow> a = b \<or> icase \<and> a = other_case b"

definition back_end :: "rx_env \<Rightarrow> nat \<Rightarrow> rx_state \<Rightarrow> nat option" where
  "back_end E n x =
     (case map_of (snd x) n of
        None \<Rightarrow> Some (fst x)
      | Some (a, b) \<Rightarrow>
          let captured = js_slice (xe_text E) a b; e = fst x + length captured in
          if list_all2 (same_unit (xe_icase E)) captured (js_slice (xe_text E) (fst x) e)
          then Some e else None)"

fun outcomes :: "rx_env \<Rightarrow> rx \<Rightarrow> rx_state \<Rightarrow> rx_state list" where
  "outcomes E REmpty x = [x]"
| "outcomes E (RSet negated items) x =
     (if fst x < length (xe_text E) \<and> set_has (xe_icase E) negated items (xe_text E ! fst x)
      then [(fst x + 1, snd x)] else [])"
| "outcomes E (RSeq a b) x = concat (map (outcomes E b) (outcomes E a x))"
| "outcomes E (RAlt a b) x = outcomes E a x @ outcomes E b x"
| "outcomes E (RCapture n a) x = map (\<lambda>y. (fst y, (n, fst x, fst y) # snd y)) (outcomes E a x)"
| "outcomes E (RBack n) x = (case back_end E n x of None \<Rightarrow> [] | Some j \<Rightarrow> [(j, snd x)])"
| "outcomes E (RRepeat a least most greedy) x =
     repeats (\<lambda>y. outcomes E a (forget a y)) greedy (Suc (least + (length (xe_text E) - fst x))) least most x"
| "outcomes E RStart x = (if at_start (xe_multiline E) (xe_text E) (fst x) then [x] else [])"
| "outcomes E REnd x = (if at_end (xe_multiline E) (xe_text E) (fst x) then [x] else [])"
| "outcomes E (RBoundary yes) x = (if at_boundary (xe_text E) (fst x) = yes then [x] else [])"

section \<open>Searching\<close>

definition rx_env_of :: "regexp \<Rightarrow> ustring \<Rightarrow> rx_env" where
  "rx_env_of R s = \<lparr>xe_icase = rx_icase R, xe_multiline = rx_multiline R, xe_text = s\<rparr>"

text \<open>A match: its start, its end and its captures.\<close>

type_synonym rx_found = "nat \<times> nat \<times> (nat \<times> nat \<times> nat) list"

text \<open>The match at one position, as with the \<open>y\<close> flag.\<close>

definition rx_sticky :: "regexp \<Rightarrow> ustring \<Rightarrow> nat \<Rightarrow> rx_found option" where
  "rx_sticky R s i =
     (case outcomes (rx_env_of R s) (rx_ast R) (i, []) of [] \<Rightarrow> None | (j, caps) # _ \<Rightarrow> Some (i, j, caps))"

fun first_match :: "regexp \<Rightarrow> ustring \<Rightarrow> nat list \<Rightarrow> rx_found option" where
  "first_match R s [] = None"
| "first_match R s (i # is) = (case rx_sticky R s i of Some m \<Rightarrow> Some m | None \<Rightarrow> first_match R s is)"

text \<open>\<open>exec\<close> with \<open>lastIndex = i\<close>.\<close>

definition rx_exec :: "regexp \<Rightarrow> ustring \<Rightarrow> nat \<Rightarrow> rx_found option" where
  "rx_exec R s i = first_match R s [i ..< Suc (length s)]"

definition rx_test :: "regexp \<Rightarrow> ustring \<Rightarrow> bool" where
  "rx_test R s \<longleftrightarrow> rx_exec R s 0 \<noteq> None"

lemma first_match_in: "first_match R s is = Some (i, j, caps) \<Longrightarrow> i \<in> set is"
  by (induction "is") (auto simp: rx_sticky_def split: option.splits list.splits)

text \<open>\<open>matchAll\<close>: the matches from \<open>i\<close> on; an empty match moves on by one unit.\<close>

function rx_all :: "regexp \<Rightarrow> ustring \<Rightarrow> nat \<Rightarrow> rx_found list" where
  "rx_all R s i =
     (case rx_exec R s i of
        None \<Rightarrow> []
      | Some (a, b, caps) \<Rightarrow> (a, b, caps) # rx_all R s (max b (a + 1)))"
  by pat_completeness auto
termination
  by (relation "measure (\<lambda>(R, s, i). Suc (length s) - i)")
    (auto simp: rx_exec_def dest!: first_match_in)

declare rx_all.simps [simp del]

text \<open>\<open>match[n]\<close>, \<open>None\<close> for a group that took no part.\<close>

definition rx_group :: "ustring \<Rightarrow> rx_found \<Rightarrow> nat \<Rightarrow> ustring option" where
  "rx_group s m n =
     (if n = 0 then Some (js_slice s (fst m) (fst (snd m)))
      else map_option (\<lambda>(a, b). js_slice s a b) (map_of (snd (snd m)) n))"

section \<open>Literals\<close>

text \<open>A literal of the source, \<open>~\<close> standing for the backslash.\<close>

definition rxs :: "string \<Rightarrow> ustring" where
  "rxs s = map (\<lambda>c. if c = 126 then 92 else c) (js s)"

text \<open>The item an escape stands for; every other escaped character is itself.\<close>

definition escape_item :: "nat \<Rightarrow> class_item" where
  "escape_item c =
     (if c = 100 then Digits True else if c = 68 then Digits False
      else if c = 115 then Spaces True else if c = 83 then Spaces False
      else if c = 119 then Words True else if c = 87 then Words False
      else if c = 110 then Single 10 else if c = 114 then Single 13 else if c = 116 then Single 9
      else if c = 102 then Single 12 else if c = 118 then Single 11 else Single c)"

fun class_atom :: "ustring \<Rightarrow> (class_item \<times> ustring) option" where
  "class_atom [] = None"
| "class_atom [c] = Some (Single c, [])"
| "class_atom (c # d # rest) = Some (if c = 92 then (escape_item d, rest) else (Single c, d # rest))"

fun parse_class :: "nat \<Rightarrow> ustring \<Rightarrow> (class_item list \<times> ustring) option" where
  "parse_class 0 s = None"
| "parse_class (Suc n) s =
     (if s = [] then None
      else if hd s = 93 then Some ([], tl s)
      else case class_atom s of
        None \<Rightarrow> None
      | Some (a, rest) \<Rightarrow>
          (case (if 2 \<le> length rest \<and> hd rest = 45 \<and> hd (tl rest) \<noteq> 93 then class_atom (tl rest) else None) of
             Some (Single high, rest') \<Rightarrow>
               (case a of
                  Single low \<Rightarrow> map_option (\<lambda>(items, r). (Range low high # items, r)) (parse_class n rest')
                | _ \<Rightarrow> None)
           | _ \<Rightarrow> map_option (\<lambda>(items, r). (a # items, r)) (parse_class n rest)))"

fun parse_number :: "ustring \<Rightarrow> nat \<Rightarrow> nat \<times> ustring" where
  "parse_number [] acc = (acc, [])"
| "parse_number (c # cs) acc =
     (if 48 \<le> c \<and> c \<le> 57 then parse_number cs (acc * 10 + (c - 48)) else (acc, c # cs))"

text \<open>\<open>{n}\<close>, \<open>{n,}\<close> and \<open>{n,m}\<close> after the brace; anything else makes the brace a literal.\<close>

definition parse_bounds :: "ustring \<Rightarrow> (nat \<times> nat option \<times> ustring) option" where
  "parse_bounds s =
     (case parse_number s 0 of
        (low, rest) \<Rightarrow>
          if rest = s \<or> rest = [] then None
          else if hd rest = 125 then Some (low, Some low, tl rest)
          else if hd rest = 44 then
            (case parse_number (tl rest) 0 of
               (high, rest') \<Rightarrow>
                 if rest' = [] \<or> hd rest' \<noteq> 125 then None
                 else Some (low, if rest' = tl rest then None else Some high, tl rest'))
          else None)"

definition parse_quantifier :: "ustring \<Rightarrow> ((nat \<times> nat option) \<times> ustring) option" where
  "parse_quantifier s =
     (if s = [] then None
      else if hd s = 42 then Some ((0, None), tl s)
      else if hd s = 43 then Some ((1, None), tl s)
      else if hd s = 63 then Some ((0, Some 1), tl s)
      else if hd s = 123 then map_option (\<lambda>(low, high, rest). ((low, high), rest)) (parse_bounds (tl s))
      else None)"

definition quantified :: "rx \<Rightarrow> ustring \<Rightarrow> rx \<times> ustring" where
  "quantified a s =
     (case parse_quantifier s of
        None \<Rightarrow> (a, s)
      | Some ((low, high), rest) \<Rightarrow>
          if rest \<noteq> [] \<and> hd rest = 63 then (RRepeat a low high False, tl rest)
          else (RRepeat a low high True, rest))"

text \<open>The parser counts the groups it has opened in \<open>k\<close>; the fuel is the length of the source.\<close>

fun parse_alternatives :: "nat \<Rightarrow> nat \<Rightarrow> ustring \<Rightarrow> (rx \<times> nat \<times> ustring) option"
and parse_sequence :: "nat \<Rightarrow> nat \<Rightarrow> ustring \<Rightarrow> (rx \<times> nat \<times> ustring) option"
and parse_atom :: "nat \<Rightarrow> nat \<Rightarrow> ustring \<Rightarrow> (rx \<times> nat \<times> ustring) option" where
  "parse_alternatives 0 k s = None"
| "parse_alternatives (Suc n) k s =
     (case parse_sequence n k s of
        None \<Rightarrow> None
      | Some (a, k, rest) \<Rightarrow>
          if rest \<noteq> [] \<and> hd rest = 124
          then map_option (\<lambda>(b, kr). (RAlt a b, kr)) (parse_alternatives n k (tl rest))
          else Some (a, k, rest))"
| "parse_sequence 0 k s = None"
| "parse_sequence (Suc n) k s =
     (if s = [] \<or> hd s = 124 \<or> hd s = 41 then Some (REmpty, k, s)
      else case parse_atom n k s of
        None \<Rightarrow> None
      | Some (a, k, rest) \<Rightarrow>
          (case quantified a rest of
             (q, rest) \<Rightarrow> map_option (\<lambda>(b, kr). (RSeq q b, kr)) (parse_sequence n k rest)))"
| "parse_atom 0 k s = None"
| "parse_atom (Suc n) k s =
     (case s of
        [] \<Rightarrow> None
      | c # rest \<Rightarrow>
          if c = 40 then
            (if take 2 rest = [63, 58] then
               (case parse_alternatives n k (drop 2 rest) of
                  Some (a, k, r) \<Rightarrow> if r \<noteq> [] \<and> hd r = 41 then Some (a, k, tl r) else None
                | None \<Rightarrow> None)
             else
               (case parse_alternatives n (k + 1) rest of
                  Some (a, k', r) \<Rightarrow> if r \<noteq> [] \<and> hd r = 41 then Some (RCapture (k + 1) a, k', tl r) else None
                | None \<Rightarrow> None))
          else if c = 91 then
            (if rest \<noteq> [] \<and> hd rest = 94
             then map_option (\<lambda>(items, r). (RSet True items, k, r)) (parse_class n (tl rest))
             else map_option (\<lambda>(items, r). (RSet False items, k, r)) (parse_class n rest))
          else if c = 46 then Some (RSet True [Single 10, Single 13, Single 0x2028, Single 0x2029], k, rest)
          else if c = 94 then Some (RStart, k, rest)
          else if c = 36 then Some (REnd, k, rest)
          else if c = 92 then
            (case rest of
               [] \<Rightarrow> None
             | d # r \<Rightarrow>
                 Some (if d = 98 then RBoundary True else if d = 66 then RBoundary False
                       else if 49 \<le> d \<and> d \<le> 57 then RBack (d - 48) else RSet False [escape_item d], k, r))
          else Some (RSet False [Single c], k, rest))"

definition parse_regexp :: "ustring \<Rightarrow> rx option" where
  "parse_regexp s =
     (case parse_alternatives (Suc (Suc (Suc (3 * length s)))) 0 s of
        Some (a, k, rest) \<Rightarrow> if rest = [] then Some a else None
      | None \<Rightarrow> None)"

text \<open>A regular expression of the source; one that does not parse matches nothing.\<close>

definition regexp_of :: "ustring \<Rightarrow> string \<Rightarrow> regexp" where
  "regexp_of source flags =
     \<lparr>rx_ast = (case parse_regexp source of Some a \<Rightarrow> a | None \<Rightarrow> RSet False []),
      rx_icase = (CHR ''i'' \<in> set flags), rx_multiline = (CHR ''m'' \<in> set flags)\<rparr>"

definition re :: "string \<Rightarrow> string \<Rightarrow> regexp" where
  "re source flags = regexp_of (rxs source) flags"

text \<open>Evaluation of a literal by rewriting.\<close>

lemmas regexp_fuel =
  parse_alternatives.simps(2) [where n = "pred_numeral k" for k, folded numeral_eq_Suc]
  parse_sequence.simps(2) [where n = "pred_numeral k" for k, folded numeral_eq_Suc]
  parse_atom.simps(2) [where n = "pred_numeral k" for k, folded numeral_eq_Suc]
  parse_class.simps(2) [where n = "pred_numeral k" for k, folded numeral_eq_Suc]

lemmas regexp_eval =
  re_def regexp_of_def parse_regexp_def rxs_def js_def of_char_def quantified_def parse_quantifier_def
  escape_item_def parse_bounds_def regexp_fuel

end
