(* ===== verification/Regexp_Correct.thy ===== *)
theory Regexp_Correct
  imports Regexp
begin

text \<open>
  The backtracking matcher computes the matching relation: its outcomes are exactly the
  derivations of \<open>rx_match\<close>, the fuel of the repetition is never used up, and \<open>exec\<close> finds the
  leftmost position at which there is one. Clients reason with the relation, through
  \<open>inductive_simps\<close>.
\<close>

inductive rx_match :: "rx_env \<Rightarrow> rx \<Rightarrow> rx_state \<Rightarrow> rx_state \<Rightarrow> bool"
and rx_iterate :: "rx_env \<Rightarrow> rx \<Rightarrow> nat \<Rightarrow> nat option \<Rightarrow> rx_state \<Rightarrow> rx_state \<Rightarrow> bool"
where
  match_empty: "rx_match E REmpty x x"
| match_set: "fst x < length (xe_text E) \<Longrightarrow> set_has (xe_icase E) negated items (xe_text E ! fst x) \<Longrightarrow>
    rx_match E (RSet negated items) x (fst x + 1, snd x)"
| match_seq: "rx_match E a x y \<Longrightarrow> rx_match E b y z \<Longrightarrow> rx_match E (RSeq a b) x z"
| match_left: "rx_match E a x y \<Longrightarrow> rx_match E (RAlt a b) x y"
| match_right: "rx_match E b x y \<Longrightarrow> rx_match E (RAlt a b) x y"
| match_capture: "rx_match E a x y \<Longrightarrow> rx_match E (RCapture n a) x (fst y, (n, fst x, fst y) # snd y)"
| match_back: "back_end E n x = Some j \<Longrightarrow> rx_match E (RBack n) x (j, snd x)"
| match_repeat: "rx_iterate E a least most x y \<Longrightarrow> rx_match E (RRepeat a least most greedy) x y"
| match_start: "at_start (xe_multiline E) (xe_text E) (fst x) \<Longrightarrow> rx_match E RStart x x"
| match_end: "at_end (xe_multiline E) (xe_text E) (fst x) \<Longrightarrow> rx_match E REnd x x"
| match_boundary: "at_boundary (xe_text E) (fst x) = yes \<Longrightarrow> rx_match E (RBoundary yes) x x"
| iterate_stop: "least = 0 \<or> most = Some 0 \<Longrightarrow> rx_iterate E a least most x x"
| iterate_more: "most \<noteq> Some 0 \<Longrightarrow> rx_match E a (forget a x) y \<Longrightarrow> least \<noteq> 0 \<or> fst y \<noteq> fst x \<Longrightarrow>
    rx_iterate E a (least - 1) (lower_bound most) y z \<Longrightarrow> rx_iterate E a least most x z"

inductive_simps rx_match_simps:
  "rx_match E REmpty x y" "rx_match E (RSet negated items) x y" "rx_match E (RSeq a b) x y"
  "rx_match E (RAlt a b) x y" "rx_match E (RCapture n a) x y" "rx_match E (RBack n) x y"
  "rx_match E (RRepeat a least most greedy) x y" "rx_match E RStart x y" "rx_match E REnd x y"
  "rx_match E (RBoundary yes) x y"

lemma rx_iterateD:
  "rx_iterate E a least most x y \<Longrightarrow>
   (y = x \<and> (least = 0 \<or> most = Some 0)) \<or>
   (\<exists>z. most \<noteq> Some 0 \<and> rx_match E a (forget a x) z \<and> (least \<noteq> 0 \<or> fst z \<noteq> fst x) \<and>
      rx_iterate E a (least - 1) (lower_bound most) z y)"
  by (erule rx_iterate.cases) (simp, blast)

section \<open>Positions\<close>

lemma fst_forget [simp]: "fst (forget a x) = fst x"
  by (simp add: forget_def)

text \<open>Matching moves forward and stays inside the text.\<close>

lemma back_end_bounds:
  "back_end E n x = Some j \<Longrightarrow> fst x \<le> j \<and> (fst x \<le> length (xe_text E) \<longrightarrow> j \<le> length (xe_text E))"
  by (auto simp: back_end_def Let_def js_slice_def min_def dest!: list_all2_lengthD
      split: option.splits if_splits)

lemma rx_match_bounds:
  "rx_match E r x y \<Longrightarrow> fst x \<le> fst y \<and> (fst x \<le> length (xe_text E) \<longrightarrow> fst y \<le> length (xe_text E))"
  "rx_iterate E a least most x y \<Longrightarrow>
     fst x \<le> fst y \<and> (fst x \<le> length (xe_text E) \<longrightarrow> fst y \<le> length (xe_text E))"
  by (induction rule: rx_match_rx_iterate.inducts) (auto dest!: back_end_bounds)

section \<open>The matcher computes the relation\<close>

lemma repeats_sound:
  assumes m: "\<And>x y. y \<in> set (m x) \<Longrightarrow> rx_match E a (forget a x) y"
  shows "y \<in> set (repeats m greedy fuel least most x) \<Longrightarrow> rx_iterate E a least most x y"
proof (induction fuel arbitrary: least most x)
  case 0
  then show ?case by simp
next
  case (Suc fuel)
  show ?case
  proof (cases "most = Some 0")
    case True
    with Suc.prems show ?thesis by (auto intro: iterate_stop)
  next
    case False
    then consider (stop) "y = x" "least = 0"
      | (more) z where "z \<in> set (m x)" "least \<noteq> 0 \<or> fst z \<noteq> fst x"
          "y \<in> set (repeats m greedy fuel (least - 1) (lower_bound most) z)"
      using Suc.prems by (auto simp: Let_def split: if_splits)
    then show ?thesis
    proof cases
      case stop
      then show ?thesis by (auto intro: iterate_stop)
    next
      case more
      show ?thesis by (rule iterate_more [OF False m [OF more(1)] more(2) Suc.IH [OF more(3)]])
    qed
  qed
qed

text \<open>With more fuel than iterations are left, every derivation is found.\<close>

lemma repeats_complete:
  assumes m: "\<And>x y. rx_match E a (forget a x) y \<Longrightarrow> fst x \<le> length (xe_text E) \<Longrightarrow> y \<in> set (m x)"
  shows "rx_iterate E a least most x y \<Longrightarrow> fst x \<le> length (xe_text E) \<Longrightarrow>
     least + (length (xe_text E) - fst x) < fuel \<Longrightarrow> y \<in> set (repeats m greedy fuel least most x)"
proof (induction fuel arbitrary: least most x)
  case (Suc fuel)
  consider (stop) "y = x" "least = 0 \<or> most = Some 0"
    | (more) z where "most \<noteq> Some 0" "rx_match E a (forget a x) z" "least \<noteq> 0 \<or> fst z \<noteq> fst x"
        "rx_iterate E a (least - 1) (lower_bound most) z y"
    using rx_iterateD [OF Suc.prems(1)] by metis
  then show ?case
  proof cases
    case stop
    then show ?thesis by (cases "most = Some 0") (auto simp: Let_def)
  next
    case more
    have b: "fst x \<le> fst z" "fst z \<le> length (xe_text E)"
      using rx_match_bounds(1) [OF more(2)] Suc.prems(2) by auto
    have "least - 1 + (length (xe_text E) - fst z) < fuel"
      using more(3) b Suc.prems by linarith
    with more(4) b Suc.IH have "y \<in> set (repeats m greedy fuel (least - 1) (lower_bound most) z)" by blast
    moreover have "z \<in> set (m x)" using m [OF more(2) Suc.prems(2)] .
    ultimately show ?thesis using more(1,3) by (auto simp: Let_def)
  qed
qed simp

lemma outcomes_sound: "y \<in> set (outcomes E r x) \<Longrightarrow> rx_match E r x y"
proof (induction r arbitrary: x y)
  case (RRepeat a least most greedy)
  have "rx_iterate E a least most x y"
    by (rule repeats_sound [OF _ RRepeat.prems [unfolded outcomes.simps]]) (rule RRepeat.IH)
  then show ?case by (rule match_repeat)
next
  case (RSeq a b)
  from RSeq.prems obtain z where "z \<in> set (outcomes E a x)" "y \<in> set (outcomes E b z)" by auto
  then show ?case using RSeq.IH by (blast intro: match_seq)
qed (auto simp: rx_match_simps split: if_splits option.splits)

lemma outcomes_complete: "rx_match E r x y \<Longrightarrow> fst x \<le> length (xe_text E) \<Longrightarrow> y \<in> set (outcomes E r x)"
proof (induction r arbitrary: x y)
  case (RRepeat a least most greedy)
  from RRepeat.prems(1) have "rx_iterate E a least most x y" by (simp add: rx_match_simps)
  then show ?case
    using RRepeat.prems(2) unfolding outcomes.simps
    by (intro repeats_complete) (simp_all add: RRepeat.IH, linarith)
next
  case (RSeq a b)
  from RSeq.prems obtain z where z: "rx_match E a x z" "rx_match E b z y" by (auto simp: rx_match_simps)
  with rx_match_bounds(1) [OF z(1)] RSeq show ?case by fastforce
next
  case (RCapture n a)
  then obtain z where "rx_match E a x z" "y = (fst z, (n, fst x, fst z) # snd z)"
    by (auto simp: rx_match_simps)
  with RCapture show ?case by (auto intro!: image_eqI [of _ _ z])
qed (auto simp: rx_match_simps)

section \<open>Searching\<close>

lemma rx_env_of_simps [simp]:
  "xe_text (rx_env_of R s) = s" "xe_icase (rx_env_of R s) = rx_icase R" "xe_multiline (rx_env_of R s) = rx_multiline R"
  by (simp_all add: rx_env_of_def)

definition matches_from :: "regexp \<Rightarrow> ustring \<Rightarrow> nat \<Rightarrow> nat \<Rightarrow> bool" where
  "matches_from R s i j \<longleftrightarrow> (\<exists>caps. rx_match (rx_env_of R s) (rx_ast R) (i, []) (j, caps))"

lemma rx_sticky_None: "i \<le> length s \<Longrightarrow> rx_sticky R s i = None \<longleftrightarrow> (\<forall>j. \<not> matches_from R s i j)"
proof -
  assume i: "i \<le> length s"
  have "rx_sticky R s i = None \<longleftrightarrow> outcomes (rx_env_of R s) (rx_ast R) (i, []) = []"
    by (auto simp: rx_sticky_def split: list.splits)
  also have "\<dots> \<longleftrightarrow> (\<forall>y. \<not> rx_match (rx_env_of R s) (rx_ast R) (i, []) y)"
    using outcomes_sound outcomes_complete [of "rx_env_of R s" "rx_ast R" "(i, [])"] i
    by (metis equals0I fst_conv rx_env_of_simps(1) set_empty empty_iff)
  also have "\<dots> \<longleftrightarrow> (\<forall>j. \<not> matches_from R s i j)" by (auto simp: matches_from_def)
  finally show ?thesis .
qed

lemma rx_sticky_Some:
  "rx_sticky R s i = Some (a, j, caps) \<Longrightarrow> a = i \<and> rx_match (rx_env_of R s) (rx_ast R) (i, []) (j, caps)"
  by (auto simp: rx_sticky_def split: list.splits intro!: outcomes_sound)

lemma first_match_Some:
  "first_match R s is = Some m \<Longrightarrow>
   \<exists>k < length is. rx_sticky R s (is ! k) = Some m \<and> (\<forall>j < k. rx_sticky R s (is ! j) = None)"
proof (induction "is")
  case (Cons i "is")
  show ?case
  proof (cases "rx_sticky R s i")
    case None
    with Cons obtain k where "k < length is" "rx_sticky R s (is ! k) = Some m" "\<forall>j < k. rx_sticky R s (is ! j) = None"
      by auto
    with None show ?thesis by (intro exI [of _ "Suc k"]) (auto simp: less_Suc_eq_0_disj)
  next
    case (Some m')
    with Cons.prems show ?thesis by (intro exI [of _ 0]) auto
  qed
qed simp

lemma first_match_None: "first_match R s is = None \<longleftrightarrow> (\<forall>i \<in> set is. rx_sticky R s i = None)"
  by (induction "is") (auto split: option.splits)

text \<open>\<open>exec\<close> returns the leftmost position with a match, and fails only where there is none.\<close>

lemma rx_exec_Some:
  assumes "rx_exec R s i = Some (a, b, caps)"
  shows "i \<le> a" "a \<le> b" "b \<le> length s" "rx_match (rx_env_of R s) (rx_ast R) (a, []) (b, caps)"
    "\<And>k j. i \<le> k \<Longrightarrow> k < a \<Longrightarrow> \<not> matches_from R s k j"
proof -
  from first_match_Some [OF assms [unfolded rx_exec_def]] obtain k where
    k: "k < length [i ..< Suc (length s)]" "rx_sticky R s ([i ..< Suc (length s)] ! k) = Some (a, b, caps)"
      "\<forall>j < k. rx_sticky R s ([i ..< Suc (length s)] ! j) = None" by auto
  have nth: "[i ..< Suc (length s)] ! j = i + j" if "j \<le> k" for j
    using that k(1) by (simp add: nth_upt del: upt_Suc)
  from k nth have a: "a = i + k" "a \<le> length s" and m: "rx_match (rx_env_of R s) (rx_ast R) (a, []) (b, caps)"
    by (auto dest!: rx_sticky_Some simp del: upt_Suc)
  then show "i \<le> a" "rx_match (rx_env_of R s) (rx_ast R) (a, []) (b, caps)" by simp_all
  from rx_match_bounds(1) [OF m] a show "a \<le> b" "b \<le> length s" by auto
  show "\<not> matches_from R s k' j" if "i \<le> k'" "k' < a" for k' j
  proof -
    from that a have "k' - i < k" by simp
    with k(3) nth [of "k' - i"] that have "rx_sticky R s k' = None" by (auto simp del: upt_Suc)
    with rx_sticky_None [of k' s R] that a show ?thesis by simp
  qed
qed

lemma rx_exec_None: "rx_exec R s i = None \<longleftrightarrow> (\<forall>a j. i \<le> a \<longrightarrow> a \<le> length s \<longrightarrow> \<not> matches_from R s a j)"
  by (auto simp: rx_exec_def first_match_None rx_sticky_None)

text \<open>The matches of \<open>matchAll\<close> are in order and do not overlap.\<close>

lemma rx_all_ordered:
  "(\<forall>(a, b, caps) \<in> set (rx_all R s i). i \<le> a \<and> a \<le> b \<and> b \<le> length s \<and> matches_from R s a b) \<and>
   sorted_wrt (\<lambda>m m'. fst (snd m) \<le> fst m') (rx_all R s i)"
proof (induction R s i rule: rx_all.induct)
  case (1 R s i)
  show ?case
  proof (cases "rx_exec R s i")
    case None
    then show ?thesis by (simp add: rx_all.simps [of R s i])
  next
    case (Some m)
    obtain a b caps where "m = (a, b, caps)" by (cases m) auto
    with Some have m: "rx_exec R s i = Some (a, b, caps)" by simp
    note facts = rx_exec_Some [OF m]
    have "matches_from R s a b" using facts(4) by (auto simp: matches_from_def)
    with facts(1-3) "1.IH" [OF m refl refl] show ?thesis
      by (auto simp: rx_all.simps [of R s i] m)
  qed
qed

text \<open>What a match of a character or a sequence of them means.\<close>

lemma matches_from_test: "rx_test R s \<longleftrightarrow> (\<exists>i \<le> length s. \<exists>j. matches_from R s i j)"
proof (cases "rx_exec R s 0")
  case None
  then show ?thesis using rx_exec_None [of R s 0] by (auto simp: rx_test_def)
next
  case (Some m)
  obtain i j caps where "m = (i, j, caps)" by (cases m) auto
  with Some have m: "rx_exec R s 0 = Some (i, j, caps)" by simp
  then have "matches_from R s i j" using rx_exec_Some(4) [OF m] by (auto simp: matches_from_def)
  moreover have "i \<le> length s" using rx_exec_Some(2,3) [OF m] by simp
  ultimately show ?thesis using m by (auto simp: rx_test_def)
qed

text \<open>An expression that starts with a character that is no letter needs it in the text.\<close>

lemma set_has_Single:
  "other_case c = c \<Longrightarrow> set_has icase False [Single c] x \<longleftrightarrow> x = c"
  by (auto simp: set_has_def other_case_def split: if_splits)

lemma rx_test_needs:
  assumes "rx_ast R = RSeq (RSet False [Single c]) r" "other_case c = c" "c \<notin> set s"
  shows "\<not> rx_test R s"
proof
  assume "rx_test R s"
  then obtain i where "i < length s" "set_has (rx_icase R) False [Single c] (s ! i)"
    unfolding matches_from_test matches_from_def assms(1) rx_match_simps(2,3) by auto
  then have "s ! i = c" using set_has_Single [OF assms(2)] by blast
  with \<open>i < length s\<close> assms(3) show False by (metis nth_mem)
qed

section \<open>The least length of a match\<close>

fun min_len :: "rx \<Rightarrow> nat" where
  "min_len (RSet negated items) = 1"
| "min_len (RSeq a b) = min_len a + min_len b"
| "min_len (RAlt a b) = min (min_len a) (min_len b)"
| "min_len (RCapture n a) = min_len a"
| "min_len (RRepeat a least most greedy) =
     (case most of None \<Rightarrow> least | Some m \<Rightarrow> min least m) * min_len a"
| "min_len _ = 0"

lemma rx_match_min_len:
  "rx_match E r x y \<Longrightarrow> fst x + min_len r \<le> fst y"
  "rx_iterate E a least most x y \<Longrightarrow>
     fst x + (case most of None \<Rightarrow> least | Some m \<Rightarrow> min least m) * min_len a \<le> fst y"
proof (induction rule: rx_match_rx_iterate.inducts)
  case (match_back E n x j)
  then show ?case by (simp add: back_end_bounds)
next
  case (iterate_stop least most E a x)
  then show ?case by (cases most) auto
next
  case (iterate_more most E a x y least z)
  define k where "k = (case most of None \<Rightarrow> least | Some m \<Rightarrow> min least m)"
  show ?case
  proof (cases k)
    case 0
    with iterate_more.IH show ?thesis by (simp add: k_def)
  next
    case (Suc l)
    then have "(case lower_bound most of None \<Rightarrow> least - 1 | Some m \<Rightarrow> min (least - 1) m) = l"
      by (cases most) (auto simp: min_def k_def split: if_splits)
    with Suc iterate_more.IH show ?thesis unfolding k_def by simp
  qed
qed simp_all

lemma rx_exec_longer:
  assumes "rx_exec R s i = Some (a, b, caps)"
  shows "a + min_len (rx_ast R) \<le> b"
  using rx_exec_Some(4) [OF assms] rx_match_min_len(1) by fastforce

text \<open>A pattern that matches no empty text: its matches cover every position at which it matches.\<close>

definition nonempty_rx :: "regexp \<Rightarrow> bool" where
  "nonempty_rx R \<longleftrightarrow> 0 < min_len (rx_ast R)"

lemma rx_all_covers:
  assumes "nonempty_rx R" and "matches_from R s k j" and "i \<le> k" and "k \<le> length s"
  shows "list_ex (\<lambda>(a, b, caps). a \<le> k \<and> k < b) (rx_all R s i)"
  using assms
proof (induction R s i rule: rx_all.induct)
  case (1 R s i)
  show ?case
  proof (cases "rx_exec R s i")
    case None
    with "1.prems" show ?thesis by (auto simp: rx_exec_None)
  next
    case (Some m)
    obtain a b caps where "m = (a, b, caps)" by (cases m) auto
    with Some have m: "rx_exec R s i = Some (a, b, caps)" by simp
    from rx_exec_longer [OF m] "1.prems"(1) have longer: "a < b" by (simp add: nonempty_rx_def)
    from rx_exec_Some(5) [OF m, of k j] "1.prems" have "a \<le> k" by (meson not_le)
    show ?thesis
    proof (cases "k < b")
      case True
      with \<open>a \<le> k\<close> show ?thesis by (simp add: rx_all.simps [of R s i] m)
    next
      case False
      with longer have "max b (a + 1) \<le> k" by simp
      with "1.IH" [OF m refl refl] "1.prems" show ?thesis by (simp add: rx_all.simps [of R s i] m)
    qed
  qed
qed

text \<open>The backtracking matcher of the regular expressions is exact: a text passes \<open>test\<close> exactly
  when the matching relation has a derivation at some position, and \<open>exec\<close> returns the leftmost
  such position with an end that the relation derives.\<close>

theorem rx_exec_exact:
  "rx_test R s = (\<exists>i j. i \<le> length s \<and> matches_from R s i j) \<and>
   (case rx_exec R s 0 of
      None \<Rightarrow> \<not> (\<exists>i j. i \<le> length s \<and> matches_from R s i j)
    | Some (i, j, caps) \<Rightarrow>
        i \<le> j \<and> j \<le> length s \<and> matches_from R s i j \<and> \<not> (\<exists>k < i. \<exists>e. matches_from R s k e))"
proof (cases "rx_exec R s 0")
  case None
  then show ?thesis using rx_exec_None [of R s 0] by (auto simp: rx_test_def)
next
  case (Some m)
  obtain i j caps where "m = (i, j, caps)" by (cases m) auto
  with Some have m: "rx_exec R s 0 = Some (i, j, caps)" by simp
  then have "matches_from R s i j" using rx_exec_Some(4) [OF m] by (auto simp: matches_from_def)
  moreover have "i \<le> j" "j \<le> length s" "\<not> (\<exists>k < i. \<exists>e. matches_from R s k e)"
    using rx_exec_Some [OF m] by auto
  ultimately show ?thesis by (auto simp: rx_test_def m intro: exI [of _ i])
qed

end
