(* ===== verification/Policy.thy ===== *)
theory Policy
  imports Regexp_Correct Rules_Schema
begin

text \<open>
  The developer policy (\<open>policy/src\<close>): classes of actions, shell commands, file paths, tools and
  the evaluation of a signed policy for one request. Paths follow \<open>node:path\<close>: a path with a
  drive letter takes the Windows rules and every other one the host's, which is POSIX here, with
  the working directory as a parameter. \<open>Date.parse\<close> and \<open>toLowerCase\<close> on non-ASCII text are
  parameters too.
\<close>

section \<open>Types\<close>

datatype assistant = Claude | Codex | Copilot | OtherAssistant

text \<open>The last value is not an event of the program: a tool named like a member every JavaScript
  object inherits is looked up there (\<open>EXACT_TOOLS[name]\<close>).\<close>

datatype policy_event =
  PromptEvent | ReadEvent | WriteEvent | DeleteEvent | CommandEvent | NetworkEvent | McpEvent | UnknownEvent
| InheritedMember

datatype action_class =
  ReadAction | WriteAction | DeleteAction | PublishAction | DeployAction | NetworkAction | SecurityAction
| McpAction | UnknownAction

datatype policy_effect = Allow | RequireApproval | Deny

record policy_match =
  pm_assistants :: "assistant list option"
  pm_events :: "policy_event list option"
  pm_actionClasses :: "action_class list option"
  pm_resourcePrefixes :: "ustring list option"
  pm_tools :: "ustring list option"

record policy_rule =
  pr_id :: ustring
  pr_effect :: policy_effect
  pr_reason :: "ustring option"
  pr_match :: policy_match

record developer_policy =
  dp_schemaVersion :: int
  dp_policyId :: ustring
  dp_version :: int
  dp_issuedAt :: ustring
  dp_expiresAt :: ustring
  dp_unknownAction :: policy_effect
  dp_rules :: "policy_rule list"

record action_request =
  ar_assistant :: assistant
  ar_event :: policy_event
  ar_actionClass :: action_class
  ar_resource :: "ustring option"
  ar_tool :: "ustring option"
  ar_capabilityVerified :: bool

record policy_decision =
  pd_effect :: policy_effect
  pd_reason :: ustring
  pd_policyId :: "ustring option"
  pd_policyVersion :: "int option"
  pd_matchedRuleIds :: "ustring list"

record policy_host =
  ph_cwd :: ustring
  ph_lower :: "ustring \<Rightarrow> ustring"
  ph_date :: "ustring \<Rightarrow> int option"

text \<open>Effects in the order of their strength.\<close>

fun effect_rank :: "policy_effect \<Rightarrow> nat" where
  "effect_rank Allow = 0"
| "effect_rank RequireApproval = 1"
| "effect_rank Deny = 2"

lemma effect_rank_inject: "effect_rank a = effect_rank b \<Longrightarrow> a = b"
  by (cases a; cases b) auto

instantiation policy_effect :: linorder
begin

definition less_eq_policy_effect :: "policy_effect \<Rightarrow> policy_effect \<Rightarrow> bool" where
  "less_eq_policy_effect a b \<longleftrightarrow> effect_rank a \<le> effect_rank b"

definition less_policy_effect :: "policy_effect \<Rightarrow> policy_effect \<Rightarrow> bool" where
  "less_policy_effect a b \<longleftrightarrow> effect_rank a < effect_rank b"

instance
  by standard (auto simp: less_eq_policy_effect_def less_policy_effect_def intro: effect_rank_inject)

end

section \<open>Actions and commands\<close>

definition PUBLISH :: regexp where
  "PUBLISH = re ''~b(git~s+push|npm~s+publish|twine~s+upload|gh~s+release)~b'' ''i''"

definition DEPLOY :: regexp where
  "DEPLOY = re ''~b(terraform~s+apply|kubectl~s+apply|vercel~s+deploy|railway~s+up|flyctl~s+deploy)~b'' ''i''"

definition NETWORK :: regexp where
  "NETWORK = re ''~b(curl|wget|invoke-webrequest|ssh|scp|nc|netcat)~b'' ''i''"

definition DELETE :: regexp where
  "DELETE = re ''~b(rm~s+-[a-z]*r|del~s+~/|remove-item|git~s+clean)~b'' ''i''"

definition classifyAction :: "policy_event \<Rightarrow> ustring option \<Rightarrow> action_class" where
  "classifyAction event command =
     (if event = McpEvent then McpAction
      else if event = NetworkEvent then NetworkAction
      else if event = ReadEvent then ReadAction
      else if event = WriteEvent then WriteAction
      else if event = DeleteEvent then DeleteAction
      else case (if event = CommandEvent then command else None) of
        None \<Rightarrow> UnknownAction
      | Some c \<Rightarrow>
          if rx_test DELETE c then DeleteAction
          else if rx_test PUBLISH c then PublishAction
          else if rx_test DEPLOY c then DeployAction
          else if rx_test NETWORK c then NetworkAction
          else UnknownAction)"

definition AMBIGUOUS :: regexp where
  "AMBIGUOUS = re ''[`$][(]|~||&&|;|~n'' ''''"

definition commandIsAmbiguous :: "ustring \<Rightarrow> bool" where
  "commandIsAmbiguous command = rx_test AMBIGUOUS command"

definition INTERPRETER :: regexp where
  "INTERPRETER = re ''(?:^|~s)(?:python|python3|node|ruby|perl|php|sh|bash|zsh|pwsh|powershell)(?:~s|$)'' ''i''"

definition INLINE_CODE :: regexp where
  "INLINE_CODE = re ''(?:^|~s)(?:-c|-e|--eval)(?:~s|$)'' ''i''"

definition PTY :: regexp where
  "PTY = re ''(?:^|~s)(?:script|expect|unbuffer|socat)(?:~s|$)'' ''i''"

definition SECURITY :: regexp where
  "SECURITY = re ''~b(?:chmod|chown|setfacl|icacls|reg~s+add|defaults~s+write|security~s+add-)~b'' ''i''"

datatype command_reason = CompoundCommand | InlineInterpreter | InteractiveTerminal

record command_decision =
  cd_actionClass :: action_class
  cd_analyzable :: bool
  cd_reason :: "command_reason option"

definition analyzeCommand :: "ustring \<Rightarrow> command_decision" where
  "analyzeCommand command =
     (if commandIsAmbiguous command
      then \<lparr>cd_actionClass = UnknownAction, cd_analyzable = False, cd_reason = Some CompoundCommand\<rparr>
      else if rx_test PTY command
      then \<lparr>cd_actionClass = UnknownAction, cd_analyzable = False, cd_reason = Some InteractiveTerminal\<rparr>
      else if rx_test INTERPRETER command \<and> rx_test INLINE_CODE command
      then \<lparr>cd_actionClass = UnknownAction, cd_analyzable = False, cd_reason = Some InlineInterpreter\<rparr>
      else if rx_test SECURITY command
      then \<lparr>cd_actionClass = SecurityAction, cd_analyzable = True, cd_reason = None\<rparr>
      else \<lparr>cd_actionClass = classifyAction CommandEvent (Some command), cd_analyzable = True, cd_reason = None\<rparr>)"

section \<open>Data\<close>

record data_policy =
  dt_maximumBytes :: int
  dt_allowBinary :: bool

datatype data_reason = FileTooLarge | BinaryContent

definition DEFAULT_DATA_POLICY :: data_policy where
  "DEFAULT_DATA_POLICY = \<lparr>dt_maximumBytes = 1000000, dt_allowBinary = False\<rparr>"

text \<open>\<open>evaluateData\<close>: the reason of a refusal, \<open>None\<close> where the data is allowed. A size is an
  integer here, so \<open>isSafeInteger\<close> is a bound.\<close>

definition evaluateData :: "int \<Rightarrow> nat list \<Rightarrow> data_policy \<Rightarrow> data_reason option" where
  "evaluateData bytes sample policy =
     (if 2 ^ 53 \<le> bytes \<or> bytes < 0 \<or> dt_maximumBytes policy < bytes then Some FileTooLarge
      else if \<not> dt_allowBinary policy \<and> 0 \<in> set sample then Some BinaryContent
      else None)"

section \<open>Paths\<close>

datatype flavor = Posix | Win32

record normalized_path =
  np_flavor :: flavor
  np_value :: ustring

definition DRIVE :: regexp where
  "DRIVE = re ''^[a-z]:[~~/]'' ''i''"

text \<open>The segments of a path with \<open>.\<close> and \<open>..\<close> resolved; \<open>..\<close> at the root stays there.\<close>

fun resolve_segments :: "ustring list \<Rightarrow> ustring list \<Rightarrow> ustring list" where
  "resolve_segments acc [] = rev acc"
| "resolve_segments acc (p # ps) =
     (if p = [] \<or> p = [46] then resolve_segments acc ps
      else if p = [46, 46] then resolve_segments (tl acc) ps
      else resolve_segments (p # acc) ps)"

text \<open>\<open>posix.normalize(posix.resolve(raw))\<close>.\<close>

definition posix_segments :: "ustring \<Rightarrow> ustring \<Rightarrow> ustring list" where
  "posix_segments cwd raw =
     resolve_segments [] (split_on 47 (if raw \<noteq> [] \<and> hd raw = 47 then raw else cwd @ [47] @ raw))"

definition posix_path :: "ustring list \<Rightarrow> ustring" where
  "posix_path segments = 47 # join_with [47] segments"

text \<open>\<open>win32.normalize(win32.resolve(raw))\<close> of a path that starts with a drive letter and a separator.\<close>

definition win32_path :: "ustring \<Rightarrow> ustring" where
  "win32_path raw =
     take 2 raw @ [92] @ join_with [92] (resolve_segments [] (split_on 92 (replace_unit 47 92 (drop 3 raw))))"

definition flavor_of :: "ustring \<Rightarrow> flavor" where
  "flavor_of raw = (if rx_test DRIVE raw then Win32 else Posix)"

definition resolve_path :: "policy_host \<Rightarrow> ustring \<Rightarrow> ustring" where
  "resolve_path H raw =
     (case flavor_of raw of Win32 \<Rightarrow> win32_path raw | Posix \<Rightarrow> posix_path (posix_segments (ph_cwd H) raw))"

definition normalizePath :: "policy_host \<Rightarrow> ustring \<Rightarrow> normalized_path" where
  "normalizePath H raw =
     (case flavor_of raw of
        Win32 \<Rightarrow> \<lparr>np_flavor = Win32, np_value = ph_lower H (resolve_path H raw)\<rparr>
      | Posix \<Rightarrow> \<lparr>np_flavor = Posix, np_value = resolve_path H raw\<rparr>)"

fun flavor_sep :: "flavor \<Rightarrow> nat" where
  "flavor_sep Posix = 47"
| "flavor_sep Win32 = 92"

definition isWithin :: "normalized_path \<Rightarrow> normalized_path \<Rightarrow> bool" where
  "isWithin candidate top_path \<longleftrightarrow>
     np_flavor candidate = np_flavor top_path \<and>
     (np_value candidate = np_value top_path \<or>
      (let sep = flavor_sep (np_flavor top_path);
           base = (if np_value top_path \<noteq> [] \<and> last (np_value top_path) = sep then np_value top_path else np_value top_path @ [sep])
       in take (length base) (np_value candidate) = base))"

definition SENSITIVE_NAMES :: "ustring list" where
  "SENSITIVE_NAMES = map js [''.env'', ''.env.local'', ''credentials'', ''credentials.json'', ''id_rsa'', ''id_ed25519'']"

definition KEY_FILE :: regexp where
  "KEY_FILE = re ''~.(pem|key|p12|pfx)$'' ''i''"

datatype resource_reason = SensitiveResource | OutsideAllowedRoots

record resource_decision =
  rd_allowed :: bool
  rd_reason :: "resource_reason option"
  rd_normalized :: ustring

definition evaluateResource :: "policy_host \<Rightarrow> ustring \<Rightarrow> ustring list \<Rightarrow> resource_decision" where
  "evaluateResource H resource roots =
     (let normalized = resolve_path H resource;
          pieces = split_on (flavor_sep (flavor_of resource)) normalized in
      if list_ex (\<lambda>part. ph_lower H part \<in> set SENSITIVE_NAMES) pieces \<or> rx_test KEY_FILE normalized
      then \<lparr>rd_allowed = False, rd_reason = Some SensitiveResource, rd_normalized = normalized\<rparr>
      else
        let candidate = normalizePath H resource in
        if roots \<noteq> [] \<and> \<not> list_ex (\<lambda>root. isWithin candidate (normalizePath H root)) roots
        then \<lparr>rd_allowed = False, rd_reason = Some OutsideAllowedRoots, rd_normalized = normalized\<rparr>
        else \<lparr>rd_allowed = True, rd_reason = None, rd_normalized = normalized\<rparr>)"

section \<open>Tools\<close>

definition EXACT_TOOLS :: "(ustring \<times> policy_event) list" where
  "EXACT_TOOLS =
     [(js ''read'', ReadEvent), (js ''write'', WriteEvent), (js ''edit'', WriteEvent), (js ''apply_patch'', WriteEvent),
      (js ''delete'', DeleteEvent), (js ''remove'', DeleteEvent), (js ''bash'', CommandEvent),
      (js ''shell'', CommandEvent), (js ''terminal'', CommandEvent), (js ''command'', CommandEvent)]"

text \<open>The inherited members whose names are lower-case.\<close>

definition OBJECT_MEMBERS :: "ustring list" where
  "OBJECT_MEMBERS = map js [''constructor'', ''__proto__'']"

definition registeredToolEvent :: "policy_host \<Rightarrow> ustring option \<Rightarrow> policy_event" where
  "registeredToolEvent H tool =
     (case tool of
        None \<Rightarrow> UnknownEvent
      | Some t \<Rightarrow>
          let normalized = ph_lower H (js_trim t) in
          if take 5 normalized = js ''mcp__'' \<or> take 4 normalized = js ''mcp.'' then McpEvent
          else case map_of EXACT_TOOLS normalized of
            Some event \<Rightarrow> event
          | None \<Rightarrow> if normalized \<in> set OBJECT_MEMBERS then InheritedMember else UnknownEvent)"

section \<open>Evaluation\<close>

definition contains :: "'a list option \<Rightarrow> 'a \<Rightarrow> bool" where
  "contains values value = (case values of None \<Rightarrow> True | Some xs \<Rightarrow> value \<in> set xs)"

definition IDENTIFIER_SCHEME :: regexp where
  "IDENTIFIER_SCHEME = re ''^[a-z][a-z0-9+.-]+:'' ''i''"

definition isIdentifier :: "ustring \<Rightarrow> bool" where
  "isIdentifier value = rx_test IDENTIFIER_SCHEME value"

definition identifierWithin :: "ustring \<Rightarrow> ustring \<Rightarrow> bool" where
  "identifierWithin resource prefix =
     (let base = (if prefix \<noteq> [] \<and> last prefix = 47 then prefix else prefix @ [47])
      in resource = rev (dropWhile (\<lambda>c. c = 47) (rev prefix)) \<or> take (length base) resource = base)"

definition prefixMatches :: "policy_host \<Rightarrow> ustring list option \<Rightarrow> ustring option \<Rightarrow> bool" where
  "prefixMatches H prefixes resource =
     (case prefixes of
        None \<Rightarrow> True
      | Some ps \<Rightarrow>
          (case resource of
             None \<Rightarrow> False
           | Some r \<Rightarrow>
               if isIdentifier r then list_ex (\<lambda>p. isIdentifier p \<and> identifierWithin r p) ps
               else list_ex (\<lambda>p. \<not> isIdentifier p \<and> isWithin (normalizePath H r) (normalizePath H p)) ps))"

definition toolMatches :: "ustring list option \<Rightarrow> ustring option \<Rightarrow> bool" where
  "toolMatches tools tool =
     (case tools of None \<Rightarrow> True | Some ts \<Rightarrow> (case tool of None \<Rightarrow> False | Some t \<Rightarrow> t \<in> set ts))"

definition matches :: "policy_host \<Rightarrow> policy_match \<Rightarrow> action_request \<Rightarrow> bool" where
  "matches H m request \<longleftrightarrow>
     contains (pm_assistants m) (ar_assistant request) \<and>
     contains (pm_events m) (ar_event request) \<and>
     contains (pm_actionClasses m) (ar_actionClass request) \<and>
     prefixMatches H (pm_resourcePrefixes m) (ar_resource request) \<and>
     toolMatches (pm_tools m) (ar_tool request)"

definition isExpired :: "policy_host \<Rightarrow> developer_policy \<Rightarrow> int \<Rightarrow> bool" where
  "isExpired H policy now =
     (case (ph_date H (dp_issuedAt policy), ph_date H (dp_expiresAt policy)) of
        (Some issued, Some expires) \<Rightarrow> now < issued \<or> expires \<le> now
      | _ \<Rightarrow> True)"

definition strongest :: "policy_effect list \<Rightarrow> policy_effect" where
  "strongest effects =
     (if Deny \<in> set effects then Deny
      else if RequireApproval \<in> set effects then RequireApproval else Allow)"

definition evaluatePolicy ::
  "policy_host \<Rightarrow> developer_policy option \<Rightarrow> action_request \<Rightarrow> int \<Rightarrow> policy_decision" where
  "evaluatePolicy H policy request now =
     (if \<not> ar_capabilityVerified request \<and> ar_actionClass request \<noteq> ReadAction
      then \<lparr>pd_effect = Deny, pd_reason = js ''host_capability_unverified'', pd_policyId = None,
            pd_policyVersion = None, pd_matchedRuleIds = []\<rparr>
      else case policy of
        None \<Rightarrow>
          \<lparr>pd_effect = (if ar_actionClass request = ReadAction then Allow else Deny),
           pd_reason = js ''no_managed_policy'', pd_policyId = None, pd_policyVersion = None,
           pd_matchedRuleIds = []\<rparr>
      | Some p \<Rightarrow>
          if dp_schemaVersion p \<noteq> 1 \<or> isExpired H p now
          then \<lparr>pd_effect = Deny, pd_reason = js ''policy_invalid_or_expired'', pd_policyId = Some (dp_policyId p),
                pd_policyVersion = Some (dp_version p), pd_matchedRuleIds = []\<rparr>
          else
            let matched = filter (\<lambda>rule. matches H (pr_match rule) request) (dp_rules p);
                reason = join_with (js ''; '')
                  (map (\<lambda>rule. case pr_reason rule of Some r \<Rightarrow> r | None \<Rightarrow> pr_id rule) matched)
            in \<lparr>pd_effect = (if matched = [] then dp_unknownAction p else strongest (map pr_effect matched)),
                pd_reason = (if reason = [] then js ''policy_default'' else reason),
                pd_policyId = Some (dp_policyId p), pd_policyVersion = Some (dp_version p),
                pd_matchedRuleIds = map pr_id matched\<rparr>)"

end
