(* ===== verification/Policy_Correct.thy ===== *)
theory Policy_Correct
  imports Policy
begin

text \<open>
  What the policy engine promises: the decision of a valid policy is the strongest effect of the
  rules that match, whatever their order; an unverified action, an invalid policy and an
  expired one never allow; a path prefix covers exactly the paths whose segments it starts;
  compound commands are never analysed.
\<close>

section \<open>Commands\<close>

lemma AMBIGUOUS_ast:
  "rx_ast AMBIGUOUS =
     RAlt (RSeq (RSet False [Single 96, Single 36]) (RSeq (RSet False [Single 40]) REmpty))
      (RAlt (RSeq (RSet False [Single 124]) REmpty)
        (RAlt (RSeq (RSet False [Single 38]) (RSeq (RSet False [Single 38]) REmpty))
          (RAlt (RSeq (RSet False [Single 59]) REmpty) (RSeq (RSet False [Single 10]) REmpty))))"
  "rx_icase AMBIGUOUS = False"
  by (simp_all add: AMBIGUOUS_def regexp_eval)

text \<open>A pair of adjacent units.\<close>

definition has_pair :: "ustring \<Rightarrow> nat \<Rightarrow> nat \<Rightarrow> bool" where
  "has_pair s a b \<longleftrightarrow> list_ex (\<lambda>i. s ! i = a \<and> s ! (i + 1) = b) [0 ..< length s - 1]"

lemma AMBIGUOUS_at:
  "(\<exists>j. matches_from AMBIGUOUS s i j) \<longleftrightarrow>
     i < length s \<and> s ! i \<in> {124, 59, 10} \<or>
     i + 1 < length s \<and> (s ! i \<in> {96, 36} \<and> s ! (i + 1) = 40 \<or> s ! i = 38 \<and> s ! (i + 1) = 38)"
  by (auto simp: matches_from_def AMBIGUOUS_ast rx_match_simps set_has_def)

lemma has_pair_iff: "has_pair s a b \<longleftrightarrow> (\<exists>i. i + 1 < length s \<and> s ! i = a \<and> s ! (i + 1) = b)"
  by (auto simp: has_pair_def list_ex_iff less_diff_conv)

text \<open>A command is refused as compound exactly when it holds a pipe, a semicolon, a line feed, two
  adjacent ampersands, or a dollar sign or a backquote followed by an opening parenthesis; such a
  command is never analysed and its class is unknown.\<close>

theorem compound_command_exact:
  "commandIsAmbiguous command =
     (124 \<in> set command \<or> 59 \<in> set command \<or> 10 \<in> set command \<or>
      has_pair command 38 38 \<or> has_pair command 36 40 \<or> has_pair command 96 40) \<and>
   (if commandIsAmbiguous command
    then \<not> cd_analyzable (analyzeCommand command) \<and> cd_actionClass (analyzeCommand command) = UnknownAction
    else cd_reason (analyzeCommand command) \<noteq> Some CompoundCommand)"
proof
  define here where "here i \<longleftrightarrow> i < length command \<and> command ! i \<in> {124, 59, 10} \<or>
     i + 1 < length command \<and>
       (command ! i \<in> {96, 36} \<and> command ! (i + 1) = 40 \<or> command ! i = 38 \<and> command ! (i + 1) = 38)" for i
  have "here i \<Longrightarrow> i \<le> length command" for i by (auto simp: here_def)
  moreover have "commandIsAmbiguous command \<longleftrightarrow> (\<exists>i \<le> length command. here i)"
    unfolding commandIsAmbiguous_def matches_from_test AMBIGUOUS_at here_def by (rule refl)
  ultimately have "commandIsAmbiguous command \<longleftrightarrow> (\<exists>i. here i)" by blast
  then have "commandIsAmbiguous command \<longleftrightarrow>
      (\<exists>i. i < length command \<and> command ! i \<in> {124, 59, 10}) \<or>
      (\<exists>i. i + 1 < length command \<and>
        (command ! i \<in> {96, 36} \<and> command ! (i + 1) = 40 \<or> command ! i = 38 \<and> command ! (i + 1) = 38))"
    unfolding here_def ex_disj_distrib .
  moreover have "(\<exists>i. i < length command \<and> command ! i \<in> {124, 59, 10}) \<longleftrightarrow>
      124 \<in> set command \<or> 59 \<in> set command \<or> 10 \<in> set command"
    unfolding in_set_conv_nth insert_iff empty_iff by blast
  moreover have "(\<exists>i. i + 1 < length command \<and>
        (command ! i \<in> {96, 36} \<and> command ! (i + 1) = 40 \<or> command ! i = 38 \<and> command ! (i + 1) = 38)) \<longleftrightarrow>
      has_pair command 38 38 \<or> has_pair command 36 40 \<or> has_pair command 96 40"
    unfolding has_pair_iff insert_iff empty_iff by blast
  ultimately show "commandIsAmbiguous command =
     (124 \<in> set command \<or> 59 \<in> set command \<or> 10 \<in> set command \<or>
      has_pair command 38 38 \<or> has_pair command 36 40 \<or> has_pair command 96 40)"
    by argo
qed (simp add: analyzeCommand_def)

text \<open>A command substitution in backquotes is not compound for the code: the class of the expression
  wants a parenthesis after the backquote too.\<close>

lemma backquotes_not_compound: "\<not> commandIsAmbiguous (js ''echo `id`'')"
  unfolding commandIsAmbiguous_def matches_from_test AMBIGUOUS_at
  by (auto simp: js_def of_char_def nth_Cons' split: if_splits)

section \<open>Paths\<close>

definition clean_segment :: "ustring \<Rightarrow> bool" where
  "clean_segment p \<longleftrightarrow> p \<noteq> [] \<and> p \<noteq> [46] \<and> p \<noteq> [46, 46]"

lemma resolve_segments_clean:
  "list_all clean_segment acc \<Longrightarrow> list_all clean_segment (resolve_segments acc ps)"
proof (induction acc ps rule: resolve_segments.induct)
  case (2 acc p ps)
  then show ?case by (cases acc) (auto simp: clean_segment_def)
qed (simp add: list_all_iff)

lemma resolve_segments_subset: "set (resolve_segments acc ps) \<subseteq> set acc \<union> set ps"
proof (induction acc ps rule: resolve_segments.induct)
  case (2 acc p ps)
  then show ?case by (cases acc) (auto split: if_splits)
qed simp

lemma resolve_segments_idem: "list_all clean_segment ps \<Longrightarrow> resolve_segments acc ps = rev acc @ ps"
  by (induction ps arbitrary: acc) (auto simp: clean_segment_def)

lemma posix_segments_clean:
  "list_all clean_segment (posix_segments cwd raw)" "p \<in> set (posix_segments cwd raw) \<Longrightarrow> 47 \<notin> set p"
  using resolve_segments_clean [of "[]"] resolve_segments_subset [of "[]"]
  by (fastforce simp: posix_segments_def dest: split_on_no_sep)+

lemma split_on_free: "sep \<notin> set p \<Longrightarrow> split_on sep p = [p]"
  by (induction p) auto

lemma split_on_append: "split_on sep (a @ sep # b) = split_on sep a @ split_on sep b"
  by (induction a) (auto split: list.splits)

lemma split_on_join:
  "ps \<noteq> [] \<Longrightarrow> (\<And>p. p \<in> set ps \<Longrightarrow> sep \<notin> set p) \<Longrightarrow> split_on sep (join_with [sep] ps) = ps"
  by (induction "[sep]" ps rule: join_with.induct) (auto simp: split_on_free split_on_append)

lemma join_with_append:
  "ps \<noteq> [] \<Longrightarrow> qs \<noteq> [] \<Longrightarrow> join_with sep (ps @ qs) = join_with sep ps @ sep @ join_with sep qs"
  by (induction sep ps rule: join_with.induct) (auto simp: neq_Nil_conv)

lemma join_with_not_Nil: "ps \<noteq> [] \<Longrightarrow> last ps \<noteq> [] \<Longrightarrow> join_with sep ps \<noteq> []"
proof (induction sep ps rule: join_with.induct)
  case (3 sep p q ps)
  then show ?case by simp
qed simp_all

lemma last_join_with: "ps \<noteq> [] \<Longrightarrow> last ps \<noteq> [] \<Longrightarrow> last (join_with sep ps) = last (last ps)"
proof (induction sep ps rule: join_with.induct)
  case (3 sep p q ps)
  then have "join_with sep (q # ps) \<noteq> []" using join_with_not_Nil [of "q # ps" sep] by simp
  with 3 show ?case by simp
qed simp_all

text \<open>On joined segments, "equal or below" is "starts with the segments".\<close>

lemma join_within:
  assumes "ps \<noteq> []" and "\<And>p. p \<in> set ps \<union> set qs \<Longrightarrow> sep \<notin> set p \<and> p \<noteq> []"
  shows "(join_with [sep] qs = join_with [sep] ps \<or>
      take (length (join_with [sep] ps @ [sep])) (join_with [sep] qs) = join_with [sep] ps @ [sep]) \<longleftrightarrow>
    take (length ps) qs = ps" (is "?within \<longleftrightarrow> ?prefix")
proof
  assume within: ?within
  show ?prefix
  proof (cases "qs = []")
    case True
    have "join_with [sep] ps \<noteq> []" using assms by (intro join_with_not_Nil) auto
    with within True show ?thesis by auto
  next
    case False
    have sp: "split_on sep (join_with [sep] ps) = ps" "split_on sep (join_with [sep] qs) = qs"
      using assms False by (auto intro!: split_on_join)
    from within show ?thesis
    proof
      assume "join_with [sep] qs = join_with [sep] ps"
      with sp have "qs = ps" by metis
      then show ?thesis by simp
    next
      assume "take (length (join_with [sep] ps @ [sep])) (join_with [sep] qs) = join_with [sep] ps @ [sep]"
      then obtain rest where "join_with [sep] qs = (join_with [sep] ps @ [sep]) @ rest"
        by (metis append_take_drop_id)
      then have "qs = ps @ split_on sep rest"
        using sp split_on_append [of sep "join_with [sep] ps" rest] by simp
      then show ?thesis by simp
    qed
  qed
next
  assume prefix: ?prefix
  then obtain rest where q: "qs = ps @ rest" by (metis append_take_drop_id)
  show ?within
  proof (cases "rest = []")
    case False
    with assms(1) show ?thesis by (simp add: q join_with_append)
  qed (simp add: q)
qed

lemma posix_within:
  assumes "flavor_of raw = Posix" "flavor_of prefix = Posix"
  shows "isWithin (normalizePath H raw) (normalizePath H prefix) \<longleftrightarrow>
    take (length (posix_segments (ph_cwd H) prefix)) (posix_segments (ph_cwd H) raw) = posix_segments (ph_cwd H) prefix"
proof -
  let ?ps = "posix_segments (ph_cwd H) prefix" and ?qs = "posix_segments (ph_cwd H) raw"
  have clean: "p \<in> set ?ps \<union> set ?qs \<Longrightarrow> 47 \<notin> set p \<and> p \<noteq> []" for p
    using posix_segments_clean by (auto simp: list_all_iff clean_segment_def)
  show ?thesis
  proof (cases "?ps = []")
    case True
    then show ?thesis by (simp add: isWithin_def normalizePath_def resolve_path_def assms posix_path_def)
  next
    case False
    then have l: "last ?ps \<in> set ?ps" by simp
    with clean have "last ?ps \<noteq> []" "47 \<notin> set (last ?ps)" by blast+
    then have "last (47 # join_with [47] ?ps) \<noteq> 47"
      using last_join_with [OF False, of "[47]"] join_with_not_Nil [OF False, of "[47]"]
      by (auto dest: last_in_set)
    then show ?thesis
      using join_within [of ?ps ?qs 47, OF False clean]
      by (simp add: isWithin_def normalizePath_def resolve_path_def assms posix_path_def Let_def)
  qed
qed

lemma posix_normal_segments:
  "flavor_of raw = Posix \<Longrightarrow> np_value (normalizePath H raw) = posix_path (posix_segments (ph_cwd H) raw)"
  by (simp add: normalizePath_def resolve_path_def)

text \<open>C38: on POSIX paths a root covers exactly the paths whose resolved segments start with its own: no
  sibling with a longer name, and no path that leaves the root through \<open>..\<close>, is ever within it; a
  normalized path holds no empty, \<open>.\<close> or \<open>..\<close> segment.\<close>

theorem path_within_is_segment_prefix:
  assumes "flavor_of raw = Posix" "flavor_of top_path = Posix"
  shows "isWithin (normalizePath H raw) (normalizePath H top_path) =
      (take (length (posix_segments (ph_cwd H) top_path)) (posix_segments (ph_cwd H) raw) =
        posix_segments (ph_cwd H) top_path) \<and>
    list_all clean_segment (posix_segments (ph_cwd H) raw)"
  using posix_within [OF assms] posix_segments_clean(1) by blast+

text \<open>The paths that take the Windows rules.\<close>

lemma DRIVE_iff:
  "rx_test DRIVE s \<longleftrightarrow> 2 < length s \<and> (65 \<le> s ! 0 \<and> s ! 0 \<le> 90 \<or> 97 \<le> s ! 0 \<and> s ! 0 \<le> 122) \<and> s ! 1 = 58 \<and>
     (s ! 2 = 92 \<or> s ! 2 = 47)"
proof -
  have ast: "rx_ast DRIVE = RSeq RStart (RSeq (RSet False [Range 97 122]) (RSeq (RSet False [Single 58])
      (RSeq (RSet False [Single 92, Single 47]) REmpty)))" "rx_icase DRIVE = True" "rx_multiline DRIVE = False"
    by (simp_all add: DRIVE_def regexp_eval)
  have letter: "set_has True False [Range 97 122] c \<longleftrightarrow> 65 \<le> c \<and> c \<le> 90 \<or> 97 \<le> c \<and> c \<le> 122" for c
    by (auto simp: set_has_def other_case_def)
  have colon: "set_has True False [Single 58] c \<longleftrightarrow> c = 58" for c
    by (auto simp: set_has_def other_case_def split: if_splits)
  have separator: "set_has True False [Single 92, Single 47] c \<longleftrightarrow> c = 92 \<or> c = 47" for c
    by (auto simp: set_has_def other_case_def split: if_splits)
  have "(\<exists>j. matches_from DRIVE s i j) \<longleftrightarrow> i = 0 \<and> 2 < length s \<and>
      (65 \<le> s ! 0 \<and> s ! 0 \<le> 90 \<or> 97 \<le> s ! 0 \<and> s ! 0 \<le> 122) \<and> s ! 1 = 58 \<and> (s ! 2 = 92 \<or> s ! 2 = 47)" for i
    by (auto simp: matches_from_def ast rx_match_simps letter separator colon at_start_def numeral_2_eq_2)
  then show ?thesis unfolding matches_from_test by auto
qed

definition sample_host :: policy_host where
  "sample_host = \<lparr>ph_cwd = js ''/w'', ph_lower = lower_ascii, ph_date = (\<lambda>s. Some (int (length s)))\<rparr>"

theorem path_within_is_segment_prefix_witness:
  "\<not> isWithin (normalizePath sample_host (js ''/r/../etc'')) (normalizePath sample_host (js ''/r''))"
proof -
  have "flavor_of (js ''/r/../etc'') = Posix" "flavor_of (js ''/r'') = Posix"
    by (simp_all add: flavor_of_def DRIVE_iff js_def of_char_def)
  from path_within_is_segment_prefix [OF this, of sample_host] show ?thesis
    by (simp add: posix_segments_def js_def of_char_def)
qed

section \<open>Evaluation\<close>

lemma Deny_top: "Deny \<le> e \<Longrightarrow> e = Deny"
  by (induct e) (auto simp: less_eq_policy_effect_def)

lemma strongest_Max: "effects \<noteq> [] \<Longrightarrow> strongest effects = Max (set effects)"
proof -
  assume ne: "effects \<noteq> []"
  have le: "e \<le> strongest effects" if "e \<in> set effects" for e
    by (use that in \<open>induct e\<close>) (auto simp: strongest_def less_eq_policy_effect_def)
  have "e = Allow" if "Deny \<notin> set effects" "RequireApproval \<notin> set effects" "e \<in> set effects" for e
    by (use that in \<open>induct e\<close>) auto
  then have "strongest effects \<in> set effects"
    using ne by (cases effects) (auto simp: strongest_def)
  with le show ?thesis by (intro Max_eqI [symmetric]) auto
qed

text \<open>The effects of the rules that match.\<close>

definition matching_effects :: "policy_host \<Rightarrow> policy_rule list \<Rightarrow> action_request \<Rightarrow> policy_effect set" where
  "matching_effects H rules request = pr_effect ` {rule \<in> set rules. matches H (pr_match rule) request}"

definition policy_valid :: "policy_host \<Rightarrow> developer_policy \<Rightarrow> int \<Rightarrow> bool" where
  "policy_valid H p now \<longleftrightarrow> dp_schemaVersion p = 1 \<and> \<not> isExpired H p now"

lemma matching_effects_set:
  "matching_effects H rules request =
     set (map pr_effect (filter (\<lambda>rule. matches H (pr_match rule) request) rules))"
  by (auto simp: matching_effects_def)

lemma matching_effects_empty:
  "matching_effects H rules request = {} \<longleftrightarrow> filter (\<lambda>rule. matches H (pr_match rule) request) rules = []"
  by (auto simp: matching_effects_set filter_empty_conv)

text \<open>The decision is a function of the set of rules: the strongest effect among those that match, in
  the order allow, approval, deny, or the default where none does. Neither the order of the rules
  nor repetition changes it; an action whose host capability is unverified is denied unless it is
  a read, and so is everything but a read without a policy, and everything under an invalid one.\<close>

theorem evaluatePolicy_effect:
  "pd_effect (evaluatePolicy H policy request now) =
     (if \<not> ar_capabilityVerified request \<and> ar_actionClass request \<noteq> ReadAction then Deny
      else case policy of
        None \<Rightarrow> if ar_actionClass request = ReadAction then Allow else Deny
      | Some p \<Rightarrow>
          if \<not> policy_valid H p now then Deny
          else if matching_effects H (dp_rules p) request = {} then dp_unknownAction p
          else Max (matching_effects H (dp_rules p) request))"
  unfolding matching_effects_empty
  by (auto simp: evaluatePolicy_def policy_valid_def Let_def strongest_Max matching_effects_set split: option.split)

lemma evaluatePolicy_effect_valid:
  "policy_valid H p now \<Longrightarrow> ar_capabilityVerified request \<or> ar_actionClass request = ReadAction \<Longrightarrow>
   pd_effect (evaluatePolicy H (Some p) request now) =
     (if matching_effects H (dp_rules p) request = {} then dp_unknownAction p
      else Max (matching_effects H (dp_rules p) request))"
  unfolding matching_effects_empty
  by (auto simp: evaluatePolicy_def policy_valid_def Let_def strongest_Max matching_effects_set)

text \<open>C37: a deny rule cannot be undone: when a matching rule of a valid policy denies, so does the
  decision, and adding rules to a policy of which some rule matches never lowers its effect.\<close>

theorem rules_only_restrict:
  assumes "policy_valid H p now" "policy_valid H q now"
    and "set (dp_rules p) \<subseteq> set (dp_rules q)"
    and "matching_effects H (dp_rules p) request \<noteq> {}"
  shows "pd_effect (evaluatePolicy H (Some p) request now) \<le> pd_effect (evaluatePolicy H (Some q) request now) \<and>
    (Deny \<in> matching_effects H (dp_rules p) request \<longrightarrow>
      pd_effect (evaluatePolicy H (Some q) request now) = Deny)"
proof (intro conjI impI)
  have sub: "matching_effects H (dp_rules p) request \<subseteq> matching_effects H (dp_rules q) request"
    using assms(3) by (auto simp: matching_effects_def)
  have fin: "finite (matching_effects H (dp_rules q) request)" by (simp add: matching_effects_def)
  show le: "pd_effect (evaluatePolicy H (Some p) request now) \<le> pd_effect (evaluatePolicy H (Some q) request now)"
  proof (cases "ar_capabilityVerified request \<or> ar_actionClass request = ReadAction")
    case True
    have "Max (matching_effects H (dp_rules p) request) \<le> Max (matching_effects H (dp_rules q) request)"
      by (rule Max_mono [OF sub assms(4) fin])
    moreover have "matching_effects H (dp_rules q) request \<noteq> {}" using sub assms(4) by blast
    ultimately show ?thesis
      using evaluatePolicy_effect_valid [OF assms(1) True] evaluatePolicy_effect_valid [OF assms(2) True] assms(4)
      by simp
  next
    case False
    then show ?thesis by (simp add: evaluatePolicy_def)
  qed
  assume deny: "Deny \<in> matching_effects H (dp_rules p) request"
  show "pd_effect (evaluatePolicy H (Some q) request now) = Deny"
  proof (cases "ar_capabilityVerified request \<or> ar_actionClass request = ReadAction")
    case True
    from deny sub fin have "Deny \<le> Max (matching_effects H (dp_rules q) request)" by (auto intro: Max_ge)
    then have "Max (matching_effects H (dp_rules q) request) = Deny" by (rule Deny_top)
    with deny sub show ?thesis
      using evaluatePolicy_effect_valid [OF assms(2) True] by auto
  next
    case False
    then show ?thesis by (simp add: evaluatePolicy_def)
  qed
qed

definition sample_rule :: "string \<Rightarrow> policy_effect \<Rightarrow> policy_rule" where
  "sample_rule key effect =
     \<lparr>pr_id = js key, pr_effect = effect, pr_reason = None,
      pr_match = \<lparr>pm_assistants = None, pm_events = None, pm_actionClasses = None, pm_resourcePrefixes = None,
                  pm_tools = None\<rparr>\<rparr>"

definition sample_policy :: "policy_rule list \<Rightarrow> developer_policy" where
  "sample_policy rules =
     \<lparr>dp_schemaVersion = 1, dp_policyId = js ''p'', dp_version = 1, dp_issuedAt = [], dp_expiresAt = js ''xxxx'',
      dp_unknownAction = Allow, dp_rules = rules\<rparr>"

definition sample_request :: action_request where
  "sample_request =
     \<lparr>ar_assistant = Claude, ar_event = ReadEvent, ar_actionClass = ReadAction, ar_resource = None, ar_tool = None,
      ar_capabilityVerified = True\<rparr>"

theorem rules_only_restrict_witness:
  "pd_effect (evaluatePolicy sample_host
     (Some (sample_policy [sample_rule ''b'' Allow, sample_rule ''a'' Deny])) sample_request 2) = Deny"
proof -
  let ?p = "sample_policy [sample_rule ''a'' Deny]" and ?q = "sample_policy [sample_rule ''b'' Allow, sample_rule ''a'' Deny]"
  have v: "policy_valid sample_host ?p 2" "policy_valid sample_host ?q 2"
    by (simp_all add: policy_valid_def isExpired_def sample_host_def sample_policy_def js_def)
  have m: "matching_effects sample_host (dp_rules ?p) sample_request = {Deny}"
    by (auto simp: matching_effects_def sample_policy_def sample_rule_def matches_def contains_def prefixMatches_def
        toolMatches_def)
  have "set (dp_rules ?p) \<subseteq> set (dp_rules ?q)" by (simp add: sample_policy_def)
  from rules_only_restrict [OF v this, of sample_request] m show ?thesis by simp
qed

end
