(* ===== verification/Hook_Policy.thy ===== *)
theory Hook_Policy
  imports Policy_Correct
begin

text \<open>
  From a host's hook to a decision: the adapters of Claude, Codex and Copilot
  (\<open>adapters/src\<close>), the evaluation of a hook input, its audit event, the posture and session
  checks, the quality gate and the controlled read of a file (\<open>runner/src\<close>). A hook input is a
  JSON value; the file system is a parameter with one view per system call, because other
  processes run between them.
\<close>

section \<open>Adapters\<close>

fun nonempty_string :: "json option \<Rightarrow> ustring option" where
  "nonempty_string (Some (JStr s)) = (if s = [] then None else Some s)"
| "nonempty_string _ = None"

fun stringField :: "json option list \<Rightarrow> ustring option" where
  "stringField [] = None"
| "stringField (v # vs) = (case nonempty_string v of Some s \<Rightarrow> Some s | None \<Rightarrow> stringField vs)"

definition eventFor :: "policy_host \<Rightarrow> json \<Rightarrow> policy_event" where
  "eventFor H input =
     (let event = stringField [field input ''hook_event_name'', field input ''hookEventName''] in
      if event = Some (js ''UserPromptSubmit'') then PromptEvent
      else if event \<noteq> Some (js ''PreToolUse'') then UnknownEvent
      else registeredToolEvent H (stringField [field input ''tool_name'', field input ''toolName'']))"

record adapted_hook =
  ah_request :: action_request
  ah_prompt :: "ustring option"
  ah_path :: "ustring option"

text \<open>\<open>a ?? b\<close> on JSON values.\<close>

definition nullish_or :: "json option \<Rightarrow> json option \<Rightarrow> json option" where
  "nullish_or a b = (case a of None \<Rightarrow> b | Some JNull \<Rightarrow> b | Some v \<Rightarrow> Some v)"

definition tool_input_field :: "json \<Rightarrow> string \<Rightarrow> json option" where
  "tool_input_field input key =
     (case nullish_or (field input ''tool_input'') (field input ''toolInput'') of
        None \<Rightarrow> None | Some v \<Rightarrow> field v key)"

fun class_of_event :: "policy_event \<Rightarrow> ustring option \<Rightarrow> action_class" where
  "class_of_event CommandEvent command =
     cd_actionClass (analyzeCommand (case command of Some c \<Rightarrow> c | None \<Rightarrow> []))"
| "class_of_event ReadEvent command = ReadAction"
| "class_of_event WriteEvent command = WriteAction"
| "class_of_event DeleteEvent command = DeleteAction"
| "class_of_event McpEvent command = McpAction"
| "class_of_event _ command = UnknownAction"

definition adapt :: "policy_host \<Rightarrow> assistant \<Rightarrow> json \<Rightarrow> policy_event list \<Rightarrow> adapted_hook option" where
  "adapt H assistant input verifiedEvents =
     (let event = eventFor H input in
      if event = UnknownEvent then None
      else
        let path = (case tool_input_field input ''file_path'' of Some (JStr s) \<Rightarrow> Some s | _ \<Rightarrow> None);
            command = stringField [field input ''command'', tool_input_field input ''command'', tool_input_field input ''cmd'']
        in Some \<lparr>ah_request = \<lparr>ar_assistant = assistant, ar_event = event,
                    ar_actionClass = class_of_event event command, ar_resource = path,
                    ar_tool = stringField [field input ''tool_name'', field input ''toolName''],
                    ar_capabilityVerified = (event \<in> set verifiedEvents)\<rparr>,
                  ah_prompt = stringField [field input ''prompt''], ah_path = path\<rparr>)"

definition denialMessage :: "ustring \<Rightarrow> ustring" where
  "denialMessage reason =
     js ''xSOM Secret Guard refused this action ('' @ reason @ js ''). No action was performed.''"

text \<open>What an adapter may do: its assistant, the events it was verified for, and whether it is.\<close>

datatype host_protocol = ClaudeProtocol | CodexProtocol | CopilotProtocol

record adapter_capability =
  ac_assistant :: assistant
  ac_events :: "policy_event list"
  ac_protocol :: host_protocol
  ac_verified :: bool

record host_response =
  hr_continue :: bool
  hr_output :: json
  hr_stderr :: "ustring option"

record host_adapter =
  ha_capability :: adapter_capability
  ha_respond :: "policy_decision \<Rightarrow> host_response"

definition adapter_adapt :: "policy_host \<Rightarrow> host_adapter \<Rightarrow> json \<Rightarrow> adapted_hook option" where
  "adapter_adapt H adapter input =
     adapt H (ac_assistant (ha_capability adapter)) input
       (if ac_verified (ha_capability adapter) then ac_events (ha_capability adapter) else [])"

text \<open>Claude and Copilot stop the turn; Codex answers with a permission decision.\<close>

definition stop_response :: "policy_decision \<Rightarrow> host_response" where
  "stop_response decision =
     (if pd_effect decision = Allow
      then \<lparr>hr_continue = True, hr_output = JObj [(js ''continue'', JBool True)], hr_stderr = None\<rparr>
      else let message = denialMessage (pd_reason decision) in
        \<lparr>hr_continue = False, hr_output = JObj [(js ''continue'', JBool False), (js ''stopReason'', JStr message)],
         hr_stderr = Some message\<rparr>)"

definition permission_response :: "policy_decision \<Rightarrow> host_response" where
  "permission_response decision =
     (if pd_effect decision = Allow
      then \<lparr>hr_continue = True, hr_output = JObj [(js ''permissionDecision'', JStr (js ''allow''))], hr_stderr = None\<rparr>
      else let message = denialMessage (pd_reason decision) in
        \<lparr>hr_continue = False,
         hr_output = JObj [(js ''permissionDecision'', JStr (js ''deny'')),
                           (js ''permissionDecisionReason'', JStr message)],
         hr_stderr = Some message\<rparr>)"

definition claudeAdapter :: host_adapter where
  "claudeAdapter =
     \<lparr>ha_capability = \<lparr>ac_assistant = Claude, ac_events = [PromptEvent, ReadEvent], ac_protocol = ClaudeProtocol,
        ac_verified = True\<rparr>, ha_respond = stop_response\<rparr>"

definition codexAdapter :: host_adapter where
  "codexAdapter =
     \<lparr>ha_capability = \<lparr>ac_assistant = Codex, ac_events = [PromptEvent], ac_protocol = CodexProtocol,
        ac_verified = True\<rparr>, ha_respond = permission_response\<rparr>"

definition copilotAdapter :: host_adapter where
  "copilotAdapter =
     \<lparr>ha_capability = \<lparr>ac_assistant = Copilot, ac_events = [PromptEvent], ac_protocol = CopilotProtocol,
        ac_verified = False\<rparr>, ha_respond = stop_response\<rparr>"

section \<open>The decision of a hook\<close>

text \<open>\<open>None\<close> where the input is ignored.\<close>

fun resource_reason_text :: "resource_reason \<Rightarrow> ustring" where
  "resource_reason_text SensitiveResource = js ''sensitive_resource''"
| "resource_reason_text OutsideAllowedRoots = js ''outside_allowed_roots''"

definition resource_denial :: "resource_decision \<Rightarrow> policy_decision" where
  "resource_denial resource =
     \<lparr>pd_effect = Deny,
      pd_reason = (case rd_reason resource of Some r \<Rightarrow> resource_reason_text r | None \<Rightarrow> js ''resource_denied''),
      pd_policyId = None, pd_policyVersion = None, pd_matchedRuleIds = []\<rparr>"

definition evaluateHookInput ::
  "policy_host \<Rightarrow> host_adapter \<Rightarrow> json \<Rightarrow> developer_policy option \<Rightarrow> ustring list \<Rightarrow> int \<Rightarrow> policy_decision option" where
  "evaluateHookInput H adapter input policy roots now =
     (case adapter_adapt H adapter input of
        None \<Rightarrow> None
      | Some adapted \<Rightarrow>
          if ar_event (ah_request adapted) = PromptEvent \<and> policy = None then None
          else case ah_path adapted of
            None \<Rightarrow> Some (evaluatePolicy H policy (ah_request adapted) now)
          | Some path \<Rightarrow>
              let resource = evaluateResource H path roots in
              if \<not> rd_allowed resource then Some (resource_denial resource)
              else Some (evaluatePolicy H policy (ah_request adapted) now))"

datatype event_outcome = OutAllowed | OutDenied | OutApprovalRequired

record safe_event =
  se_assistant :: assistant
  se_outcome :: event_outcome
  se_policyId :: "ustring option"
  se_policyVersion :: "int option"
  se_ruleIds :: "ustring list"

definition eventForDecision :: "assistant \<Rightarrow> policy_decision \<Rightarrow> safe_event" where
  "eventForDecision assistant decision =
     \<lparr>se_assistant = assistant,
      se_outcome = (if pd_effect decision = Allow then OutAllowed
                    else if pd_effect decision = Deny then OutDenied else OutApprovalRequired),
      se_policyId = pd_policyId decision, se_policyVersion = pd_policyVersion decision,
      se_ruleIds = pd_matchedRuleIds decision\<rparr>"

section \<open>Posture, sessions and the quality gate\<close>

record posture_input =
  pi_policyPresent :: bool
  pi_policyExpiresAt :: "ustring option"
  pi_hookInstalled :: bool
  pi_lastHookInvocationAt :: "ustring option"
  pi_queuePending :: int
  pi_queueDropped :: int
  pi_now :: int
  pi_maximumSilenceMs :: "int option"

datatype posture_reason =
  PolicyMissing | PolicyExpiredOrUnknown | HookMissing | HookEvidenceStale | AuditEventsDropped | AuditQueueSaturated

datatype posture_state = Healthy | Degraded | Failed

text \<open>A date that parses to 0 is falsy, like one that does not parse.\<close>

definition posture_reasons :: "policy_host \<Rightarrow> posture_input \<Rightarrow> posture_reason list" where
  "posture_reasons H input =
     (let silence = (case pi_maximumSilenceMs input of Some ms \<Rightarrow> ms | None \<Rightarrow> 15 * 60 * 1000);
          expires = (case pi_policyExpiresAt input of None \<Rightarrow> None | Some s \<Rightarrow> ph_date H s);
          recent = (case pi_lastHookInvocationAt input of
                      None \<Rightarrow> None | Some s \<Rightarrow> if s = [] then None else ph_date H s)
      in (if pi_policyPresent input then [] else [PolicyMissing]) @
         (case expires of
            None \<Rightarrow> [PolicyExpiredOrUnknown]
          | Some e \<Rightarrow> if e \<le> pi_now input then [PolicyExpiredOrUnknown] else []) @
         (if pi_hookInstalled input then [] else [HookMissing]) @
         (case recent of
            None \<Rightarrow> [HookEvidenceStale]
          | Some t \<Rightarrow> if t = 0 \<or> silence < pi_now input - t then [HookEvidenceStale] else []) @
         (if 0 < pi_queueDropped input then [AuditEventsDropped] else []) @
         (if 1000 \<le> pi_queuePending input then [AuditQueueSaturated] else []))"

definition evaluatePosture :: "policy_host \<Rightarrow> posture_input \<Rightarrow> posture_state \<times> posture_reason list" where
  "evaluatePosture H input =
     (let reasons = posture_reasons H input in
      (if reasons = [] then Healthy else if pi_hookInstalled input then Degraded else Failed, reasons))"

record session_budget =
  sb_maximumActions :: int
  sb_maximumDurationMs :: int

record session_state =
  st_startedAt :: int
  st_actions :: int

definition sessionAllows :: "session_state \<Rightarrow> session_budget \<Rightarrow> int \<Rightarrow> bool" where
  "sessionAllows st budget now \<longleftrightarrow>
     st_actions st < sb_maximumActions budget \<and> now - st_startedAt st \<le> sb_maximumDurationMs budget"

fun is_object_value :: "json \<Rightarrow> bool" where
  "is_object_value (JObj _) = True"
| "is_object_value (JArr _) = True"
| "is_object_value _ = False"

fun is_string_value :: "json option \<Rightarrow> bool" where
  "is_string_value (Some (JStr _)) = True"
| "is_string_value _ = False"

fun array_of :: "json option \<Rightarrow> json list option" where
  "array_of (Some (JArr xs)) = Some xs"
| "array_of _ = None"

definition sub_field :: "json option \<Rightarrow> string \<Rightarrow> json option" where
  "sub_field v key = (case v of None \<Rightarrow> None | Some x \<Rightarrow> field x key)"

definition valid_run :: "json \<Rightarrow> bool" where
  "valid_run run \<longleftrightarrow>
     isObject run \<and>
     (let driver = sub_field (field run ''tool'') ''driver'' in
      is_string_value (sub_field driver ''name'') \<and> is_string_value (sub_field driver ''version'')) \<and>
     (case array_of (field run ''results'') of None \<Rightarrow> False | Some rs \<Rightarrow> list_all is_object_value rs)"

definition validSarif :: "json option \<Rightarrow> bool" where
  "validSarif value =
     (case value of
        None \<Rightarrow> False
      | Some sarif \<Rightarrow>
          isObject sarif \<and> field sarif ''version'' = Some (JStr (js ''2.1.0'')) \<and>
          (case array_of (field sarif ''runs'') of None \<Rightarrow> False | Some runs \<Rightarrow> list_all valid_run runs))"

definition run_has_error :: "json \<Rightarrow> bool" where
  "run_has_error run =
     (case array_of (field run ''results'') of
        None \<Rightarrow> False | Some rs \<Rightarrow> list_ex (\<lambda>r. field r ''level'' = Some (JStr (js ''error''))) rs)"

text \<open>The receipt itself where it is valid.\<close>

definition validateQualityReceipt :: "json \<Rightarrow> ustring \<Rightarrow> json option" where
  "validateQualityReceipt value expectedCommit =
     (if \<not> isObject value \<or> nonempty_string (field value ''analyzer'') = None \<or>
         nonempty_string (field value ''analyzerVersion'') = None \<or>
         field value ''commitSha'' \<noteq> Some (JStr expectedCommit) \<or>
         (field value ''verdict'' \<noteq> Some (JStr (js ''pass'')) \<and> field value ''verdict'' \<noteq> Some (JStr (js ''fail''))) \<or>
         \<not> validSarif (field value ''sarif'')
      then None
      else
        let errors = (case array_of (sub_field (field value ''sarif'') ''runs'') of
                        None \<Rightarrow> False | Some runs \<Rightarrow> list_ex run_has_error runs)
        in if field value ''verdict'' = Some (JStr (js ''pass'')) \<and> errors then None else Some value)"

definition qualityGateAllows :: "json option \<Rightarrow> bool" where
  "qualityGateAllows receipt = (sub_field receipt ''verdict'' = Some (JStr (js ''pass'')))"

section \<open>Reading a file\<close>

datatype file_kind = SymbolicLink | RegularFile | OtherFile

record file_stat =
  fs_kind :: file_kind
  fs_device :: nat
  fs_inode :: nat
  fs_size :: nat

text \<open>An opened file: its \<open>stat\<close>, its bytes when the sample is read and when the content is.\<close>

record opened_file =
  of_stat :: file_stat
  of_sample :: "nat list option"
  of_content :: "nat list option"

text \<open>The file system as each call sees it; a call that throws is \<open>None\<close>. \<open>rw_open\<close> does not follow a
  link at the path itself.\<close>

record read_world =
  rw_lstat :: "ustring \<Rightarrow> file_stat option"
  rw_realpath :: "ustring \<Rightarrow> ustring option"
  rw_rootpath :: "ustring \<Rightarrow> ustring option"
  rw_open :: "ustring \<Rightarrow> opened_file option"

datatype read_refusal =
  RefusedResource resource_reason | SymbolicLinkRefused | NotRegularFile | ResourceChanged
| RefusedData data_reason | ResourceUnavailable

datatype read_result = ReadRefused read_refusal | ReadAllowed "nat list" ustring

definition refuse_resource :: "resource_decision \<Rightarrow> read_result" where
  "refuse_resource d = ReadRefused (case rd_reason d of Some r \<Rightarrow> RefusedResource r | None \<Rightarrow> ResourceUnavailable)"

definition read_opened :: "file_stat \<Rightarrow> opened_file \<Rightarrow> data_policy \<Rightarrow> ustring \<Rightarrow> read_result" where
  "read_opened before handle policy canonical =
     (let current = of_stat handle in
      if fs_device current \<noteq> fs_device before \<or> fs_inode current \<noteq> fs_inode before
      then ReadRefused ResourceChanged
      else case of_sample handle of
        None \<Rightarrow> ReadRefused ResourceUnavailable
      | Some bytes \<Rightarrow>
          let n = min (fs_size current) 8192;
              sample = take n bytes @ replicate (n - length bytes) 0
          in case evaluateData (int (fs_size current)) sample policy of
               Some r \<Rightarrow> ReadRefused (RefusedData r)
             | None \<Rightarrow> (case of_content handle of None \<Rightarrow> ReadRefused ResourceUnavailable
                        | Some content \<Rightarrow> ReadAllowed content canonical))"

definition readControlledResource ::
  "policy_host \<Rightarrow> read_world \<Rightarrow> ustring \<Rightarrow> ustring list \<Rightarrow> data_policy option \<Rightarrow> read_result" where
  "readControlledResource H W requestedPath roots dataPolicy =
     (let lexical = evaluateResource H requestedPath roots in
      if \<not> rd_allowed lexical then refuse_resource lexical
      else case rw_lstat W (rd_normalized lexical) of
        None \<Rightarrow> ReadRefused ResourceUnavailable
      | Some before \<Rightarrow>
          if fs_kind before = SymbolicLink then ReadRefused SymbolicLinkRefused
          else if fs_kind before \<noteq> RegularFile then ReadRefused NotRegularFile
          else case rw_realpath W (rd_normalized lexical) of
            None \<Rightarrow> ReadRefused ResourceUnavailable
          | Some canonical \<Rightarrow>
              let canonicalRoots = map (\<lambda>root. case rw_rootpath W root of Some r \<Rightarrow> r | None \<Rightarrow> root) roots;
                  resolved = evaluateResource H canonical canonicalRoots
              in if \<not> rd_allowed resolved then refuse_resource resolved
                 else case rw_open W canonical of
                   None \<Rightarrow> ReadRefused ResourceUnavailable
                 | Some handle \<Rightarrow>
                     read_opened before handle
                       (case dataPolicy of Some p \<Rightarrow> p | None \<Rightarrow> DEFAULT_DATA_POLICY) canonical)"

section \<open>What is let through\<close>

lemma evaluatePolicy_Allow:
  assumes "pd_effect (evaluatePolicy H policy request now) = Allow"
  shows "ar_capabilityVerified request \<or> ar_actionClass request = ReadAction"
    and "case policy of
       None \<Rightarrow> ar_actionClass request = ReadAction
     | Some p \<Rightarrow> policy_valid H p now \<and>
         (if matching_effects H (dp_rules p) request = {} then dp_unknownAction p = Allow
          else matching_effects H (dp_rules p) request = {Allow})"
proof -
  show cap: "ar_capabilityVerified request \<or> ar_actionClass request = ReadAction"
    using assms by (auto simp: evaluatePolicy_def split: if_splits)
  show "case policy of
       None \<Rightarrow> ar_actionClass request = ReadAction
     | Some p \<Rightarrow> policy_valid H p now \<and>
         (if matching_effects H (dp_rules p) request = {} then dp_unknownAction p = Allow
          else matching_effects H (dp_rules p) request = {Allow})"
  proof (cases policy)
    case None
    with assms show ?thesis by (auto simp: evaluatePolicy_def split: if_splits)
  next
    case (Some p)
    let ?M = "matching_effects H (dp_rules p) request"
    have valid: "policy_valid H p now"
      using assms Some by (auto simp: evaluatePolicy_def policy_valid_def split: if_splits)
    note effect = evaluatePolicy_effect_valid [OF valid cap]
    have fin: "finite ?M" by (simp add: matching_effects_def)
    have "?M = {Allow}" if "?M \<noteq> {}"
    proof -
      have "Max ?M = Allow" using effect assms Some that by simp
      then have "e = Allow" if "e \<in> ?M" for e
        using Max_ge [OF fin that] by (cases e) (auto simp: less_eq_policy_effect_def)
      with that show ?thesis by blast
    qed
    with effect assms Some valid show ?thesis by auto
  qed
qed

lemma adapt_request:
  assumes "adapt H a input verified = Some adapted"
  shows "ar_capabilityVerified (ah_request adapted) = (ar_event (ah_request adapted) \<in> set verified)"
    and "ar_assistant (ah_request adapted) = a" "ar_event (ah_request adapted) = eventFor H input"
    and "ah_path adapted = ar_resource (ah_request adapted)"
  using assms by (auto simp: adapt_def Let_def split: if_splits)

text \<open>No command is classified as a read.\<close>

lemma analyzeCommand_not_read: "cd_actionClass (analyzeCommand c) \<noteq> ReadAction"
  by (simp add: analyzeCommand_def classifyAction_def)

lemma class_of_event_read: "class_of_event e c = ReadAction \<Longrightarrow> e = ReadEvent"
  by (cases e) (auto simp: analyzeCommand_not_read)

lemma adapt_read:
  "adapt H a input verified = Some adapted \<Longrightarrow> ar_actionClass (ah_request adapted) = ReadAction \<Longrightarrow>
   ar_event (ah_request adapted) = ReadEvent"
  by (auto simp: adapt_def Let_def split: if_splits dest: class_of_event_read)

text \<open>A hook that reads a file, for evaluation.\<close>

lemma KEY_FILE_ast:
  "rx_ast KEY_FILE = RSeq (RSet False [Single 46]) (RSeq (RCapture 1
     (RAlt (RSeq (RSet False [Single 112]) (RSeq (RSet False [Single 101]) (RSeq (RSet False [Single 109]) REmpty)))
     (RAlt (RSeq (RSet False [Single 107]) (RSeq (RSet False [Single 101]) (RSeq (RSet False [Single 121]) REmpty)))
     (RAlt (RSeq (RSet False [Single 112]) (RSeq (RSet False [Single 49]) (RSeq (RSet False [Single 50]) REmpty)))
       (RSeq (RSet False [Single 112]) (RSeq (RSet False [Single 102]) (RSeq (RSet False [Single 120]) REmpty)))))))
     (RSeq REnd REmpty))" "rx_icase KEY_FILE = True"
  by (simp_all add: KEY_FILE_def regexp_eval)

lemma KEY_FILE_dot: "46 \<notin> set s \<Longrightarrow> \<not> rx_test KEY_FILE s"
  by (rule rx_test_needs [OF KEY_FILE_ast(1)]) (simp_all add: other_case_def)

lemma sample_read_allowed: "evaluateResource sample_host [47, 97] [] =
    \<lparr>rd_allowed = True, rd_reason = None, rd_normalized = [47, 97]\<rparr>"
proof -
  have f: "flavor_of [47, 97] = Posix" by (simp add: flavor_of_def DRIVE_iff)
  then have r: "resolve_path sample_host [47, 97] = [47, 97]"
    by (simp add: resolve_path_def posix_segments_def posix_path_def)
  have k: "\<not> rx_test KEY_FILE [47, 97]" by (rule KEY_FILE_dot) simp
  have l: "ph_lower sample_host = lower_ascii" by (simp add: sample_host_def)
  show ?thesis
    by (simp add: evaluateResource_def f r k l SENSITIVE_NAMES_def lower_ascii_def js_def of_char_def)
qed

definition sample_read_hook :: json where
  "sample_read_hook = JObj
     [(js ''hook_event_name'', JStr (js ''PreToolUse'')), (js ''tool_name'', JStr (js ''Read'')),
      (js ''tool_input'', JObj [(js ''file_path'', JStr (js ''/a''))])]"
lemma sample_adapted: "adapter_adapt sample_host claudeAdapter sample_read_hook = Some
  \<lparr>ah_request = \<lparr>ar_assistant = Claude, ar_event = ReadEvent, ar_actionClass = ReadAction, ar_resource = Some (js ''/a''),
     ar_tool = Some (js ''Read''), ar_capabilityVerified = True\<rparr>, ah_prompt = None, ah_path = Some (js ''/a'')\<rparr>"
 by (simp add: adapter_adapt_def adapt_def Let_def sample_read_hook_def eventFor_def field_def obj_get_def claudeAdapter_def
   registeredToolEvent_def sample_host_def lower_ascii_def js_trim_def is_js_space_def EXACT_TOOLS_def js_def of_char_def tool_input_field_def nullish_or_def)

text \<open>C35: what a hook lets through: when the hook of an adapter answers allow, the event is one its
  adapter is verified for or the reading of a file; a path in the input is not sensitive and lies
  under an allowed root; and the policy in force is valid and neither a rule that matches nor the
  default objects, or there is none and the event is a read. An unverified adapter never allows
  anything but reads.\<close>

theorem hook_allows_only:
  assumes "adapter_adapt H adapter input = Some adapted"
    and "evaluateHookInput H adapter input policy roots now = Some decision" "pd_effect decision = Allow"
  shows "(ar_event (ah_request adapted) = ReadEvent \<or>
      ac_verified (ha_capability adapter) \<and> ar_event (ah_request adapted) \<in> set (ac_events (ha_capability adapter))) \<and>
    (case ah_path adapted of None \<Rightarrow> True | Some path \<Rightarrow> rd_allowed (evaluateResource H path roots)) \<and>
    (case policy of
       None \<Rightarrow> ar_event (ah_request adapted) = ReadEvent
     | Some p \<Rightarrow> policy_valid H p now \<and>
         (if matching_effects H (dp_rules p) (ah_request adapted) = {} then dp_unknownAction p = Allow
          else matching_effects H (dp_rules p) (ah_request adapted) = {Allow}))"
proof -
  let ?r = "ah_request adapted"
  have "decision = evaluatePolicy H policy ?r now"
    and path: "case ah_path adapted of None \<Rightarrow> True | Some path \<Rightarrow> rd_allowed (evaluateResource H path roots)"
    using assms by (auto simp: evaluateHookInput_def Let_def resource_denial_def split: if_splits option.splits)
  with assms(3) have "pd_effect (evaluatePolicy H policy ?r now) = Allow" by simp
  note allowed = evaluatePolicy_Allow [OF this]
  note request = assms(1) [unfolded adapter_adapt_def]
  have "ar_event ?r = ReadEvent \<or>
      ac_verified (ha_capability adapter) \<and> ar_event ?r \<in> set (ac_events (ha_capability adapter))"
    using allowed(1) adapt_request(1) [OF request] adapt_read [OF request] by (auto split: if_splits)
  with allowed(2) path adapt_read [OF request] show ?thesis by (cases policy) auto
qed

theorem hook_allows_only_witness:
  "rd_allowed (evaluateResource sample_host [47, 97] []) \<and>
   evaluateHookInput sample_host claudeAdapter sample_read_hook None [] 0 \<noteq> None"
proof -
  have path: "js ''/a'' = [47, 97]" by (simp add: js_def of_char_def)
  have d: "evaluateHookInput sample_host claudeAdapter sample_read_hook None [] 0 =
      Some \<lparr>pd_effect = Allow, pd_reason = js ''no_managed_policy'', pd_policyId = None, pd_policyVersion = None,
            pd_matchedRuleIds = []\<rparr>"
    by (simp add: evaluateHookInput_def sample_adapted path sample_read_allowed evaluatePolicy_def Let_def)
  from hook_allows_only [OF sample_adapted d] show ?thesis by (simp add: d path)
qed

lemma read_opened_Allowed:
  assumes "read_opened before handle p path' = ReadAllowed content path"
  shows "\<exists>sample. path' = path \<and> fs_device (of_stat handle) = fs_device before \<and>
    fs_inode (of_stat handle) = fs_inode before \<and> of_content handle = Some content \<and>
    of_sample handle = Some sample \<and> int (fs_size (of_stat handle)) \<le> dt_maximumBytes p \<and>
    (dt_allowBinary p \<or> 0 \<notin> set (take (min (fs_size (of_stat handle)) 8192) sample))"
  using assms by (auto simp: read_opened_def evaluateData_def Let_def split: if_splits option.splits)

text \<open>C39: what a controlled read returns: the bytes of a regular file that was not a symbolic link when
  it was examined and is the same file (device and inode) when it is opened, at a path that is
  not sensitive and lies under the allowed roots both as written and after every link is
  resolved, whose size and first bytes satisfy the data policy.\<close>

theorem read_is_controlled:
  assumes "readControlledResource H W requestedPath roots dataPolicy = ReadAllowed content path"
  shows "\<exists>before handle sample.
    rd_allowed (evaluateResource H requestedPath roots) \<and>
    rw_lstat W (rd_normalized (evaluateResource H requestedPath roots)) = Some before \<and>
    fs_kind before = RegularFile \<and>
    rw_realpath W (rd_normalized (evaluateResource H requestedPath roots)) = Some path \<and>
    rd_allowed (evaluateResource H path (map (\<lambda>root. case rw_rootpath W root of Some r \<Rightarrow> r | None \<Rightarrow> root) roots)) \<and>
    rw_open W path = Some handle \<and> fs_device (of_stat handle) = fs_device before \<and>
    fs_inode (of_stat handle) = fs_inode before \<and> of_content handle = Some content \<and>
    of_sample handle = Some sample \<and>
    int (fs_size (of_stat handle)) \<le> dt_maximumBytes (case dataPolicy of Some p \<Rightarrow> p | None \<Rightarrow> DEFAULT_DATA_POLICY) \<and>
    (dt_allowBinary (case dataPolicy of Some p \<Rightarrow> p | None \<Rightarrow> DEFAULT_DATA_POLICY) \<or>
     0 \<notin> set (take (min (fs_size (of_stat handle)) 8192) sample))"
proof -
  let ?d = "evaluateResource H requestedPath roots"
  let ?p = "case dataPolicy of Some p \<Rightarrow> p | None \<Rightarrow> DEFAULT_DATA_POLICY"
  let ?roots = "map (\<lambda>root. case rw_rootpath W root of Some r \<Rightarrow> r | None \<Rightarrow> root) roots"
  from assms obtain before handle path' where
    lexical: "rd_allowed ?d" "rw_lstat W (rd_normalized ?d) = Some before" "fs_kind before = RegularFile"
      "rw_realpath W (rd_normalized ?d) = Some path'" "rw_open W path' = Some handle"
      "rd_allowed (evaluateResource H path' ?roots)"
    and opened: "read_opened before handle ?p path' = ReadAllowed content path"
    by (auto simp: readControlledResource_def refuse_resource_def Let_def split: if_splits option.splits)
  from read_opened_Allowed [OF opened] lexical show ?thesis by blast
qed

definition sample_world :: read_world where
  "sample_world =
     (let s = \<lparr>fs_kind = RegularFile, fs_device = 1, fs_inode = 7, fs_size = 2\<rparr> in
      \<lparr>rw_lstat = (\<lambda>_. Some s), rw_realpath = Some, rw_rootpath = Some,
       rw_open = (\<lambda>_. Some \<lparr>of_stat = s, of_sample = Some [104, 105], of_content = Some [104, 105]\<rparr>)\<rparr>)"

theorem read_is_controlled_witness:
  "\<exists>before. rw_lstat sample_world [47, 97] = Some before \<and> fs_kind before = RegularFile"
proof -
  have "readControlledResource sample_host sample_world [47, 97] [] None = ReadAllowed [104, 105] [47, 97]"
    by (simp add: readControlledResource_def sample_read_allowed sample_world_def read_opened_def evaluateData_def
        DEFAULT_DATA_POLICY_def Let_def)
  from read_is_controlled [OF this] show ?thesis by (auto simp: sample_read_allowed)
qed

end
