(* ===== verification/Rules_Value.thy ===== *)
theory Rules_Value
  imports Rules_Table
begin

text \<open>
  The built-in rules, second part (\<open>core/src/rules.ts\<close>): the value of an assignment, from the
  offset after its separator, in every syntax the scanner knows, and the tests that tell a
  literal from a reference, a type or an expression.
\<close>

section \<open>Parsed values\<close>

datatype value_kind = PlaceholderValue | RegexValue | QuotedValue | UnquotedValue | MultilineValue

record parsed_value =
  pv_start :: nat
  pv_end :: nat
  pv_value :: ustring
  pv_kind :: value_kind

definition is_blank :: "nat \<Rightarrow> bool" where
  "is_blank c \<longleftrightarrow> c = 32 \<or> c = 9"

text \<open>\<open>while (text[i] is a blank) i += 1\<close> and the same loop backwards.\<close>

definition skip_blanks :: "ustring \<Rightarrow> nat \<Rightarrow> nat" where
  "skip_blanks text i = i + length (takeWhile is_blank (drop i text))"

definition trim_back :: "(nat \<Rightarrow> bool) \<Rightarrow> ustring \<Rightarrow> nat \<Rightarrow> nat \<Rightarrow> nat" where
  "trim_back p text start end' = start + length (dropWhile p (rev (js_slice text start end')))"

definition span_until :: "(nat \<Rightarrow> bool) \<Rightarrow> ustring \<Rightarrow> nat \<Rightarrow> nat" where
  "span_until stop text i = i + length (takeWhile (\<lambda>c. \<not> stop c) (drop i text))"

text \<open>\<open>text.lastIndexOf("\n", i) + 1\<close>: the start of the line of position \<open>i\<close>, or of the next
  one when \<open>i\<close> is at a line feed.\<close>

definition line_start :: "ustring \<Rightarrow> nat \<Rightarrow> nat" where
  "line_start text i =
     (case filter (\<lambda>k. unit_at text k = Some 10) (rev [0 ..< Suc i]) of [] \<Rightarrow> 0 | k # _ \<Rightarrow> k + 1)"

definition or_length :: "ustring \<Rightarrow> nat option \<Rightarrow> nat" where
  "or_length text found = (case found of None \<Rightarrow> length text | Some i \<Rightarrow> i)"

definition TAIL_END :: regexp where
  "TAIL_END = re ''[,;#})~]~r~n]'' ''''"

definition hasExpressionTail :: "ustring \<Rightarrow> parsed_value \<Rightarrow> bool" where
  "hasExpressionTail text parsed =
     (if pv_kind parsed \<noteq> QuotedValue \<and> pv_kind parsed \<noteq> PlaceholderValue then False
      else case unit_at text (skip_blanks text (pv_end parsed + (if pv_kind parsed = QuotedValue then 1 else 0))) of
        None \<Rightarrow> False
      | Some c \<Rightarrow> \<not> rx_test TAIL_END [c])"

definition expressionEnd :: "ustring \<Rightarrow> nat \<Rightarrow> nat" where
  "expressionEnd text start =
     trim_back is_blank text start (span_until (\<lambda>c. c = 59 \<or> c = 13 \<or> c = 10) text start)"

section \<open>The value of an assignment\<close>

definition parsed_slice :: "ustring \<Rightarrow> nat \<Rightarrow> nat \<Rightarrow> value_kind \<Rightarrow> parsed_value" where
  "parsed_slice text start end' kind =
     \<lparr>pv_start = start, pv_end = end', pv_value = js_slice text start end', pv_kind = kind\<rparr>"

fun or_else :: "'a option \<Rightarrow> 'a option \<Rightarrow> 'a option" where
  "or_else None y = y"
| "or_else (Some x) y = Some x"

definition delimitedPlaceholder :: "ustring \<Rightarrow> nat \<Rightarrow> string \<Rightarrow> string \<Rightarrow> parsed_value option" where
  "delimitedPlaceholder text start opening closing =
     (if \<not> starts_at text (js opening) start then None
      else case index_of text (js closing) (start + length opening) of
        None \<Rightarrow> None
      | Some close \<Rightarrow> Some (parsed_slice text start (close + length closing) PlaceholderValue))"

definition placeholder_value :: "ustring \<Rightarrow> nat \<Rightarrow> parsed_value option" where
  "placeholder_value text start =
     or_else (delimitedPlaceholder text start ''${{'' ''}}'')
       (or_else (delimitedPlaceholder text start ''${'' ''}'')
         (or_else (delimitedPlaceholder text start ''{{'' ''}}'')
           (delimitedPlaceholder text start ''<'' ''>'')))"

text \<open>The first unescaped occurrence of the delimiter, or the end of the text; the list is the
  text from position \<open>i\<close>.\<close>

fun escaped_close :: "ustring \<Rightarrow> ustring \<Rightarrow> nat \<Rightarrow> bool \<Rightarrow> nat" where
  "escaped_close delimiter [] i escaped = i"
| "escaped_close delimiter (c # cs) i escaped =
     (if \<not> escaped \<and> take (length delimiter) (c # cs) = delimiter then i
      else escaped_close delimiter cs (i + 1) (c = 92 \<and> \<not> escaped))"

definition python_string :: "ustring \<Rightarrow> nat \<Rightarrow> parsed_value option" where
  "python_string text start =
     (case rx_sticky PYTHON_STRING_PREFIX text start of
        None \<Rightarrow> None
      | Some m \<Rightarrow>
          let delimiter = (case rx_group text m 1 of Some d \<Rightarrow> d | None \<Rightarrow> [34]); valueStart = fst (snd m) in
          Some (parsed_slice text valueStart (escaped_close delimiter (drop valueStart text) valueStart False)
                  (if length delimiter = 3 then MultilineValue else QuotedValue)))"

fun doubled_close :: "ustring \<Rightarrow> nat \<Rightarrow> nat" where
  "doubled_close [] i = i"
| "doubled_close [c] i = (if c = 34 then i else i + 1)"
| "doubled_close (c # d # cs) i =
     (if c = 34 then (if d = 34 then doubled_close cs (i + 2) else i) else doubled_close (d # cs) (i + 1))"

definition csharp_string :: "ustring \<Rightarrow> nat \<Rightarrow> parsed_value option" where
  "csharp_string text start =
     (case rx_sticky CSHARP_STRING_PREFIX text start of
        None \<Rightarrow> None
      | Some m \<Rightarrow>
          let valueStart = fst (snd m)
          in Some (parsed_slice text valueStart (doubled_close (drop valueStart text) valueStart) QuotedValue))"

definition rust_string :: "ustring \<Rightarrow> nat \<Rightarrow> parsed_value option" where
  "rust_string text start =
     (case rx_sticky RUST_RAW_STRING_PREFIX text start of
        None \<Rightarrow> None
      | Some m \<Rightarrow>
          let valueStart = fst (snd m);
              closing = 34 # (case rx_group text m 1 of Some hashes \<Rightarrow> hashes | None \<Rightarrow> [])
          in Some (parsed_slice text valueStart (or_length text (index_of text closing valueStart)) QuotedValue))"

text \<open>A YAML block ends before the first line that is not blank and not indented further than
  the key.\<close>

function yaml_block_end :: "ustring \<Rightarrow> nat \<Rightarrow> nat \<Rightarrow> nat" where
  "yaml_block_end text keyIndent i =
     (if length text \<le> i then i
      else
        let lineEnd = index_of text [10] i;
            boundedLineEnd = (case lineEnd of None \<Rightarrow> length text | Some l \<Rightarrow> l + 1);
            line = js_slice text i (or_length text lineEnd) in
        if js_trim line = [] then yaml_block_end text keyIndent boundedLineEnd
        else if length (takeWhile is_blank line) \<le> keyIndent then i
        else yaml_block_end text keyIndent boundedLineEnd)"
  by pat_completeness auto
termination
  by (relation "measure (\<lambda>(text, keyIndent, i). length text - i)")
    (auto dest: index_of_Some(1) split: option.splits)

declare yaml_block_end.simps [simp del]

definition yaml_block :: "ustring \<Rightarrow> nat \<Rightarrow> parsed_value option" where
  "yaml_block text start =
     (case rx_sticky YAML_BLOCK_START text start of
        None \<Rightarrow> None
      | Some m \<Rightarrow>
          let currentLineStart = line_start text (start - 1);
              keyIndent = length (takeWhile is_blank (drop currentLineStart text))
          in Some (parsed_slice text start (yaml_block_end text keyIndent (fst (snd m))) MultilineValue))"

definition heredoc_terminator :: "ustring \<Rightarrow> regexp" where
  "heredoc_terminator marker =
     regexp_of (rxs ''(?:^|~n)[~t ]*'' @ marker @ rxs ''[~t ]*(?:~r?~n|$)'') ''''"

definition heredoc :: "ustring \<Rightarrow> nat \<Rightarrow> parsed_value option" where
  "heredoc text start =
     (case rx_sticky HEREDOC_START text start of
        None \<Rightarrow> None
      | Some m \<Rightarrow>
          let marker = (case rx_group text m 1 of Some w \<Rightarrow> w | None \<Rightarrow> []); bodyStart = fst (snd m);
              end' = (case rx_exec (heredoc_terminator marker) text bodyStart of
                        None \<Rightarrow> length text | Some closing \<Rightarrow> fst (snd closing))
          in Some (parsed_slice text start end' MultilineValue))"

definition triple_quoted :: "ustring \<Rightarrow> nat \<Rightarrow> parsed_value option" where
  "triple_quoted text start =
     (let tripleQuote = js_slice text start (start + 3) in
      if tripleQuote = [34, 34, 34] \<or> tripleQuote = [39, 39, 39]
      then Some (parsed_slice text (start + 3) (or_length text (index_of text tripleQuote (start + 3))) MultilineValue)
      else None)"

text \<open>The slash that closes a regular expression, if it comes before the end of the line; a slash
  inside a character class does not close it. The list is the text from position \<open>i\<close>.\<close>

fun regex_close :: "ustring \<Rightarrow> nat \<Rightarrow> bool \<Rightarrow> bool \<Rightarrow> nat option" where
  "regex_close [] i escaped inClass = None"
| "regex_close (c # cs) i escaped inClass =
     (if \<not> escaped \<and> c = 47 \<and> \<not> inClass then Some i
      else if c = 13 \<or> c = 10 then None
      else regex_close cs (i + 1) (c = 92 \<and> \<not> escaped)
             (if escaped then inClass
              else if c = 91 then True else if c = 93 then False else inClass))"

definition is_regex_flag :: "nat \<Rightarrow> bool" where
  "is_regex_flag c \<longleftrightarrow> c \<in> set (js ''dgimsuvy'')"

definition regex_literal :: "ustring \<Rightarrow> nat \<Rightarrow> parsed_value option" where
  "regex_literal text start =
     (if unit_at text start = Some 47 \<and> unit_at text (start + 1) \<noteq> Some 47 \<and> unit_at text (start + 1) \<noteq> Some 42
      then case regex_close (drop (start + 1) text) (start + 1) False False of
             None \<Rightarrow> None
           | Some e \<Rightarrow>
               let flagsEnd = span_until (\<lambda>c. \<not> is_regex_flag c) text (e + 1)
               in Some (parsed_slice text start flagsEnd RegexValue)
      else None)"

definition quoted_value :: "ustring \<Rightarrow> nat \<Rightarrow> parsed_value option" where
  "quoted_value text start =
     (case unit_at text start of
        None \<Rightarrow> None
      | Some quote \<Rightarrow>
          if quote = 34 \<or> quote = 39 \<or> quote = 96
          then Some (parsed_slice text (start + 1)
                       (escaped_close [quote] (drop (start + 1) text) (start + 1) False) QuotedValue)
          else None)"

text \<open>\<open>[,;#}\r\n]\<close>.\<close>

definition ends_unquoted :: "nat \<Rightarrow> bool" where
  "ends_unquoted c \<longleftrightarrow> c = 44 \<or> c = 59 \<or> c = 35 \<or> c = 125 \<or> c = 13 \<or> c = 10"

text \<open>Outside code and JSON the range of an unquoted value goes on to the end of the line, while
  its text stops at the first separator.\<close>

definition unquoted_value :: "unicode \<Rightarrow> ustring option \<Rightarrow> ustring \<Rightarrow> nat \<Rightarrow> parsed_value option" where
  "unquoted_value U languageId text start =
     (let valueEnd = trim_back is_blank text start (span_until ends_unquoted text start) in
      if valueEnd = start then None
      else
        let end' =
          (if \<not> isCodeLikeLanguage U languageId \<and> languageId \<noteq> Some (js ''json'')
           then trim_back (\<lambda>c. c = 13) text start (or_length text (index_of text [10] valueEnd))
           else valueEnd)
        in Some \<lparr>pv_start = start, pv_end = end', pv_value = js_slice text start valueEnd, pv_kind = UnquotedValue\<rparr>)"

definition parseAssignmentValue :: "unicode \<Rightarrow> ustring \<Rightarrow> nat \<Rightarrow> ustring option \<Rightarrow> parsed_value option" where
  "parseAssignmentValue U text offset languageId =
     (let start = skip_blanks text offset in
      if length text \<le> start then None
      else or_else (placeholder_value text start)
        (or_else (python_string text start)
          (or_else (csharp_string text start)
            (or_else (rust_string text start)
              (or_else (yaml_block text start)
                (or_else (heredoc text start)
                  (or_else (triple_quoted text start)
                    (or_else (regex_literal text start)
                      (or_else (quoted_value text start)
                        (unquoted_value U languageId text start))))))))))"

section \<open>Values that are not literals\<close>

datatype assignment_pattern =
  PlainAssignment | IndexedEnv | PowershellEnv | CliArgument | FunctionEnv | NpmAuthToken

fun pattern_of :: "assignment_pattern \<Rightarrow> regexp" where
  "pattern_of PlainAssignment = ASSIGNMENT"
| "pattern_of IndexedEnv = INDEXED_ENV_ASSIGNMENT"
| "pattern_of PowershellEnv = POWERSHELL_ENV_ASSIGNMENT"
| "pattern_of CliArgument = CLI_ARGUMENT_ASSIGNMENT"
| "pattern_of FunctionEnv = FUNCTION_ENV_ASSIGNMENT"
| "pattern_of NpmAuthToken = NPM_AUTH_TOKEN_ASSIGNMENT"

definition BARE_ENVIRONMENT :: regexp where
  "BARE_ENVIRONMENT = re ''^~s*(?:(?:export|set)~s+)?[A-Z_][A-Z0-9_]*~s*=~s*$'' ''''"

definition isBareEnvironmentAssignment ::
  "unicode \<Rightarrow> ustring \<Rightarrow> rx_found \<Rightarrow> assignment_pattern \<Rightarrow> ustring option \<Rightarrow> bool" where
  "isBareEnvironmentAssignment U text m pattern languageId =
     (if isDotenvLanguage U languageId then True
      else if pattern \<noteq> PlainAssignment then False
      else rx_test BARE_ENVIRONMENT (js_slice text (line_start text (fst m)) (fst (snd m))))"

definition SHELL_LANGUAGES :: "ustring list" where
  "SHELL_LANGUAGES = map js [''bash'', ''fish'', ''shell'', ''shellscript'', ''sh'', ''zsh'']"

definition SHELL_PREFIX :: regexp where
  "SHELL_PREFIX = re ''^~s*[a-z_][A-Za-z0-9_]*~s*=~s*$'' ''''"

definition STRUCTURED_PREFIX :: regexp where
  "STRUCTURED_PREFIX = re ''^~s*[a-z_][A-Za-z0-9_.-]*~s*:?=~s*$'' ''''"

definition CODE_KEYWORD_PREFIX :: regexp where
  "CODE_KEYWORD_PREFIX = re ''~b(?:const|final|let|mut|readonly|return|static|type|interface|enum|var)~b'' ''''"

definition TYPED_PREFIX :: regexp where
  "TYPED_PREFIX = re ''^~s*(?:[A-Za-z_$][~w$]*(?:::[A-Za-z_$][~w$]*)?(?:<[^~r~n=;]{1,128}>)?[*&?]?~s+)+[A-Za-z_$][~w$]*~s*=~s*$'' ''''"

definition language_in :: "unicode \<Rightarrow> ustring option \<Rightarrow> ustring list \<Rightarrow> bool" where
  "language_in U languageId ids = (case languageId of None \<Rightarrow> False | Some l \<Rightarrow> uc_lower U l \<in> set ids)"

definition matched :: "ustring \<Rightarrow> rx_found \<Rightarrow> ustring" where
  "matched text m = js_slice text (fst m) (fst (snd m))"

definition safeContextualValue ::
  "unicode \<Rightarrow> ustring \<Rightarrow> rx_found \<Rightarrow> assignment_pattern \<Rightarrow> parsed_value \<Rightarrow> ustring option \<Rightarrow> bool" where
  "safeContextualValue U text m pattern parsed languageId =
     (if safeLiteral (pv_value parsed) \<and> \<not> hasExpressionTail text parsed then True
      else if isBareEnvironmentAssignment U text m pattern languageId then False
      else
        let prefix = js_slice text (line_start text (fst m)) (fst (snd m));
            inferredShell = (languageId = None \<and> rx_test SHELL_PREFIX prefix) in
        if (language_in U languageId SHELL_LANGUAGES \<or> inferredShell) \<and> isShellCommandSubstitution (pv_value parsed)
        then True
        else if pv_kind parsed = QuotedValue \<or> pv_kind parsed = MultilineValue then False
        else
          let inferredStructured = (languageId = None \<and> (58 \<in> set (matched text m) \<or> rx_test STRUCTURED_PREFIX prefix));
              inferredCode = (languageId = None \<and> (rx_test CODE_KEYWORD_PREFIX prefix \<or> rx_test TYPED_PREFIX prefix))
          in (isCodeLikeLanguage U languageId \<or> language_in U languageId STRUCTURED_LANGUAGE_IDS \<or>
              inferredStructured \<or> inferredCode) \<and> isSafeReference (pv_value parsed))"

definition SCHEMA_TYPE :: regexp where
  "SCHEMA_TYPE = re ''^~{~s*\"type\"~s*:~s*\"(?:array|boolean|integer|null|number|object|string)\"(?:~s*[,}]|~s*$)'' ''''"

definition isJsonSchemaTypeDescriptor :: "unicode \<Rightarrow> parsed_value \<Rightarrow> ustring option \<Rightarrow> bool" where
  "isJsonSchemaTypeDescriptor U parsed languageId =
     (if pv_kind parsed \<noteq> UnquotedValue then False
      else if \<not> language_in U languageId (map js [''json'', ''jsonc'']) then False
      else rx_test SCHEMA_TYPE (pv_value parsed))"

definition EXTERNAL_CODE :: regexp where
  "EXTERNAL_CODE = re ''~b(?:const|let|var|return|readonly|public|private|protected|type|interface|enum)~b'' ''''"

definition NUMBER_LITERAL :: regexp where
  "NUMBER_LITERAL = re ''^[+-]?(?:~d+(?:~.~d+)?|0x[0-9a-f]+)$'' ''i''"

definition EXPRESSION_START :: regexp where
  "EXPRESSION_START = re ''^(?:await~s+|new~s+|typeof~s+|this~.|super~.)'' ''''"

definition EXPRESSION_OPERATOR :: regexp where
  "EXPRESSION_OPERATOR = re ''(?:={2,3}|!={1,2}|=>|~?[^:]|~s+as~s+|~s+satisfies~s+|~?~?|~|~||&&)'' ''''"

definition TYPE_EXPRESSION :: regexp where
  "TYPE_EXPRESSION = re ''^(?:(?:string|number|boolean|unknown|never|any|str|String|SecretStr)(?:~[~])?)(?:~s*~|~s*(?:null|undefined|None))*!?$'' ''''"

definition TYPE_OBJECT :: regexp where
  "TYPE_OBJECT = re ''^~{~s*[\"']?type[\"']?~s*:~s*[\"'](?:string|number|boolean)[\"']'' ''''"

definition DECLARATION :: regexp where
  "DECLARATION = re ''~b(?:const|let|var|readonly|public|private|protected)~b'' ''''"

definition TYPED_INITIALIZER :: regexp where
  "TYPED_INITIALIZER = re ''^(?:string|number|boolean|unknown|never|any|str|String|SecretStr)(?:~[~])?~s*='' ''''"

definition PLAIN_IDENTIFIER :: regexp where
  "PLAIN_IDENTIFIER = re ''^[A-Za-z_$][~w$]*$'' ''''"

definition SECRET_NAME :: regexp where
  "SECRET_NAME = re ''(?:password|passwd|token|secret|credential|apiKey|value)$'' ''i''"

definition DECLARATION_OR_RETURN :: regexp where
  "DECLARATION_OR_RETURN = re ''~b(?:const|let|var|return|readonly|public|private|protected)~b'' ''''"

definition isClearlyNonLiteralExpression ::
  "unicode \<Rightarrow> ustring \<Rightarrow> rx_found \<Rightarrow> parsed_value \<Rightarrow> ustring option \<Rightarrow> bool" where
  "isClearlyNonLiteralExpression U text m parsed languageId =
     (if pv_kind parsed \<noteq> UnquotedValue then False
      else
        let value = js_trim (pv_value parsed);
            prefix = js_slice text (line_start text (fst m)) (fst m) @ matched text m;
            externalCodeSyntax = (rx_test EXTERNAL_CODE prefix \<or> 123 \<in> set (matched text m)) in
        if (languageId \<noteq> None \<and> \<not> isCodeLikeLanguage U languageId) \<or> (languageId = None \<and> \<not> externalCodeSyntax)
        then False
        else if rx_test NUMBER_LITERAL value then False
        else if rx_test EXPRESSION_START value \<or> rx_test EXPRESSION_OPERATOR value \<or> rx_test TYPE_EXPRESSION value \<or>
                rx_test OPTIONAL_TYPE value \<or> rx_test TYPE_OBJECT value \<or>
                (rx_test DECLARATION prefix \<and> rx_test TYPED_INITIALIZER value)
        then True
        else if rx_test PLAIN_IDENTIFIER value
        then rx_test SECRET_NAME value \<or> rx_test DECLARATION_OR_RETURN prefix
        else False)"

definition ENUM_KEYWORD :: regexp where
  "ENUM_KEYWORD = re ''~benum~b'' ''''"

definition CAMEL_BOUNDARY :: regexp where
  "CAMEL_BOUNDARY = re ''([a-z0-9])([A-Z])'' ''''"

definition SEPARATORS :: regexp where
  "SEPARATORS = re ''[^A-Za-z0-9]+'' ''''"

definition isSymbolicEnumValue :: "unicode \<Rightarrow> ustring \<Rightarrow> rx_found \<Rightarrow> ustring \<Rightarrow> parsed_value \<Rightarrow> bool" where
  "isSymbolicEnumValue U text m key parsed =
     (if pv_kind parsed \<noteq> QuotedValue then False
      else if \<not> rx_test ENUM_KEYWORD (js_slice text (line_start text (fst m)) (fst m)) then False
      else
        let group = (\<lambda>c n. case rx_group key c n of Some g \<Rightarrow> g | None \<Rightarrow> []);
            camel = rx_replace CAMEL_BOUNDARY (\<lambda>c. group c 1 @ [95] @ group c 2) key;
            symbolicKey = uc_lower U (rx_replace SEPARATORS (\<lambda>_. [95]) camel)
        in uc_lower U (pv_value parsed) = symbolicKey)"

section \<open>Entropy of a value\<close>

text \<open>Over the number of code units, while the counts are by code point.\<close>

definition rules_entropy :: "ustring \<Rightarrow> real" where
  "rules_entropy value =
     (if value = [] then 0
      else let len = real (length value) in
        foldl (\<lambda>entropy (_, count). entropy - (real count / len) * log 2 (real count / len)) 0 (char_counts value))"

definition HEX_ONLY :: regexp where
  "HEX_ONLY = re ''^[0-9a-fA-F]+$'' ''''"

definition entropyThreshold :: "ustring \<Rightarrow> real" where
  "entropyThreshold value = (if rx_test HEX_ONLY value then 3 else 43 / 10)"

definition hasStrongEntropy :: "ustring \<Rightarrow> bool" where
  "hasStrongEntropy value \<longleftrightarrow> 16 \<le> length value \<and> entropyThreshold value \<le> rules_entropy value"

end
