(* ===== verification/Rules_Scan.thy ===== *)
theory Rules_Scan
  imports Rules_Value
begin

text \<open>
  The built-in rules, third part (\<open>core/src/rules.ts\<close>): the detectors themselves, each from a view
  of the text to its findings, and \<open>builtin_engine\<close>, the instance of the scanner's
  \<open>rule_engine\<close> they make up.  The platform's URL parser is a parameter: the password of a
  URL, \<open>None\<close> when \<open>new URL\<close> throws.
\<close>

type_synonym findings = "internal_finding list"
type_synonym url_parser = "ustring \<Rightarrow> ustring option"

definition view_finding ::
  "mapped_view \<Rightarrow> ustring \<Rightarrow> secret_type \<Rightarrow> nat \<Rightarrow> nat \<Rightarrow> int \<Rightarrow> ustring list \<Rightarrow> internal_finding" where
  "view_finding view ruleId secretType viewStart viewEnd score reasons =
     (let (start, end') = mapRange view viewStart viewEnd in
      \<lparr>fi_ruleId = ruleId, fi_secretType = secretType, fi_start = start, fi_end = end',
       fi_score = score, fi_reasons = reasons, fi_encoding = mv_encoding view\<rparr>)"

definition extra_reasons :: "mapped_view \<Rightarrow> ustring list" where
  "extra_reasons view = (if mv_encoding view = EncPlain then [] else tl (encodingReasons (mv_encoding view)))"

section \<open>Loops over the matches of a pattern\<close>

text \<open>\<open>while ((match = pattern.exec(text)) !== null)\<close> with a body that moves \<open>lastIndex\<close>. A body
  that leaves it where the search started would not come back; the patterns of the program match
  no empty text, so the last branch is never taken (\<open>moves_on\<close> below).\<close>

function exec_each ::
  "regexp \<Rightarrow> ustring \<Rightarrow> (rx_found \<Rightarrow> 's \<Rightarrow> 's \<times> findings \<times> nat) \<Rightarrow> nat \<Rightarrow> 's \<Rightarrow> 's \<times> findings" where
  "exec_each R s body i st =
     (case rx_exec R s i of
        None \<Rightarrow> (st, [])
      | Some m \<Rightarrow>
          (case body m st of
             (st, found, lastIndex) \<Rightarrow>
               if lastIndex \<le> i then (st, found)
               else (case exec_each R s body lastIndex st of (st, later) \<Rightarrow> (st, found @ later))))"
  by pat_completeness auto
termination
  by (relation "measure (\<lambda>(R, s, body, i, st). Suc (length s) - i)")
    (auto simp: rx_exec_def dest!: first_match_in)

declare exec_each.simps [simp del]

fun match_each :: "(rx_found \<Rightarrow> 's \<Rightarrow> 's \<times> findings) \<Rightarrow> rx_found list \<Rightarrow> 's \<Rightarrow> 's \<times> findings" where
  "match_each body [] st = (st, [])"
| "match_each body (m # ms) st =
     (case body m st of (st, found) \<Rightarrow> (case match_each body ms st of (st, later) \<Rightarrow> (st, found @ later)))"

section \<open>Fixed formats\<close>

definition key_end_marker :: "ustring \<Rightarrow> rx_found \<Rightarrow> ustring" where
  "key_end_marker text m =
     js ''-----END '' @ (case rx_group text m 1 of Some keyLabel \<Rightarrow> keyLabel | None \<Rightarrow> js ''PRIVATE KEY'') @ js ''-----''"

definition private_key_body :: "mapped_view \<Rightarrow> rx_found \<Rightarrow> unit \<Rightarrow> unit \<times> findings \<times> nat" where
  "private_key_body view m st =
     (let text = mv_text view; viewStart = fst m; lastIndex = fst (snd m);
          endMarker = key_end_marker text m;
          markerStart = index_of text endMarker lastIndex;
          complete = (markerStart \<noteq> None);
          viewEnd = (case markerStart of Some k \<Rightarrow> k + length endMarker | None \<Rightarrow> length text)
      in (st,
          [view_finding view (if complete then js ''private_key_pem'' else js ''private_key_pem_incomplete'')
             PrivateKey viewStart viewEnd
             ((if complete then 100 else 90) - encodingPenalty (mv_encoding view))
             (encodingReasons (mv_encoding view) @
              [if complete then js ''complete_private_key_block'' else js ''private_key_header_without_bounded_end''])],
          max lastIndex viewEnd))"

definition private_keys :: "mapped_view \<Rightarrow> findings" where
  "private_keys view = snd (exec_each PRIVATE_KEY_HEADER (mv_text view) (private_key_body view) 0 ())"

definition validated :: "fixed_rule \<Rightarrow> ustring \<Rightarrow> decode_budget \<Rightarrow> decode_budget \<times> bool" where
  "validated rule value budget =
     (case fr_validator rule of
        None \<Rightarrow> (budget, True)
      | Some validator \<Rightarrow>
          (case validator value (Some budget) of
             (b, valid) \<Rightarrow> ((case b of Some budget' \<Rightarrow> budget' | None \<Rightarrow> budget), valid)))"

definition fixed_rule_body ::
  "mapped_view \<Rightarrow> fixed_rule \<Rightarrow> rx_found \<Rightarrow> decode_budget \<Rightarrow> decode_budget \<times> findings" where
  "fixed_rule_body view rule m budget =
     (case capturedRange (mv_text view) m (fr_capture rule) of
        (viewStart, viewEnd, value) \<Rightarrow>
          if safeLiteral value then (budget, [])
          else case validated rule value budget of
            (budget, valid) \<Rightarrow>
              (budget,
               if \<not> valid then []
               else [view_finding view (fr_ruleId rule) (fr_secretType rule) viewStart viewEnd
                       (fr_score rule - encodingPenalty (mv_encoding view)) (encodingReasons (mv_encoding view))]))"

fun fixed_rules_loop ::
  "mapped_view \<Rightarrow> bool \<Rightarrow> fixed_rule list \<Rightarrow> decode_budget \<Rightarrow> decode_budget \<times> findings" where
  "fixed_rules_loop view allow [] budget = (budget, [])"
| "fixed_rules_loop view allow (rule # rules) budget =
     (if fr_validator rule \<noteq> None \<and> \<not> allow then fixed_rules_loop view allow rules budget
      else case match_each (fixed_rule_body view rule) (rx_all (fr_pattern rule) (mv_text view) 0) budget of
        (budget, found) \<Rightarrow>
          (case fixed_rules_loop view allow rules budget of (budget, later) \<Rightarrow> (budget, found @ later)))"

definition scanFixedRules :: "mapped_view \<Rightarrow> bool \<Rightarrow> decode_budget \<Rightarrow> decode_budget \<times> findings" where
  "scanFixedRules view allowStructuredDecoding budget =
     (case fixed_rules_loop view allowStructuredDecoding FIXED_RULES budget of
        (budget, found) \<Rightarrow> (budget, private_keys view @ found))"

section \<open>URLs with credentials\<close>

definition TRAILING_PUNCTUATION :: regexp where
  "TRAILING_PUNCTUATION = re ''[),;~]}]+$'' ''''"

definition stripTrailingUrlPunctuation :: "ustring \<Rightarrow> ustring" where
  "stripTrailingUrlPunctuation value = rx_replace TRAILING_PUNCTUATION (\<lambda>_. []) value"

text \<open>\<open>decodeURIComponent\<close>, \<open>None\<close> when it throws: every escape must start a well-formed UTF-8
  sequence of escapes.\<close>

fun escaped_bytes :: "nat \<Rightarrow> ustring \<Rightarrow> nat list" where
  "escaped_bytes 0 s = []"
| "escaped_bytes (Suc n) s = (case percentByteAt s 0 of None \<Rightarrow> [] | Some b \<Rightarrow> b # escaped_bytes n (drop 3 s))"

function decodeURIComponent :: "ustring \<Rightarrow> ustring option" where
  "decodeURIComponent [] = Some []"
| "decodeURIComponent (c # cs) =
     (if c \<noteq> 37 then map_option ((#) c) (decodeURIComponent cs)
      else case utf8_step (escaped_bytes 4 (c # cs)) of
        None \<Rightarrow> None
      | Some (cp, n) \<Rightarrow> map_option ((@) (units_of_cp cp)) (decodeURIComponent (drop (3 * n - 1) cs)))"
  by pat_completeness auto
termination by (relation "measure length") auto

definition credential_url_body :: "url_parser \<Rightarrow> mapped_view \<Rightarrow> rx_found \<Rightarrow> findings" where
  "credential_url_body url view m =
     (let candidate = stripTrailingUrlPunctuation (matched (mv_text view) m) in
      case url candidate of
        None \<Rightarrow> []
      | Some password \<Rightarrow>
          if password = [] then []
          else
            let decoded = (case decodeURIComponent password of Some p \<Rightarrow> p | None \<Rightarrow> password) in
            if safeLiteral decoded then []
            else
              let database = rx_test DATABASE_SCHEME candidate in
              [view_finding view (if database then js ''database_url_credentials'' else js ''basic_auth_url'')
                 (if database then DatabaseCredentials else Password) (fst m) (fst m + length candidate)
                 ((if database then 95 else 90) - encodingPenalty (mv_encoding view))
                 (js ''credential_bearing_url'' # extra_reasons view)])"

definition scanCredentialUrls :: "url_parser \<Rightarrow> mapped_view \<Rightarrow> findings" where
  "scanCredentialUrls url view =
     concat (map (credential_url_body url view) (rx_all URL_WITH_CREDENTIALS (mv_text view) 0))"

section \<open>Assignments\<close>

definition type_suffix :: "secret_type \<Rightarrow> ustring" where
  "type_suffix t = js (case t of
       Password \<Rightarrow> ''password'' | PrivateKey \<Rightarrow> ''private_key'' | CloudCredential \<Rightarrow> ''cloud_credential''
     | ApiKey \<Rightarrow> ''api_key'' | AccessToken \<Rightarrow> ''access_token'' | GenericSecret \<Rightarrow> ''generic_secret''
     | DatabaseCredentials \<Rightarrow> ''database_credentials'' | ProviderToken \<Rightarrow> ''provider_token'' | Jwt \<Rightarrow> ''jwt''
     | HighEntropy \<Rightarrow> ''high_entropy'' | CustomRule \<Rightarrow> ''custom_rule'' | ScanLimit \<Rightarrow> ''scan_limit''
     | ScanError \<Rightarrow> ''scan_error'')"

definition TRAILING_SPACES :: regexp where
  "TRAILING_SPACES = re ''~s+$'' ''''"

definition trailing_spaces :: "ustring \<Rightarrow> nat" where
  "trailing_spaces whole =
     (case rx_exec TRAILING_SPACES whole 0 of None \<Rightarrow> 0 | Some m \<Rightarrow> fst (snd m) - fst m)"

text \<open>The values a sensitive key does not make a secret.\<close>

definition harmless_value ::
  "unicode \<Rightarrow> ustring \<Rightarrow> rx_found \<Rightarrow> assignment_pattern \<Rightarrow> ustring \<Rightarrow> parsed_value \<Rightarrow> ustring option \<Rightarrow> bool" where
  "harmless_value U text m pattern key parsed languageId \<longleftrightarrow>
     pv_value parsed = [] \<or>
     safeContextualValue U text m pattern parsed languageId \<or>
     isJsonSchemaTypeDescriptor U parsed languageId \<or>
     isSymbolicEnumValue U text m key parsed \<or>
     (isClearlyNonLiteralExpression U text m parsed languageId \<and> pv_kind parsed = UnquotedValue \<and>
      \<not> rx_test NUMBER_LITERAL (js_trim (pv_value parsed))) \<or>
     (isConnectionKey U key \<and> \<not> connectionContainsCredential (pv_value parsed))"

definition assignment_body ::
  "unicode \<Rightarrow> mapped_view \<Rightarrow> assignment_pattern \<Rightarrow> ustring option \<Rightarrow> rx_found \<Rightarrow> unit \<Rightarrow> unit \<times> findings \<times> nat" where
  "assignment_body U view pattern languageId m st =
     (let text = mv_text view; lastIndex = fst (snd m);
          key = (case rx_group text m 1 of Some k \<Rightarrow> k | None \<Rightarrow> []) in
      case typeForSensitiveKey U key of
        None \<Rightarrow>
          let trailing = trailing_spaces (matched text m)
          in (st, [], if 0 < trailing then max (fst m + 1) (lastIndex - trailing) else lastIndex)
      | Some secretType \<Rightarrow>
          (case parseAssignmentValue U text lastIndex languageId of
             None \<Rightarrow> (st, [], lastIndex)
           | Some parsed \<Rightarrow>
               let hasTail = hasExpressionTail text parsed;
                   findingStart = (if hasTail then skip_blanks text lastIndex else pv_start parsed);
                   findingEnd = (if hasTail then expressionEnd text (pv_end parsed) else pv_end parsed);
                   next = max lastIndex findingEnd in
               if harmless_value U text m pattern key parsed languageId then (st, [], next)
               else
                 let entropyBonus = (if hasStrongEntropy (pv_value parsed) then 5 else 0) in
                 (st,
                  [view_finding view (js ''contextual_'' @ type_suffix secretType) secretType findingStart findingEnd
                     (70 + entropyBonus - encodingPenalty (mv_encoding view))
                     ([js ''sensitive_variable_name'', js ''structured_assignment''] @
                      (if 0 < entropyBonus then [js ''value_shape_supports_secret''] else []) @ extra_reasons view)],
                  next)))"

definition scanAssignmentPattern ::
  "unicode \<Rightarrow> mapped_view \<Rightarrow> assignment_pattern \<Rightarrow> ustring option \<Rightarrow> findings" where
  "scanAssignmentPattern U view pattern languageId =
     snd (exec_each (pattern_of pattern) (mv_text view) (assignment_body U view pattern languageId) 0 ())"

definition contextualFinding ::
  "mapped_view \<Rightarrow> ustring \<Rightarrow> secret_type \<Rightarrow> nat \<Rightarrow> nat \<Rightarrow> ustring \<Rightarrow> internal_finding" where
  "contextualFinding view ruleId secretType viewStart viewEnd reason =
     view_finding view ruleId secretType viewStart viewEnd (70 - encodingPenalty (mv_encoding view))
       ([reason, js ''structured_assignment''] @ extra_reasons view)"

text \<open>\<open>match[n] ?? ""\<close> and the position of a part of the match, as its last occurrence.\<close>

definition group_or_empty :: "ustring \<Rightarrow> rx_found \<Rightarrow> nat \<Rightarrow> ustring" where
  "group_or_empty s m n = (case rx_group s m n of Some g \<Rightarrow> g | None \<Rightarrow> [])"

definition last_in_match :: "ustring \<Rightarrow> rx_found \<Rightarrow> ustring \<Rightarrow> nat" where
  "last_in_match s m part = fst m + (case last_index_of (matched s m) part of Some i \<Rightarrow> i | None \<Rightarrow> 0)"

definition cookie_body :: "mapped_view \<Rightarrow> nat \<Rightarrow> ustring \<Rightarrow> rx_found \<Rightarrow> findings" where
  "cookie_body view lineStart line cookie =
     (let value = group_or_empty line cookie 2 in
      if value = [] \<or> safeLiteral value then []
      else
        let relative = last_in_match line cookie value
        in [contextualFinding view (js ''cookie_session_credential'') AccessToken (lineStart + relative)
              (lineStart + relative + length value) (js ''credential_cookie_header'')])"

definition cookie_header_body :: "mapped_view \<Rightarrow> rx_found \<Rightarrow> findings" where
  "cookie_header_body view header =
     (let line = group_or_empty (mv_text view) header 1;
          lineStart = last_in_match (mv_text view) header line
      in concat (map (cookie_body view lineStart line) (rx_all COOKIE_SECRET line 0)))"

definition scanCookieCredentials :: "mapped_view \<Rightarrow> findings" where
  "scanCookieCredentials view =
     concat (map (cookie_header_body view) (rx_all COOKIE_HEADER (mv_text view) 0))"

definition basic_auth_body :: "mapped_view \<Rightarrow> rx_found \<Rightarrow> findings" where
  "basic_auth_body view m =
     (let password = group_or_empty (mv_text view) m 3 in
      if password = [] \<or> safeLiteral password then []
      else
        let credential = group_or_empty (mv_text view) m 2 @ [58] @ password;
            viewStart = last_in_match (mv_text view) m credential
        in [contextualFinding view (js ''cli_basic_auth'') Password viewStart (viewStart + length credential)
              (js ''basic_auth_command_argument'')])"

definition scanBasicAuthArguments :: "mapped_view \<Rightarrow> findings" where
  "scanBasicAuthArguments view =
     concat (map (basic_auth_body view) (rx_all BASIC_AUTH_ARGUMENT (mv_text view) 0))"

definition docker_auth_body ::
  "unicode \<Rightarrow> mapped_view \<Rightarrow> rx_found \<Rightarrow> decode_budget \<Rightarrow> decode_budget \<times> findings \<times> nat" where
  "docker_auth_body U view m budget =
     (let lastIndex = fst (snd m) in
      case parseAssignmentValue U (mv_text view) lastIndex None of
        None \<Rightarrow> (budget, [], lastIndex)
      | Some parsed \<Rightarrow>
          let next = max lastIndex (pv_end parsed) in
          if pv_value parsed = [] then (budget, [], next)
          else case decodeBase64Budgeted (pv_value parsed) 4096 budget of
            (budget, None) \<Rightarrow> (budget, [], next)
          | (budget, Some decoded) \<Rightarrow>
              (budget,
               (case index_of decoded [58] 0 of
                  None \<Rightarrow> []
                | Some separator \<Rightarrow>
                    if separator = 0 \<or> separator + 1 = length decoded then []
                    else if safeLiteral (drop (separator + 1) decoded) then []
                    else [contextualFinding view (js ''docker_auth'') Password (pv_start parsed) (pv_end parsed)
                            (js ''docker_auth_base64_credentials'')]),
               next))"

definition scanDockerAuth :: "unicode \<Rightarrow> mapped_view \<Rightarrow> decode_budget \<Rightarrow> decode_budget \<times> findings" where
  "scanDockerAuth U view budget =
     exec_each DOCKER_AUTH_ASSIGNMENT (mv_text view) (docker_auth_body U view) 0 budget"

definition scanContextualAssignments ::
  "unicode \<Rightarrow> mapped_view \<Rightarrow> ustring option \<Rightarrow> bool \<Rightarrow> decode_budget \<Rightarrow> decode_budget \<times> findings" where
  "scanContextualAssignments U view languageId allowStructuredDecoding budget =
     (let found =
        concat (map (\<lambda>pattern. scanAssignmentPattern U view pattern languageId)
                  [PlainAssignment, IndexedEnv, PowershellEnv, CliArgument, FunctionEnv, NpmAuthToken]) @
        scanCookieCredentials view @ scanBasicAuthArguments view
      in if allowStructuredDecoding
         then (case scanDockerAuth U view budget of (budget, docker) \<Rightarrow> (budget, found @ docker))
         else (budget, found))"

section \<open>Entropy\<close>

definition UUID :: regexp where
  "UUID = re ''^[0-9a-fA-F]{8}-[0-9a-fA-F]{4}-[1-5][0-9a-fA-F]{3}-[89abAB][0-9a-fA-F]{3}-[0-9a-fA-F]{12}$'' ''''"

definition SUBRESOURCE_DIGEST :: regexp where
  "SUBRESOURCE_DIGEST = re ''^sha(?:256|384|512)-[A-Za-z0-9+/]+={0,2}$'' ''i''"

definition ULID :: regexp where
  "ULID = re ''^[0-9A-HJKMNP-TV-Z]{26}$'' ''''"

definition PUBLIC_IDENTIFIER :: regexp where
  "PUBLIC_IDENTIFIER = re ''^(?:pk_(?:live|test)_|acct_|cus_|price_|prod_|pi_)[A-Za-z0-9_-]+$'' ''''"

definition TOOL_CALL :: regexp where
  "TOOL_CALL = re ''^(?:srv)?toolu_[A-Za-z0-9]{24}$'' ''''"

definition REDACTED_NAME :: regexp where
  "REDACTED_NAME = re ''^REDACTED_[A-Za-z0-9_]+$'' ''''"

definition MODULE_PATH :: regexp where
  "MODULE_PATH = re ''^(?:~/|node_modules~/)[A-Za-z0-9._/-]+$'' ''''"

definition entropyExcluded :: "ustring \<Rightarrow> bool" where
  "entropyExcluded value \<longleftrightarrow>
     value = js ''ABCDEFGHIJKLMNOPQRSTUVWXYZabcdefghijklmnopqrstuvwxyz0123456789+/'' \<or>
     rx_test UUID value \<or>
     (rx_test HEX_ONLY value \<and> length value \<in> {32, 40, 64, 96, 128}) \<or>
     rx_test SUBRESOURCE_DIGEST value \<or> rx_test ULID value \<or> rx_test PUBLIC_IDENTIFIER value \<or>
     rx_test TOOL_CALL value \<or> rx_test REDACTED_NAME value \<or> rx_test MODULE_PATH value \<or> safeLiteral value"

definition ENVIRONMENT_PATH :: regexp where
  "ENVIRONMENT_PATH = re ''^[A-Za-z_][A-Za-z0-9_]*~/[A-Za-z0-9._/-]+$'' ''''"

definition isShellEnvironmentPath :: "unicode \<Rightarrow> ustring \<Rightarrow> nat \<Rightarrow> ustring \<Rightarrow> bool" where
  "isShellEnvironmentPath U text start value \<longleftrightarrow>
     ((0 < start \<and> unit_at text (start - 1) = Some 36) \<or>
      uc_lower U (js_slice text (start - 5) start) = js ''$env:'') \<and>
     rx_test ENVIRONMENT_PATH value"

definition entropy_body :: "unicode \<Rightarrow> mapped_view \<Rightarrow> rx_found \<Rightarrow> findings" where
  "entropy_body U view m =
     (let value = matched (mv_text view) m in
      if entropyExcluded value \<or> isShellEnvironmentPath U (mv_text view) (fst m) value \<or> \<not> hasStrongEntropy value
      then []
      else [view_finding view (js ''high_entropy'') HighEntropy (fst m) (fst m + length value)
              (35 - (if mv_encoding view = EncNormalized then 0 else encodingPenalty (mv_encoding view)))
              ([js ''high_entropy_shape'', js ''unanchored_entropy_is_warning_only''] @
               (if mv_encoding view = EncNormalized then [js ''unicode_normalization''] else []))])"

definition scanEntropy :: "unicode \<Rightarrow> mapped_view \<Rightarrow> findings" where
  "scanEntropy U view = concat (map (entropy_body U view) (rx_all ENTROPY_TOKEN (mv_text view) 0))"

section \<open>The engine\<close>

definition builtin_engine :: "unicode \<Rightarrow> url_parser \<Rightarrow> rule_engine" where
  "builtin_engine U url =
     \<lparr>re_fixed = scanFixedRules,
      re_contextual = scanContextualAssignments U,
      re_urls = scanCredentialUrls url,
      re_entropy = scanEntropy U\<rparr>"

end
