(* ===== verification/Scanner_Engine.thy ===== *)
theory Scanner_Engine
  imports Scanner_Correct
begin

text \<open>
  What the scanner relies on in its built-in rules, as an interface: every detector scores its
  findings at 30 or more, and the fixed formats report something on a text that holds a secret of
  theirs.  The clients' lemmas follow in the locale: no step of the scanner brings a finding below
  the warning threshold, so a text is allowed only when nothing at all was found in it, and a text
  with a secret is never allowed.
\<close>

section \<open>Scanning steps that keep a property of the findings\<close>

definition yields :: "(internal_finding \<Rightarrow> bool) \<Rightarrow> internal_finding list scanner \<Rightarrow> bool" where
  "yields P m \<longleftrightarrow> (\<forall>st st' ys. m st = (st', Some ys) \<longrightarrow> list_all P ys)"

definition keeps :: "(internal_finding \<Rightarrow> bool) \<Rightarrow> (internal_finding list \<Rightarrow> internal_finding list scanner) \<Rightarrow> bool" where
  "keeps P f \<longleftrightarrow> (\<forall>acc st st' ys. f acc st = (st', Some ys) \<longrightarrow> list_all P acc \<longrightarrow> list_all P ys)"

lemma keeps_return: "keeps P s_return"
  by (simp add: keeps_def)

lemma keeps_bind: "(\<And>x. keeps P (g x)) \<Longrightarrow> keeps P (\<lambda>acc. s_bind m (\<lambda>x. g x acc))"
  unfolding keeps_def s_bind_Some by blast

lemma keeps_compose: "keeps P f \<Longrightarrow> keeps P g \<Longrightarrow> keeps P (\<lambda>acc. s_bind (f acc) g)"
  unfolding keeps_def s_bind_Some by blast

lemma yields_bind: "(\<And>x. yields P (g x)) \<Longrightarrow> yields P (s_bind m g)"
  unfolding yields_def s_bind_Some by blast

lemma yields_then: "yields P m \<Longrightarrow> keeps P g \<Longrightarrow> yields P (s_bind m g)"
  unfolding yields_def keeps_def s_bind_Some by blast

lemma yields_keeps: "keeps P f \<Longrightarrow> yields P (f [])"
  by (simp add: keeps_def yields_def)

lemma yields_null: "yields P s_null"
  by (simp add: yields_def)

lemma yields_return: "list_all P xs \<Longrightarrow> yields P (s_return xs)"
  by (simp add: yields_def)

lemma yields_decode: "(\<And>b. list_all P (snd (f b))) \<Longrightarrow> yields P (s_decode f)"
  by (auto simp: yields_def s_decode_def split: prod.splits) (metis snd_conv)

lemma keeps_append_each:
  assumes "\<And>v. yields P (f v)"
  shows "keeps P (append_each f vs)"
proof (induction vs)
  case Nil
  have "append_each f [] = s_return" by (rule ext) simp
  then show ?case by (simp add: keeps_return)
next
  case (Cons v vs)
  show ?case
    unfolding keeps_def
  proof (intro allI impI)
    fix acc st st' ys
    assume "append_each f (v # vs) acc st = (st', Some ys)" and acc: "list_all P acc"
    then obtain st1 found where found: "f v st = (st1, Some found)"
      and later: "append_each f vs (acc @ found) st1 = (st', Some ys)"
      by (auto simp: s_bind_Some appendBounded_Some)
    from found assms have "list_all P found" unfolding yields_def by blast
    with Cons later acc show "list_all P ys" unfolding keeps_def by (metis list_all_append)
  qed
qed

lemma keeps_fixed_windows:
  assumes "\<And>v. yields P (f v)"
  shows "keeps P (fixed_windows f views)"
proof (induction views)
  case Nil
  have "fixed_windows f [] = s_return" by (rule ext) simp
  then show ?case by (simp add: keeps_return)
next
  case (Cons view views)
  show ?case
    unfolding fixed_windows.simps(2) [THEN ext]
    by (intro keeps_bind keeps_compose keeps_append_each assms Cons)
qed

lemma scanDetectors_parts:
  assumes "scanDetectors E view entropy languageId allow st = (st', Some ys)"
  shows "\<exists>b b'. ys = snd (re_fixed E view allow b) @ re_urls E view @
      snd (re_contextual E view languageId allow b') @ (if entropy then re_entropy E view else [])"
  using assms
  by (auto simp: scanDetectors_def s_bind_Some s_decode_def s_exhausted_def split: prod.splits if_splits)
    (metis append_Nil2 snd_conv)+

section \<open>The interface\<close>

definition scored :: "internal_finding \<Rightarrow> bool" where
  "scored f \<longleftrightarrow> 30 \<le> fi_score f \<and> fi_score f \<le> 100"

definition alarming :: "internal_finding \<Rightarrow> bool" where
  "alarming f \<longleftrightarrow> 25 \<le> fi_score f"

locale scored_engine =
  fixes E :: rule_engine
  assumes fixed_scored: "list_all scored (snd (re_fixed E view allow budget))"
    and contextual_scored: "list_all scored (snd (re_contextual E view languageId allow budget))"
    and urls_scored: "list_all scored (re_urls E view)"
    and entropy_scored: "list_all scored (re_entropy E view)"
begin

lemma detectors_scored: "yields scored (scanDetectors E view entropy languageId allow)"
  unfolding yields_def
proof (intro allI impI)
  fix st st' ys
  assume "scanDetectors E view entropy languageId allow st = (st', Some ys)"
  then obtain b b' where "ys = snd (re_fixed E view allow b) @ re_urls E view @
      snd (re_contextual E view languageId allow b') @ (if entropy then re_entropy E view else [])"
    using scanDetectors_parts by blast
  then show "list_all scored ys"
    by (simp add: fixed_scored contextual_scored urls_scored entropy_scored)
qed

lemma scored_alarming: "yields scored m \<Longrightarrow> yields alarming m"
  unfolding yields_def by (auto simp: list_all_iff scored_def alarming_def) fastforce

lemma decoded_scored: "yields scored (scanDecodedText U E decoded)"
  unfolding scanDecodedText_def Let_def
  by (intro yields_then yields_keeps keeps_append_each detectors_scored keeps_fixed_windows
      yields_decode fixed_scored)

lemma base64_alarming:
  assumes "list_all scored inner"
  shows "list_all alarming (map (base64_finding sourceRange) inner)"
  proof -
  have "boundedScore (Finite (of_int (fi_score f - 5))) = max 0 (min 100 (fi_score f - 5))" for f :: internal_finding
    by (rule boundedScore_of_int)
  with assms show ?thesis
    by (auto simp: list_all_iff alarming_def scored_def base64_finding_def simp del: of_int_diff boundedScore.simps)
qed

lemma base64_pass_alarming: "keeps alarming (base64_pass U E view candidates)"
  unfolding keeps_def
proof (intro allI impI)
  fix acc st st' ys
  assume "base64_pass U E view candidates acc st = (st', Some ys)" and "list_all alarming acc"
  then show "list_all alarming ys"
  proof (induction candidates arbitrary: acc st)
    case Nil
    then show ?case by simp
  next
    case (Cons c candidates)
    obtain i j where c: "c = (i, j)" by (cases c)
    let ?payload = "js_slice (mv_text view) i j" and ?range = "mapRange view i j"
    obtain budget decoded where d: "decodeBase64Budgeted ?payload 16384 (ss_decode st) = (budget, decoded)"
      by fastforce
    define st1 where "st1 = st\<lparr>ss_seen := ?range # ss_seen st, ss_decode := budget\<rparr>"
    from Cons.prems(1) consider (skip) st2 where "base64_pass U E view candidates acc st2 = (st', Some ys)"
      | (inner) s where "s_bind (scanDecodedText U E s)
          (\<lambda>inner. base64_pass U E view candidates (acc @ map (base64_finding ?range) inner)) st1 = (st', Some ys)"
      by (auto simp: c d st1_def Let_def split: if_splits option.splits)
    then show ?case
    proof cases
      case skip
      with Cons.IH Cons.prems(2) show ?thesis by blast
    next
      case inner
      then obtain st2 found where found: "scanDecodedText U E s st1 = (st2, Some found)"
        and later: "base64_pass U E view candidates (acc @ map (base64_finding ?range) found) st2 = (st', Some ys)"
        unfolding s_bind_Some by blast
      from found decoded_scored [of U s] have "list_all scored found" unfolding yields_def by blast
      then have "list_all alarming (acc @ map (base64_finding ?range) found)"
        using Cons.prems(2) base64_alarming by simp
      with later Cons.IH show ?thesis by blast
    qed
  qed
qed

lemma base64_candidates_alarming: "yields alarming (scanBase64Candidates U E view)"
  unfolding scanBase64Candidates_def by (rule yields_keeps) (rule base64_pass_alarming)

lemma fixed_step_alarming:
  "yields alarming (s_bind (s_decode (re_fixed E v allow)) (\<lambda>found.
     s_bind s_exhausted (\<lambda>exhausted. if exhausted then s_null else s_return found)))"
proof (rule scored_alarming, unfold yields_def, intro allI impI)
  fix st st' ys
  assume "s_bind (s_decode (re_fixed E v allow)) (\<lambda>found.
     s_bind s_exhausted (\<lambda>exhausted. if exhausted then s_null else s_return found)) st = (st', Some ys)"
  then obtain b where "ys = snd (re_fixed E v allow b)"
    by (auto simp: s_bind_Some s_decode_def s_exhausted_def split: prod.splits if_splits) (metis snd_conv)
  then show "list_all scored ys" by (simp add: fixed_scored)
qed

lemma view_passes_alarming: "keeps alarming (view_passes U E views)"
proof (induction views)
  case Nil
  have "view_passes U E [] = s_return" by (rule ext) simp
  then show ?case by (simp add: keeps_return)
next
  case (Cons view views)
  show ?case
    unfolding view_passes.simps(2) [THEN ext]
    by (intro keeps_bind keeps_compose keeps_append_each fixed_step_alarming base64_candidates_alarming Cons)
qed

lemma collected_alarming:
  assumes "collectFindings env content languageId = Some fs" and "se_engine env = E"
  shows "list_all alarming fs"
proof -
  let ?steps = "s_bind (append_each (\<lambda>view. scanDetectors E view True languageId True)
       (first_views (se_unicode env) content @ transformedTextViews (se_unicode env) (canonical_view (se_unicode env) content)) [])
     (view_passes (se_unicode env) E (canonical_view (se_unicode env) content #
        transformedTextViews (se_unicode env) (canonical_view (se_unicode env) content)))"
  have "yields alarming ?steps"
    by (intro yields_then yields_keeps keeps_append_each scored_alarming detectors_scored view_passes_alarming)
  moreover obtain st' raw where "?steps new_scan_state = (st', Some raw)" and fs: "fs = dedupeOverlaps (se_collate env) raw"
    using assms by (auto simp: collectFindings_def Let_def) (metis prod.collapse)
  ultimately have raw: "list_all alarming raw" unfolding yields_def by blast
  show ?thesis
    unfolding list_all_iff
  proof
    fix k assume "k \<in> set fs"
    then obtain f where "f \<in> set raw" "same_explanation k f" using dedupe_explains fs by blast
    with raw show "alarming k" by (auto simp: list_all_iff alarming_def same_explanation_def)
  qed
qed

text \<open>Nothing is allowed with a finding in it.\<close>

lemma approved_clean:
  assumes "se_engine env = E" and "approved (fst (scan env input))"
  shows "sr_findings (fst (scan env input)) = []"
proof (rule scan_cases [of env input])
  fix n k assume "fst (scan env input) = failedResult n k"
  with assms(2) show ?thesis by (simp add: approved_def)
next
  fix content n fs custom
  assume fs: "collectFindings env content (si_languageId input) = Some fs"
    and r: "fst (scan env input) = successfulResult content n fs custom"
  let ?r = "successfulResult content n fs custom"
  have "25 \<le> fd_score f" if "f \<in> set (sr_findings ?r)" for f
    using that collected_alarming [OF fs assms(1)]
    by (auto simp: successful_fields(5) list_all_iff alarming_def builtin_finding_def customFinding_def
        CUSTOM_BLOCK_SCORE_def CUSTOM_WARN_SCORE_def Let_def simp del: boundedScore.simps)
  moreover have "max_score (sr_findings ?r) < 25"
    using assms(2) by (auto simp: approved_def r successful_fields(1-4) decision_of_score of_int_less_numeral_iff split: if_splits)
  ultimately show ?thesis
    unfolding r using max_score_ge by (metis le_less_trans linorder_not_less list.set_intros(1) neq_Nil_conv)
qed

end

text \<open>An engine whose fixed formats recognise some texts.\<close>

locale secret_engine = scored_engine +
  fixes secret :: "ustring \<Rightarrow> bool"
  assumes secret_found: "secret s \<Longrightarrow> snd (re_fixed E (identityView s) True budget) \<noteq> []"
begin

lemma approved_without_secret:
  assumes "se_engine env = E" and "si_content input = Some content" and "approved (fst (scan env input))"
  shows "\<not> secret content"
proof
  assume secret: "secret content"
  from approved_clean [OF assms(1,3)] have clean: "sr_findings (fst (scan env input)) = []" .
  show False
  proof (rule scan_cases [of env input])
    fix n k assume "fst (scan env input) = failedResult n k"
    with assms(3) show False by (simp add: approved_def)
  next
    fix content' n fs custom
    assume c: "si_content input = Some content'" and fs: "collectFindings env content' (si_languageId input) = Some fs"
      and r: "fst (scan env input) = successfulResult content' n fs custom"
    from c assms(2) have [simp]: "content' = content" by simp
    from fs obtain ds raw where
      ds: "snd (scanDetectors (se_engine env) (identityView content) True (si_languageId input) True new_scan_state) = Some ds"
      and raw: "fs = dedupeOverlaps (se_collate env) raw" "set ds \<subseteq> set raw"
      by (rule collectFindings_Some) simp
    from ds assms(1) obtain st' where "scanDetectors E (identityView content) True (si_languageId input) True new_scan_state = (st', Some ds)"
      by (metis prod.collapse)
    from scanDetectors_parts [OF this] obtain b where
      "set (snd (re_fixed E (identityView content) True b)) \<subseteq> set ds" by fastforce
    with secret_found [OF secret, of b] have "ds \<noteq> []" by auto
    with raw have "raw \<noteq> []" by auto
    then have "fs \<noteq> []" unfolding raw(1) by (rule dedupe_starts_nonempty)
    then have "builtin_finding (hd fs) (createSpanFactory content') \<in> set (sr_findings (successfulResult content' n fs custom))"
      unfolding successful_fields(5) by (intro UnI1 imageI) simp
    with clean show False unfolding r by simp
  qed
qed

lemma sanitized_without_secret:
  assumes "se_engine env = E" and "si_content input = Some content" and "sz_content (redactAndRescan env input) \<noteq> []"
  shows "\<not> secret (sz_content (redactAndRescan env input)) \<and> sr_findings (sz_final (redactAndRescan env input)) = []"
proof (rule redactAndRescan_cases [of env input])
  assume "sz_content (redactAndRescan env input) = []"
  with assms(3) show ?thesis by simp
next
  fix neutral meter
  assume f: "sz_final (redactAndRescan env input) =
         fst (scan env (input\<lparr>si_content := Some (sz_content (redactAndRescan env input)), si_workMeter := meter\<rparr>))"
    and a: "approved (sz_final (redactAndRescan env input))"
  show ?thesis
    using approved_without_secret [OF assms(1) _ a [unfolded f]] approved_clean [OF assms(1) a [unfolded f]] f by simp
qed

end

end
