(* ===== verification/Rules_Ranges.thy ===== *)
theory Rules_Ranges
  imports Rules_Correct
begin

text \<open>
  The ranges of the built-in findings: the value parsed after an assignment lies in the text, every
  syntax of a value included, and so does whatever a detector reports, in every view of the text.
\<close>

section \<open>The value of an assignment\<close>

definition parsed_within :: "ustring \<Rightarrow> nat \<Rightarrow> parsed_value \<Rightarrow> bool" where
  "parsed_within text start p \<longleftrightarrow> start \<le> pv_start p \<and> pv_start p \<le> pv_end p \<and> pv_end p \<le> length text"

lemma parsed_slice_within:
  "start \<le> i \<Longrightarrow> i \<le> j \<Longrightarrow> j \<le> length text \<Longrightarrow> parsed_within text start (parsed_slice text i j kind)"
  by (simp add: parsed_within_def parsed_slice_def)

lemma skip_blanks_bounds: "i \<le> length text \<Longrightarrow> i \<le> skip_blanks text i \<and> skip_blanks text i \<le> length text"
  using length_takeWhile_le [of is_blank "drop i text"] by (simp add: skip_blanks_def)

lemma span_until_bounds: "i \<le> length text \<Longrightarrow> i \<le> span_until stop text i \<and> span_until stop text i \<le> length text"
  using length_takeWhile_le [of "\<lambda>c. \<not> stop c" "drop i text"] by (simp add: span_until_def)

lemma trim_back_bounds: "i \<le> j \<Longrightarrow> i \<le> trim_back p text i j \<and> trim_back p text i j \<le> j"
  using length_dropWhile_le [of p "rev (js_slice text i j)"] by (auto simp: trim_back_def js_slice_def)

lemma index_of_bound: "index_of s p i = Some k \<Longrightarrow> p \<noteq> [] \<Longrightarrow> i \<le> k \<and> k + length p \<le> length s"
  using index_of_Some(1,2) starts_at_bound by blast

lemma or_length_bounds: "i \<le> length text \<Longrightarrow> p \<noteq> [] \<Longrightarrow> i \<le> or_length text (index_of text p i) \<and> or_length text (index_of text p i) \<le> length text"
  by (auto simp: or_length_def dest: index_of_bound split: option.splits)

lemma escaped_close_bounds: "i \<le> escaped_close d cs i e \<and> escaped_close d cs i e \<le> i + length cs"
proof (induction cs arbitrary: i e)
  case (Cons c cs)
  from Cons [of "i + 1" "c = 92 \<and> \<not> e"] show ?case by auto
qed simp

lemma doubled_close_bounds: "i \<le> doubled_close cs i \<and> doubled_close cs i \<le> i + length cs"
  by (induction cs i rule: doubled_close.induct) auto

lemma sticky_bounds:
  assumes "rx_sticky R s i = Some m" and "i \<le> length s"
  shows "i \<le> fst (snd m)" "fst (snd m) \<le> length s"
proof -
  obtain a j caps where m: "m = (a, j, caps)" by (cases m) auto
  from rx_sticky_Some [OF assms(1) [unfolded m]] have "rx_match (rx_env_of R s) (rx_ast R) (i, []) (j, caps)" by simp
  from rx_match_bounds(1) [OF this] assms(2) m show "i \<le> fst (snd m)" "fst (snd m) \<le> length s" by auto
qed

lemma yaml_block_end_bounds: "i \<le> length text \<Longrightarrow> i \<le> yaml_block_end text k i \<and> yaml_block_end text k i \<le> length text"
proof (induction "text" k i rule: yaml_block_end.induct)
  case (1 t k i)
  define j where "j = (case index_of t [10] i of None \<Rightarrow> length t | Some l \<Rightarrow> l + 1)"
  have j: "i \<le> j" "j \<le> length t"
    using "1.prems" by (auto simp: j_def dest: index_of_bound split: option.splits)
  have rec: "i \<le> yaml_block_end t k j \<and> yaml_block_end t k j \<le> length t"
    if "\<not> length t \<le> i" "js_trim (js_slice t i (or_length t (index_of t [10] i))) = [] \<or>
       \<not> length (takeWhile is_blank (js_slice t i (or_length t (index_of t [10] i)))) \<le> k"
    using that "1.IH" [OF that(1) refl refl refl] j unfolding j_def by fastforce
  show ?case
    using rec "1.prems" by (subst (1 2) yaml_block_end.simps) (simp add: Let_def j_def)
qed

lemma regex_close_bounds: "regex_close cs i e c = Some j \<Longrightarrow> i \<le> j \<and> j < i + length cs"
proof (induction cs arbitrary: i e c)
  case (Cons x cs)
  then show ?case by (fastforce split: if_splits)
qed simp

lemma or_else_cases: "or_else x y = Some v \<Longrightarrow> x = Some v \<or> y = Some v"
  by (cases x) auto

text \<open>Each syntax of a value; \<open>start\<close> is where the value begins.\<close>

lemma placeholder_within:
  assumes "delimitedPlaceholder text start o1 c1 = Some p" and "c1 \<noteq> []"
  shows "parsed_within text start p"
proof -
  from assms obtain k where k: "index_of text (js c1) (start + length o1) = Some k"
    and p: "p = parsed_slice text start (k + length c1) PlaceholderValue"
    by (auto simp: delimitedPlaceholder_def split: if_splits option.splits)
  have "js c1 \<noteq> []" "length (js c1) = length c1" using assms(2) by (simp_all add: js_def)
  with index_of_bound [OF k] show ?thesis
    unfolding p by (intro parsed_slice_within) auto
qed

lemma placeholders_within: "placeholder_value text start = Some p \<Longrightarrow> parsed_within text start p"
  by (auto simp: placeholder_value_def dest!: or_else_cases intro: placeholder_within)

lemma from_close:
  assumes "i \<le> length text"
  shows "escaped_close d (drop i text) i e \<le> length text" "i \<le> escaped_close d (drop i text) i e"
    "doubled_close (drop i text) i \<le> length text" "i \<le> doubled_close (drop i text) i"
  using escaped_close_bounds [of i d "drop i text" e] doubled_close_bounds [of i "drop i text"] assms by auto

lemma python_within:
  assumes "python_string text start = Some p" and "start \<le> length text"
  shows "parsed_within text start p"
proof -
  from assms(1) obtain m where m: "rx_sticky PYTHON_STRING_PREFIX text start = Some m"
    by (auto simp: python_string_def split: option.splits)
  with assms(1) sticky_bounds [OF m assms(2)] show ?thesis
    by (auto simp: python_string_def Let_def from_close intro!: parsed_slice_within)
qed

lemma csharp_within:
  assumes "csharp_string text start = Some p" and "start \<le> length text"
  shows "parsed_within text start p"
proof -
  from assms(1) obtain m where m: "rx_sticky CSHARP_STRING_PREFIX text start = Some m"
    by (auto simp: csharp_string_def split: option.splits)
  with assms(1) sticky_bounds [OF m assms(2)] show ?thesis
    by (auto simp: csharp_string_def Let_def from_close intro!: parsed_slice_within)
qed

lemma rust_within:
  assumes "rust_string text start = Some p" and "start \<le> length text"
  shows "parsed_within text start p"
proof -
  from assms(1) obtain m where m: "rx_sticky RUST_RAW_STRING_PREFIX text start = Some m"
    by (auto simp: rust_string_def split: option.splits)
  with assms(1) sticky_bounds [OF m assms(2)] show ?thesis
    by (auto simp: rust_string_def Let_def or_length_bounds intro!: parsed_slice_within)
qed

lemma yaml_within:
  assumes "yaml_block text start = Some p" and "start \<le> length text"
  shows "parsed_within text start p"
proof -
  from assms(1) obtain m where m: "rx_sticky YAML_BLOCK_START text start = Some m"
    by (auto simp: yaml_block_def split: option.splits)
  note b = sticky_bounds [OF m assms(2)]
  from assms(1) m yaml_block_end_bounds [OF b(2)] b(1) assms(2) show ?thesis
    by (auto simp: yaml_block_def Let_def intro!: parsed_slice_within intro: order.trans)
qed

lemma heredoc_within:
  assumes "heredoc text start = Some p" and "start \<le> length text"
  shows "parsed_within text start p"
proof -
  from assms(1) obtain m where m: "rx_sticky HEREDOC_START text start = Some m"
    by (auto simp: heredoc_def split: option.splits)
  note b = sticky_bounds [OF m assms(2)]
  have "fst (snd m) \<le> fst (snd c) \<and> fst (snd c) \<le> length text" if "rx_exec R text (fst (snd m)) = Some c" for R c
  proof -
    obtain x y z where c: "c = (x, y, z)" by (cases c) auto
    from rx_exec_Some(1-3) [OF that [unfolded c]] show ?thesis by (simp add: c)
  qed
  note c = this
  have "start \<le> fst (snd c) \<and> fst (snd c) \<le> length text" if "rx_exec R text (fst (snd m)) = Some c" for R c
    using c [OF that] b by simp
  with assms m b show ?thesis
    by (fastforce simp: heredoc_def Let_def split: option.splits intro!: parsed_slice_within)
qed

lemma triple_within:
  assumes "triple_quoted text start = Some p" and "start \<le> length text"
  shows "parsed_within text start p"
proof -
  from assms(1) have "length (js_slice text start (start + 3)) = 3"
    and p: "p = parsed_slice text (start + 3) (or_length text (index_of text (js_slice text start (start + 3)) (start + 3))) MultilineValue"
    and ne: "js_slice text start (start + 3) \<noteq> []"
    by (auto simp: triple_quoted_def Let_def split: if_splits)
  then have "start + 3 \<le> length text" by (auto simp: js_slice_def)
  from or_length_bounds [OF this ne] show ?thesis unfolding p by (intro parsed_slice_within) auto
qed

lemma regex_within:
  assumes "regex_literal text start = Some p"
  shows "parsed_within text start p"
proof -
  from assms obtain e where e: "regex_close (drop (start + 1) text) (start + 1) False False = Some e"
    and p: "p = parsed_slice text start (span_until (\<lambda>c. \<not> is_regex_flag c) text (e + 1)) RegexValue"
    by (auto simp: regex_literal_def Let_def split: if_splits option.splits)
  from regex_close_bounds [OF e] have "start + 1 \<le> e" "e + 1 \<le> length text" by auto
  with span_until_bounds [of "e + 1" "text" "\<lambda>c. \<not> is_regex_flag c"] show ?thesis
    unfolding p by (intro parsed_slice_within) auto
qed

lemma quoted_within:
  assumes "quoted_value text start = Some p"
  shows "parsed_within text start p"
proof -
  from assms obtain q where "unit_at text start = Some q"
    and p: "p = parsed_slice text (start + 1) (escaped_close [q] (drop (start + 1) text) (start + 1) False) QuotedValue"
    by (auto simp: quoted_value_def split: if_splits option.splits)
  then have "start + 1 \<le> length text" by (auto simp: unit_at_def split: if_splits)
  from from_close(1,2) [OF this, of "[q]" False] show ?thesis
    unfolding p by (intro parsed_slice_within) auto
qed

lemma unquoted_within:
  assumes "unquoted_value U languageId text start = Some p" and "start \<le> length text"
  shows "parsed_within text start p"
proof -
  define v where "v = trim_back is_blank text start (span_until ends_unquoted text start)"
  note s = span_until_bounds [OF assms(2), of ends_unquoted]
  from trim_back_bounds [of start "span_until ends_unquoted text start" is_blank "text"] s
  have v: "start \<le> v" "v \<le> length text" by (auto simp: v_def)
  from or_length_bounds [OF v(2), of "[10]"] have e: "start \<le> or_length text (index_of text [10] v)"
    "or_length text (index_of text [10] v) \<le> length text" using v by auto
  from trim_back_bounds [OF e(1), of "\<lambda>c. c = 13" "text"] e v assms(1) show ?thesis
    by (auto simp: unquoted_value_def Let_def parsed_within_def v_def [symmetric] split: if_splits)
qed

lemma parse_within_blanks:
  assumes "parseAssignmentValue U text offset languageId = Some p" and "offset \<le> length text"
  shows "parsed_within text (skip_blanks text offset) p"
proof -
  define start where "start = skip_blanks text offset"
  from skip_blanks_bounds [OF assms(2)] have s: "offset \<le> start" "start \<le> length text" by (simp_all add: start_def)
  show ?thesis
    unfolding start_def [symmetric]
    using assms(1) s(2)
    by (auto simp: parseAssignmentValue_def Let_def start_def [symmetric] split: if_splits dest!: or_else_cases
        intro: placeholders_within python_within csharp_within rust_within yaml_within heredoc_within triple_within
          regex_within quoted_within unquoted_within)
qed

lemma parse_within:
  assumes "parseAssignmentValue U text offset languageId = Some p" and "offset \<le> length text"
  shows "parsed_within text offset p"
  using parse_within_blanks [OF assms] skip_blanks_bounds [OF assms(2)] by (auto simp: parsed_within_def)

section \<open>Captures\<close>

lemma captures_inside:
  "rx_match E r x y \<Longrightarrow> c \<in> set (snd y) \<Longrightarrow>
     c \<in> set (snd x) \<or> fst x \<le> fst (snd c) \<and> fst (snd c) \<le> snd (snd c) \<and> snd (snd c) \<le> fst y"
  "rx_iterate E a least most x y \<Longrightarrow> c \<in> set (snd y) \<Longrightarrow>
     c \<in> set (snd x) \<or> fst x \<le> fst (snd c) \<and> fst (snd c) \<le> snd (snd c) \<and> snd (snd c) \<le> fst y"
proof (induction rule: rx_match_rx_iterate.inducts)
  case (match_seq E a x y b z)
  with rx_match_bounds(1) [OF match_seq(1)] rx_match_bounds(1) [OF match_seq(2)] show ?case by auto
next
  case (match_capture E a x y n)
  with rx_match_bounds(1) [OF match_capture(1)] show ?case by auto
next
  case (iterate_more most E a x y least z)
  have "fst x \<le> fst y" "fst y \<le> fst z"
    using rx_match_bounds(1) [OF iterate_more(2)] rx_match_bounds(2) [OF iterate_more(4)] by auto
  moreover have "c \<in> set (snd (forget a x)) \<Longrightarrow> c \<in> set (snd x)" by (auto simp: forget_def)
  ultimately show ?case using iterate_more by auto
qed auto

definition proper_match :: "regexp \<Rightarrow> ustring \<Rightarrow> rx_found \<Rightarrow> bool" where
  "proper_match R s m \<longleftrightarrow> fst m \<le> fst (snd m) \<and> fst (snd m) \<le> length s \<and>
     (\<forall>c \<in> set (snd (snd m)). fst m \<le> fst (snd c) \<and> fst (snd c) \<le> snd (snd c) \<and> snd (snd c) \<le> fst (snd m))"

lemma exec_proper: "rx_exec R s i = Some m \<Longrightarrow> proper_match R s m"
proof -
  assume "rx_exec R s i = Some m"
  moreover obtain a b caps where m: "m = (a, b, caps)" by (cases m) auto
  ultimately have e: "rx_exec R s i = Some (a, b, caps)" by simp
  from rx_exec_Some(1-4) [OF e] captures_inside(1) [OF rx_exec_Some(4) [OF e]] show ?thesis
    by (fastforce simp: proper_match_def m)
qed

lemma rx_all_proper: "m \<in> set (rx_all R s i) \<Longrightarrow> proper_match R s m"
proof (induction R s i rule: rx_all.induct)
  case (1 R s i)
  show ?case
  proof (cases "rx_exec R s i")
    case None
    with "1.prems" show ?thesis by (simp add: rx_all.simps [of R s i])
  next
    case (Some m')
    obtain a b caps where m': "m' = (a, b, caps)" by (cases m') auto
    from "1.prems" Some consider "m = m'" | "m \<in> set (rx_all R s (max b (a + 1)))"
      by (auto simp: rx_all.simps [of R s i] m')
    then show ?thesis
      using exec_proper [OF Some] "1.IH" [OF Some [unfolded m'] refl refl] by cases auto
  qed
qed

lemma rx_all_derived:
  "m \<in> set (rx_all R s i) \<Longrightarrow> rx_match (rx_env_of R s) (rx_ast R) (fst m, []) (snd m)"
proof (induction R s i rule: rx_all.induct)
  case (1 R s i)
  show ?case
  proof (cases "rx_exec R s i")
    case None
    with "1.prems" show ?thesis by (simp add: rx_all.simps [of R s i])
  next
    case (Some m')
    obtain a b caps where m': "m' = (a, b, caps)" by (cases m') auto
    from "1.prems" Some consider "m = m'" | "m \<in> set (rx_all R s (max b (a + 1)))"
      by (auto simp: rx_all.simps [of R s i] m')
    then show ?thesis
      using rx_exec_Some(4) [OF Some [unfolded m']] "1.IH" [OF Some [unfolded m'] refl refl] m' by cases auto
  qed
qed

text \<open>A group of a match, found again as the last occurrence of its text, lies in the match.\<close>

lemma last_index_of_bound: "last_index_of s p = Some i \<Longrightarrow> i + length p \<le> length s"
proof -
  assume "last_index_of s p = Some i"
  then have "i \<in> set (filter (starts_at s p) (rev [0 ..< Suc (length s)]))"
    unfolding last_index_of_def
    by (cases "filter (starts_at s p) (rev [0 ..< Suc (length s)])") (simp_all del: upt_Suc)
  then have "starts_at s p i" "i \<le> length s" by (simp_all del: upt_Suc)
  then show ?thesis using starts_at_bound [of s p i] by (cases "p = []") auto
qed

lemma last_index_of_exists: "starts_at s p i \<Longrightarrow> i \<le> length s \<Longrightarrow> last_index_of s p \<noteq> None"
  unfolding last_index_of_def by (auto split: list.splits simp: filter_empty_conv)

lemma part_inside:
  assumes "a \<le> i" and "i \<le> j" and "j \<le> b" and "b \<le> length s"
  shows "case last_index_of (js_slice s a b) (js_slice s i j) of
      None \<Rightarrow> False | Some k \<Rightarrow> a + k + length (js_slice s i j) \<le> b"
proof -
  have "starts_at (js_slice s a b) (js_slice s i j) (i - a)"
    using assms by (auto simp: starts_at_def js_slice_def sublist_at_def drop_take min_def)
  moreover have len: "length (js_slice s a b) = b - a" using assms by (simp add: js_slice_def)
  ultimately have "last_index_of (js_slice s a b) (js_slice s i j) \<noteq> None"
    using assms by (intro last_index_of_exists [of _ _ "i - a"]) auto
  then show ?thesis using last_index_of_bound len assms by (fastforce split: option.splits)
qed

lemma group_inside:
  assumes "proper_match R s m" and "rx_group s m n = Some v"
  shows "last_in_match s m v + length v \<le> fst (snd m)" "fst m \<le> last_in_match s m v"
proof -
  from assms obtain i j where v: "v = js_slice s i j" "fst m \<le> i" "i \<le> j" "j \<le> fst (snd m)"
    by (auto simp: rx_group_def proper_match_def split: if_splits dest!: map_of_SomeD)
  from assms(1) have "fst (snd m) \<le> length s" by (simp add: proper_match_def)
  from part_inside [OF v(2-4) this] show "last_in_match s m v + length v \<le> fst (snd m)"
    by (cases "last_index_of (js_slice s (fst m) (fst (snd m))) (js_slice s i j)")
      (simp_all add: last_in_match_def matched_def v(1))
qed (simp add: last_in_match_def)

section \<open>Ranges of the findings\<close>

definition in_source :: "nat \<Rightarrow> internal_finding \<Rightarrow> bool" where
  "in_source n f \<longleftrightarrow> fi_start f \<le> fi_end f \<and> fi_end f \<le> n"

lemma mapRange_in:
  assumes wf: "view_wf n view" and "i \<le> j" and "j \<le> length (mv_text view)"
  shows "fst (mapRange view i j) \<le> snd (mapRange view i j) \<and> snd (mapRange view i j) \<le> n"
proof (cases "i = j")
  case False
  then have "i < j" using assms(2) by simp
  then have "i \<le> j - 1" "j - 1 < length (mv_text view)" using assms(3) by auto
  from unit_facts [OF wf this] originalBounds_units [OF wf \<open>i < j\<close> assms(3)]
  show ?thesis by (simp add: mapRange_def)
next
  case True
  show ?thesis
    using wf
  proof (rule view_wf_cases)
    assume "mv_starts view = None" "mv_ends view = None" "length (mv_text view) = n"
    with True assms(3) show ?thesis by (simp add: mapRange_def originalBounds_def)
  next
    fix S E
    assume "mv_starts view = Some S" "mv_ends view = Some E" and len: "length S = length (mv_text view)"
      "length E = length (mv_text view)" and b: "\<And>i. i < length (mv_text view) \<Longrightarrow> S ! i < E ! i \<and> E ! i \<le> n"
    moreover have "S ! j \<le> n" if "j < length (mv_text view)"
      using b [OF that] by simp
    ultimately show ?thesis using True assms(3) b [of "i - 1"]
      by (auto simp: mapRange_def originalBounds_def nth_or_def Let_def)
  qed
qed

lemma view_finding_in:
  "view_wf n view \<Longrightarrow> i \<le> j \<Longrightarrow> j \<le> length (mv_text view) \<Longrightarrow> in_source n (view_finding view r t i j score reasons)"
  using mapRange_in [of n view i j] by (simp add: view_finding_def in_source_def split_beta Let_def)

lemma contextualFinding_in:
  "view_wf n view \<Longrightarrow> i \<le> j \<Longrightarrow> j \<le> length (mv_text view) \<Longrightarrow> in_source n (contextualFinding view r t i j reason)"
  by (simp add: contextualFinding_def view_finding_in)

lemma private_keys_in: "view_wf n view \<Longrightarrow> list_all (in_source n) (private_keys view)"
  unfolding private_keys_def
proof (rule exec_each_all)
  fix i m st assume wf: "view_wf n view" and m: "rx_exec PRIVATE_KEY_HEADER (mv_text view) i = Some m"
  from exec_proper [OF m] have b: "fst m \<le> fst (snd m)" "fst (snd m) \<le> length (mv_text view)"
    by (simp_all add: proper_match_def)
  have "key_end_marker (mv_text view) m \<noteq> []" by (simp add: key_end_marker_def js_def)
  with index_of_bound [of "mv_text view" "key_end_marker (mv_text view) m" "fst (snd m)"] b wf
  show "list_all (in_source n) (fst (snd (private_key_body view m st)))"
    by (auto simp: private_key_body_def Let_def intro!: view_finding_in split: option.splits)
qed

lemma capturedRange_in:
  assumes "proper_match R s m"
  shows "fst (capturedRange s m c) \<le> fst (snd (capturedRange s m c))" "fst (snd (capturedRange s m c)) \<le> length s"
proof -
  have whole: "fst m \<le> fst (snd m)" "fst (snd m) \<le> length s" using assms by (simp_all add: proper_match_def)
  have start: "fst (snd (capturedRange s m c)) \<le> fst (snd m)"
  proof (cases "rx_group s m c")
    case (Some v)
    from group_inside(1) [OF assms Some] show ?thesis
      by (simp add: capturedRange_def Some Let_def last_in_match_def matched_def)
  next
    case None
    from part_inside [of "fst m" "fst m" "fst (snd m)" "fst (snd m)" s] whole show ?thesis
      by (cases "last_index_of (js_slice s (fst m) (fst (snd m))) (js_slice s (fst m) (fst (snd m)))")
        (simp_all add: capturedRange_def None Let_def)
  qed
  with whole show "fst (snd (capturedRange s m c)) \<le> length s" by simp
qed (simp add: capturedRange_def Let_def)

lemma fixed_in: "view_wf n view \<Longrightarrow> list_all (in_source n) (snd (scanFixedRules view allow b))"
proof -
  assume wf: "view_wf n view"
  have "list_all (in_source n) (snd (fixed_rules_loop view allow FIXED_RULES b))"
  proof (rule fixed_rules_all)
    fix rule :: fixed_rule and m b assume "m \<in> set (rx_all (fr_pattern rule) (mv_text view) 0)"
    from capturedRange_in [OF rx_all_proper [OF this]] wf
    show "list_all (in_source n) (snd (fixed_rule_body view rule m b))"
      by (simp add: fixed_rule_body_def split_beta view_finding_in)
  qed
  then show ?thesis by (simp add: scanFixedRules_def split_beta private_keys_in [OF wf])
qed

lemma matched_bounds:
  assumes "proper_match R s m"
  shows "fst m + length (matched s m) = fst (snd m)"
  using assms by (auto simp: matched_def js_slice_def proper_match_def)

lemma length_replace_matches:
  "sorted_wrt (\<lambda>m m'. fst (snd m) \<le> fst m') ms \<Longrightarrow> \<forall>m \<in> set ms. i \<le> fst m \<and> fst m \<le> fst (snd m) \<and> fst (snd m) \<le> length s \<Longrightarrow>
   i \<le> length s \<Longrightarrow> i + length (replace_matches s i (\<lambda>_. []) ms) \<le> length s"
proof (induction ms arbitrary: i)
  case (Cons m ms)
  have "fst (snd m) + length (replace_matches s (fst (snd m)) (\<lambda>_. []) ms) \<le> length s"
    using Cons.prems by (intro Cons.IH) auto
  with Cons.prems show ?case by (auto simp: js_slice_def)
qed simp

lemma strip_length: "length (stripTrailingUrlPunctuation s) \<le> length s"
proof -
  have "\<forall>m \<in> set (rx_all TRAILING_PUNCTUATION s 0). 0 \<le> fst m \<and> fst m \<le> fst (snd m) \<and> fst (snd m) \<le> length s"
    using rx_all_proper [of _ TRAILING_PUNCTUATION s 0] by (auto simp: proper_match_def)
  with rx_all_ordered [of TRAILING_PUNCTUATION s 0] length_replace_matches [of "rx_all TRAILING_PUNCTUATION s 0" 0 s]
  show ?thesis by (simp add: stripTrailingUrlPunctuation_def rx_replace_def)
qed

lemma urls_in: "view_wf n view \<Longrightarrow> list_all (in_source n) (scanCredentialUrls url view)"
proof -
  assume wf: "view_wf n view"
  have "list_all (in_source n) (credential_url_body url view m)" if "m \<in> set (rx_all URL_WITH_CREDENTIALS (mv_text view) 0)" for m
  proof -
    note p = rx_all_proper [OF that]
    have "fst m + length (stripTrailingUrlPunctuation (matched (mv_text view) m)) \<le> length (mv_text view)"
      using strip_length [of "matched (mv_text view) m"] matched_bounds [OF p] p by (simp add: proper_match_def)
    with wf show ?thesis
      by (auto simp: credential_url_body_def Let_def intro!: view_finding_in split: option.splits)
  qed
  then show ?thesis by (auto simp: scanCredentialUrls_def list_all_iff)
qed

lemma entropy_in: "view_wf n view \<Longrightarrow> list_all (in_source n) (scanEntropy U view)"
proof -
  assume wf: "view_wf n view"
  have "list_all (in_source n) (entropy_body U view m)" if "m \<in> set (rx_all ENTROPY_TOKEN (mv_text view) 0)" for m
  proof -
    note p = rx_all_proper [OF that]
    with matched_bounds [OF p] wf show ?thesis
      by (auto simp: entropy_body_def Let_def proper_match_def intro!: view_finding_in)
  qed
  then show ?thesis by (auto simp: scanEntropy_def list_all_iff)
qed

lemma assignments_in: "view_wf n view \<Longrightarrow> list_all (in_source n) (scanAssignmentPattern U view p languageId)"
  unfolding scanAssignmentPattern_def
proof (rule exec_each_all)
  fix i m st assume wf: "view_wf n view" and m: "rx_exec (pattern_of p) (mv_text view) i = Some m"
  let ?text = "mv_text view" and ?last = "fst (snd m)"
  have last: "?last \<le> length ?text" using exec_proper [OF m] by (simp add: proper_match_def)
  have "in_source n (view_finding view r t (if hasExpressionTail ?text v then skip_blanks ?text ?last else pv_start v)
      (if hasExpressionTail ?text v then expressionEnd ?text (pv_end v) else pv_end v) sc rs)"
    if v: "parseAssignmentValue U ?text ?last languageId = Some v" for v r t sc rs
  proof -
    have "parsed_within ?text (skip_blanks ?text ?last) v" by (rule parse_within_blanks [OF v last])
    then have b: "skip_blanks ?text ?last \<le> pv_start v" "pv_start v \<le> pv_end v" "pv_end v \<le> length ?text"
      by (simp_all add: parsed_within_def)
    from span_until_bounds [OF b(3)] trim_back_bounds
    have "pv_end v \<le> expressionEnd ?text (pv_end v) \<and> expressionEnd ?text (pv_end v) \<le> length ?text"
      unfolding expressionEnd_def by (meson order.trans)
    with b show ?thesis by (intro view_finding_in [OF wf]) auto
  qed
  then show "list_all (in_source n) (fst (snd (assignment_body U view p languageId m st)))"
    by (auto simp: assignment_body_def Let_def split: option.splits)
qed

lemma cookies_in: "view_wf n view \<Longrightarrow> list_all (in_source n) (scanCookieCredentials view)"
proof -
  assume wf: "view_wf n view"
  let ?text = "mv_text view"
  have "list_all (in_source n) (cookie_body view (last_in_match ?text header line) line cookie)"
    if header: "header \<in> set (rx_all COOKIE_HEADER ?text 0)" and line: "line = group_or_empty ?text header 1"
      and cookie: "cookie \<in> set (rx_all COOKIE_SECRET line 0)" for header line cookie
  proof (cases "rx_group line cookie 2")
    case None
    then show ?thesis by (simp add: cookie_body_def group_or_empty_def)
  next
    case (Some v)
    from group_inside [OF rx_all_proper [OF cookie] Some] rx_all_proper [OF cookie]
    have v: "last_in_match line cookie v + length v \<le> length line" by (simp add: proper_match_def)
    show ?thesis
    proof (cases "rx_group ?text header 1")
      case None
      then have "line = []" by (simp add: line group_or_empty_def)
      moreover from this v have "v = []" by simp
      ultimately show ?thesis using Some by (simp add: cookie_body_def group_or_empty_def Let_def)
    next
      case l: (Some l)
      then have "l = line" by (simp add: line group_or_empty_def)
      from group_inside(1) [OF rx_all_proper [OF header] l] rx_all_proper [OF header] v \<open>l = line\<close>
      have "last_in_match ?text header line + last_in_match line cookie v + length v \<le> length ?text"
        by (simp add: proper_match_def)
      with wf show ?thesis
        by (auto simp: cookie_body_def group_or_empty_def Some Let_def add.assoc intro!: contextualFinding_in)
    qed
  qed
  then show ?thesis by (auto simp: scanCookieCredentials_def cookie_header_body_def list_all_iff Let_def)
qed

text \<open>The credential of a basic authentication argument is the text from its second group to its
  third.\<close>

lemma basic_auth_ast:
  "\<exists>A1 A2 A3 q g2 g3. rx_ast BASIC_AUTH_ARGUMENT = RSeq A1 (RSeq A2 (RSeq A3 (RSeq (RCapture 1 q) (RSeq (RCapture 2 g2)
     (RSeq (RSet False [Single 58]) (RSeq (RCapture 3 g3) (RSeq (RBack 1) REmpty)))))))
   \<and> captures_in g2 = [] \<and> captures_in g3 = []"
  by (simp add: BASIC_AUTH_ARGUMENT_def regexp_eval)

lemma no_captures:
  "rx_match E r x y \<Longrightarrow> captures_in r = [] \<Longrightarrow> snd y = snd x"
  "rx_iterate E a least most x y \<Longrightarrow> captures_in a = [] \<Longrightarrow> snd y = snd x"
  by (induction rule: rx_match_rx_iterate.inducts) (auto simp: forget_def)

lemma capture_parts:
  assumes "rx_match E (RCapture n g) x y" and "captures_in g = []"
  shows "y = (fst y, (n, fst x, fst y) # snd x)" and "fst x \<le> fst y"
proof -
  from assms(1) obtain w where w: "rx_match E g x w" "y = (fst w, (n, fst x, fst w) # snd w)"
    by (auto simp: rx_match_simps(5))
  from no_captures(1) [OF w(1) assms(2)] rx_match_bounds(1) [OF w(1)] w(2)
  show "y = (fst y, (n, fst x, fst y) # snd x)" "fst x \<le> fst y" by auto
qed

inductive_cases rx_match_seqE: "rx_match E (RSeq a b) x z"

lemma basic_auth_shape:
  assumes "rx_match E (rx_ast BASIC_AUTH_ARGUMENT) (i, []) (j, caps)"
  obtains a b c rest where "caps = (3, b + 1, c) # (2, a, b) # rest" "i \<le> a" "a \<le> b" "b + 1 \<le> c" "c \<le> j"
    "b < length (xe_text E)" "xe_text E ! b = 58"
proof -
  obtain A1 A2 A3 q g2 g3 where ast: "rx_ast BASIC_AUTH_ARGUMENT = RSeq A1 (RSeq A2 (RSeq A3 (RSeq (RCapture 1 q) (RSeq (RCapture 2 g2)
     (RSeq (RSet False [Single 58]) (RSeq (RCapture 3 g3) (RSeq (RBack 1) REmpty)))))))"
    and g: "captures_in g2 = []" "captures_in g3 = []"
    using basic_auth_ast by blast
  from assms(1) [unfolded ast] obtain y1 y2 y3 y4 y5 y6 y7 y8 where m:
    "rx_match E A1 (i, []) y1" "rx_match E A2 y1 y2" "rx_match E A3 y2 y3" "rx_match E (RCapture 1 q) y3 y4"
    "rx_match E (RCapture 2 g2) y4 y5" "rx_match E (RSet False [Single 58]) y5 y6" "rx_match E (RCapture 3 g3) y6 y7"
    "rx_match E (RBack 1) y7 y8" "rx_match E REmpty y8 (j, caps)"
    by (elim rx_match_seqE) (rule that)
  note y5 = capture_parts [OF m(5) g(1)] and y7 = capture_parts [OF m(7) g(2)]
  have y6: "y6 = (fst y5 + 1, snd y5)" "fst y5 < length (xe_text E)"
      "set_has (xe_icase E) False [Single 58] (xe_text E ! fst y5)"
    using m(6) by (simp_all add: rx_match_simps(2))
  have "fst y7 \<le> fst y8" using rx_match_bounds(1) [OF m(8)] by simp
  moreover from m(8) have "snd y8 = snd y7" by (auto simp: rx_match_simps(6))
  moreover from m(9) have "y8 = (j, caps)" by (simp add: rx_match_simps(1))
  moreover have "i \<le> fst y4"
    using rx_match_bounds(1) [OF m(1)] rx_match_bounds(1) [OF m(2)] rx_match_bounds(1) [OF m(3)] rx_match_bounds(1) [OF m(4)]
    by simp
  moreover have "xe_text E ! fst y5 = 58" using y6(3) by (auto simp: set_has_def other_case_def split: if_splits)
  moreover have "caps = (3, fst y5 + 1, fst y7) # (2, fst y4, fst y5) # snd y4"
    using \<open>snd y8 = snd y7\<close> \<open>y8 = (j, caps)\<close> y7(1) y5(1) y6(1) by (metis fst_conv snd_conv)
  ultimately show ?thesis using that [of "fst y5" "fst y7" "fst y4" "snd y4"] y5(2) y7(2) y6 by simp
qed
lemma basic_auth_proper:
  assumes "m \<in> set (rx_all BASIC_AUTH_ARGUMENT s i)"
  obtains a c where "group_or_empty s m 2 @ [58] @ group_or_empty s m 3 = js_slice s a c"
    "fst m \<le> a" "a \<le> c" "c \<le> fst (snd m)"
proof -
  from rx_all_derived [OF assms] obtain b e caps where m: "m = (b, e, caps)"
    and d: "rx_match (rx_env_of BASIC_AUTH_ARGUMENT s) (rx_ast BASIC_AUTH_ARGUMENT) (b, []) (e, caps)"
    by (cases m) auto
  from d obtain x y z rest where c: "caps = (3, y + 1, z) # (2, x, y) # rest" "b \<le> x" "x \<le> y" "y + 1 \<le> z" "z \<le> e"
    "y < length s" "s ! y = 58"
    by (rule basic_auth_shape) simp
  have "js_slice s x y @ js_slice s y (y + 1) @ js_slice s (y + 1) z = js_slice s x z"
    using c by (simp add: js_slice_def sublist_at_append)
  moreover have "js_slice s y (y + 1) = [58]"
    using c(6,7) by (simp add: js_slice_def sublist_at_def take_Suc hd_drop_conv_nth)
  moreover have "rx_group s m 2 = Some (js_slice s x y)" "rx_group s m 3 = Some (js_slice s (y + 1) z)"
    by (simp_all add: rx_group_def m c(1))
  ultimately show ?thesis using c by (intro that [of x z]) (simp_all add: group_or_empty_def m)
qed

lemma basic_auth_in: "view_wf n view \<Longrightarrow> list_all (in_source n) (scanBasicAuthArguments view)"
proof -
  assume wf: "view_wf n view"
  let ?text = "mv_text view"
  have "list_all (in_source n) (basic_auth_body view m)" if m: "m \<in> set (rx_all BASIC_AUTH_ARGUMENT ?text 0)" for m
  proof -
    from basic_auth_proper [OF m] obtain a c where cr: "group_or_empty ?text m 2 @ [58] @ group_or_empty ?text m 3 = js_slice ?text a c"
      "fst m \<le> a" "a \<le> c" "c \<le> fst (snd m)" .
    have e: "fst (snd m) \<le> length ?text" using rx_all_proper [OF m] by (simp add: proper_match_def)
    from part_inside [OF cr(2-4) e]
    have "last_in_match ?text m (js_slice ?text a c) + length (js_slice ?text a c) \<le> length ?text"
      using e by (auto simp: last_in_match_def matched_def split: option.splits)
    with wf show ?thesis
      unfolding basic_auth_body_def Let_def cr(1) by (auto intro!: contextualFinding_in)
  qed
  then show ?thesis by (auto simp: scanBasicAuthArguments_def list_all_iff)
qed

lemma docker_in: "view_wf n view \<Longrightarrow> list_all (in_source n) (snd (scanDockerAuth U view b))"
  unfolding scanDockerAuth_def
proof (rule exec_each_all)
  fix i m st assume wf: "view_wf n view" and m: "rx_exec DOCKER_AUTH_ASSIGNMENT (mv_text view) i = Some m"
  have last: "fst (snd m) \<le> length (mv_text view)" using exec_proper [OF m] by (simp add: proper_match_def)
  have "in_source n (contextualFinding view r t (pv_start v) (pv_end v) reason)"
    if "parseAssignmentValue U (mv_text view) (fst (snd m)) None = Some v" for v r t reason
    using parse_within [OF that last] wf by (auto simp: parsed_within_def intro: contextualFinding_in)
  then show "list_all (in_source n) (fst (snd (docker_auth_body U view m st)))"
    by (auto simp: docker_auth_body_def Let_def split: option.splits prod.splits)
qed

lemma contextual_in: "view_wf n view \<Longrightarrow> list_all (in_source n) (snd (scanContextualAssignments U view languageId allow b))"
  by (simp add: scanContextualAssignments_def Let_def split_beta assignments_in cookies_in basic_auth_in docker_in)

text \<open>C14: Whatever the built-in rules report lies in the text: in every view derived from a text, each
  finding of each detector has a range inside that text, whatever the syntax of the value, the
  placement of the captures or the punctuation stripped from a URL.\<close>

theorem builtin_ranges_in_text:
  assumes "derived_view U' s view"
  shows "list_all (in_source (length s))
    (snd (re_fixed (builtin_engine U url) view allow budget) @
     snd (re_contextual (builtin_engine U url) view languageId allow budget) @
     re_urls (builtin_engine U url) view @ re_entropy (builtin_engine U url) view)"
  using derived_view_wf [OF assms]
  by (simp add: fixed_in contextual_in urls_in entropy_in)

theorem builtin_ranges_in_text_witness:
  "list_all (in_source (length sample_key)) (snd (scanFixedRules (identityView sample_key) True new_decode_budget))"
  using builtin_ranges_in_text [of ascii_unicode sample_key "identityView sample_key" ascii_unicode "\<lambda>_. None" True
      new_decode_budget None]
  by (simp add: derived_view.identity)

end
