(* ===== verification/Audit_Queue.thy ===== *)
theory Audit_Queue
  imports Hook_Policy "HOL-Library.Multiset" "HOL-Library.Sublist"
begin

text \<open>
  The audit queue of the editor extension (vscode/src/gateway-client.ts): the events that
  wait for the platform, at most 1,000 of them, sent in batches of 100 and removed when the
  platform acknowledges every event of the batch.  Enqueuing and flushing are serialised by
  the class's promise chain, so each is one step; what the outside answers to a step (whether
  the save succeeds, which identifiers the platform acknowledges) is an argument of the step.
  A throw is the second component of an action's result: \<open>serial\<close> turns it into the
  status offline.
\<close>

section \<open>Events\<close>

datatype audit_posture_reason = HostPosture posture_reason | ConfigInvalid | HookModified
  | CanaryFailed | RulesPackRejected | RulesPackExpired

datatype event_kind = ScanEvent | ModeChanged | LocalTest | GatewayConfigured | PolicySynced
  | PostureEvent | Heartbeat | RulesPackSynced
datatype event_assistant = Manual | Secretguard | ClaudeAssistant | CodexAssistant | CopilotAssistant
datatype event_mode = BlockMode | RedactMode | ObserveMode
datatype event_outcome = CleanOutcome | BlockedOutcome | RedactedOutcome | WarnedOutcome | PassedOutcome
  | FailedOutcome | ConfiguredOutcome | UnverifiedOutcome

record pending_event =
  pe_kind :: event_kind
  pe_assistant :: event_assistant
  pe_mode :: event_mode
  pe_outcome :: event_outcome
  pe_findings :: int
  pe_posture_reasons :: "audit_posture_reason list option"
  pe_policy_id :: "ustring option"
  pe_policy_version :: "int option"
  pe_runner_version :: "ustring option"
  pe_queue_pending :: "int option"
  pe_rules_pack_id :: "ustring option"
  pe_rules_pack_version :: "int option"
  pe_rules_pack_digest :: "ustring option"
  pe_custom_findings :: "nat option"
  pe_custom_detector_ids :: "ustring list option"

record audit_event = pending_event +
  ev_event_id :: ustring
  ev_at :: ustring
  ev_dropped :: nat

text \<open>\<open>platformCompatibleEvent\<close>: the model of a platform without the tuning contract forbids
  unknown fields, so the tuning's fields, reasons and synchronisation event are left out.\<close>

definition platformCompatibleEvent :: "pending_event \<Rightarrow> bool \<Rightarrow> pending_event option" where
  "platformCompatibleEvent event platformServesRulesPack =
     (if platformServesRulesPack then Some event
      else if pe_kind event = RulesPackSynced then None
      else
        let legacy = event\<lparr>pe_rules_pack_id := None, pe_rules_pack_version := None,
                           pe_rules_pack_digest := None, pe_custom_findings := None,
                           pe_custom_detector_ids := None\<rparr>
        in case pe_posture_reasons legacy of
             None \<Rightarrow> Some legacy
           | Some reasons \<Rightarrow>
               Some (legacy\<lparr>pe_posture_reasons := Some
                 (filter (\<lambda>reason. reason \<noteq> RulesPackRejected \<and> reason \<noteq> RulesPackExpired) reasons)\<rparr>))"

text \<open>A \<open>Set\<close> iterates in the order of first insertion.\<close>

definition set_order :: "'a list \<Rightarrow> 'a list" where
  "set_order xs = rev (remdups (rev xs))"

definition customFindingFields :: "ustring option list \<Rightarrow> nat option \<times> ustring list option" where
  "customFindingFields findings =
     (let custom = List.map_filter id findings in
      if custom = [] then (None, None)
      else (Some (min (length custom) 10000), Some (take 20 (set_order custom))))"

section \<open>The queue\<close>

record queue_state =
  qs_events :: "audit_event list"
  qs_dropped :: nat

datatype sync_status = SyncPending | SyncOk | SyncOffline

record audit_queue = queue_state +
  aq_lastSync :: sync_status

text \<open>What a step asks of the outside: a state to save, a batch to send.\<close>

datatype queue_call = SaveCall queue_state | SendCall "audit_event list"

type_synonym queue_result = "audit_queue \<times> queue_call list \<times> bool"

definition new_audit_queue :: "queue_state \<Rightarrow> audit_queue" where
  "new_audit_queue initial =
     \<lparr>qs_events = qs_events initial, qs_dropped = qs_dropped initial, aq_lastSync = SyncPending\<rparr>"

definition queue_pending :: "audit_queue \<Rightarrow> nat" where
  "queue_pending q = length (qs_events q)"

definition serial :: "(audit_queue \<Rightarrow> queue_result) \<Rightarrow> audit_queue \<Rightarrow> audit_queue \<times> queue_call list" where
  "serial action q =
     (let (q, calls, threw) = action q in (if threw then q\<lparr>aq_lastSync := SyncOffline\<rparr> else q, calls))"

definition saved_state :: "audit_queue \<Rightarrow> queue_state" where
  "saved_state q = \<lparr>qs_events = qs_events q, qs_dropped = qs_dropped q\<rparr>"

definition make_room :: "audit_queue \<Rightarrow> audit_queue" where
  "make_room q =
     (if 1000 \<le> length (qs_events q)
      then q\<lparr>qs_events := tl (qs_events q), qs_dropped := min 1000000000 (qs_dropped q + 1)\<rparr>
      else q)"

text \<open>\<open>{...event, event_id, at, dropped}\<close>.\<close>

definition stamp :: "pending_event \<Rightarrow> ustring \<Rightarrow> ustring \<Rightarrow> nat \<Rightarrow> audit_event" where
  "stamp event event_id at_time lost =
     pending_event.extend event (audit_event.fields event_id at_time lost)"

definition enqueue :: "pending_event \<Rightarrow> ustring \<Rightarrow> ustring \<Rightarrow> bool \<Rightarrow> audit_queue \<Rightarrow> audit_queue \<times> queue_call list" where
  "enqueue event event_id at_time saves =
     serial (\<lambda>q.
       let q = make_room q;
           q = q\<lparr>qs_events := qs_events q @ [stamp event event_id at_time (qs_dropped q)]\<rparr>
       in (q, [SaveCall (saved_state q)], \<not> saves))"

text \<open>\<open>answer\<close> is what \<open>send\<close> resolves to, \<open>None\<close> when it throws.\<close>

definition acknowledges :: "ustring list option \<Rightarrow> audit_event list \<Rightarrow> bool" where
  "acknowledges answer batch =
     (case answer of
        None \<Rightarrow> False
      | Some ids \<Rightarrow> card (set ids) = length batch \<and> list_all (\<lambda>event. ev_event_id event \<in> set ids) batch)"

definition flush :: "ustring list option \<Rightarrow> bool \<Rightarrow> audit_queue \<Rightarrow> audit_queue \<times> queue_call list" where
  "flush answer saves =
     serial (\<lambda>q.
       let batch = take 100 (qs_events q) in
       if batch = [] then (q, [], False)
       else if \<not> acknowledges answer batch then (q, [SendCall batch], True)
       else
         let accepted = (case answer of None \<Rightarrow> {} | Some ids \<Rightarrow> set ids);
             q = q\<lparr>qs_events := filter (\<lambda>event. ev_event_id event \<notin> accepted) (qs_events q)\<rparr>
         in if \<not> saves then (q, [SendCall batch, SaveCall (saved_state q)], True)
            else (q\<lparr>aq_lastSync := SyncOk\<rparr>, [SendCall batch, SaveCall (saved_state q)], False))"

section \<open>The interface of a lossy queue\<close>

text \<open>What the users of the queue rely on, whatever the outside answers: every step only
  removes events at the front (those it hands over and those it gives up) and only adds events
  at the back; a confirmed step hands over a whole batch.\<close>

fun run_steps :: "('q \<Rightarrow> 'a \<Rightarrow> 'q) \<Rightarrow> 'q \<Rightarrow> 'a list \<Rightarrow> 'q" where
  "run_steps step q [] = q"
| "run_steps step q (a # as) = run_steps step (step q a) as"

fun along :: "('q \<Rightarrow> 'a \<Rightarrow> 'q) \<Rightarrow> ('q \<Rightarrow> 'a \<Rightarrow> 'e list) \<Rightarrow> 'q \<Rightarrow> 'a list \<Rightarrow> 'e list" where
  "along step out q [] = []"
| "along step out q (a # as) = out q a @ along step out (step q a) as"

fun along_all :: "('q \<Rightarrow> 'a \<Rightarrow> 'q) \<Rightarrow> ('q \<Rightarrow> 'a \<Rightarrow> bool) \<Rightarrow> 'q \<Rightarrow> 'a list \<Rightarrow> bool" where
  "along_all step ok q [] = True"
| "along_all step ok q (a # as) = (ok q a \<and> along_all step ok (step q a) as)"

lemma run_steps_append [simp]:
  "run_steps step q (as @ bs) = run_steps step (run_steps step q as) bs"
  by (induction as arbitrary: q) auto

lemma along_append:
  "along step out q (as @ bs) = along step out q as @ along step out (run_steps step q as) bs"
  by (induction as arbitrary: q) auto

lemma along_all_append:
  "along_all step ok q (as @ bs) \<longleftrightarrow> along_all step ok q as \<and> along_all step ok (run_steps step q as) bs"
  by (induction as arbitrary: q) auto

locale lossy_queue =
  fixes inv :: "'q \<Rightarrow> bool"
    and ok :: "'q \<Rightarrow> 'a \<Rightarrow> bool"
    and items :: "'q \<Rightarrow> 'e list"
    and step :: "'q \<Rightarrow> 'a \<Rightarrow> 'q"
    and made :: "'q \<Rightarrow> 'a \<Rightarrow> 'e list"
    and acked :: "'q \<Rightarrow> 'a \<Rightarrow> 'e list"
    and lost :: "'q \<Rightarrow> 'a \<Rightarrow> 'e list"
    and confirmed :: "'a \<Rightarrow> 'q \<Rightarrow> bool"
    and cap :: nat
    and batch :: nat
  assumes step_inv: "inv q \<Longrightarrow> ok q a \<Longrightarrow> inv (step q a)"
    and balance: "inv q \<Longrightarrow> ok q a \<Longrightarrow> items q @ made q a = (acked q a @ lost q a) @ items (step q a)"
    and bounded: "inv q \<Longrightarrow> ok q a \<Longrightarrow> length (items (step q a)) \<le> max cap (length (items q))"
    and progress: "inv q \<Longrightarrow> ok q a \<Longrightarrow> confirmed a q \<Longrightarrow> acked q a = take batch (items q)"
begin

definition gone :: "'q \<Rightarrow> 'a \<Rightarrow> 'e list" where
  "gone q a = acked q a @ lost q a"

lemma run_inv: "inv q \<Longrightarrow> along_all step ok q as \<Longrightarrow> inv (run_steps step q as)"
  by (induction as arbitrary: q) (auto simp: step_inv)

lemma run_bounded:
  "inv q \<Longrightarrow> along_all step ok q as \<Longrightarrow> length (items (run_steps step q as)) \<le> max cap (length (items q))"
proof (induction as arbitrary: q)
  case (Cons a as)
  then have "length (items (run_steps step (step q a) as)) \<le> max cap (length (items (step q a)))"
    by (auto simp: step_inv)
  with bounded [of q a] Cons.prems show ?case by simp
qed simp

lemma run_balance:
  "inv q \<Longrightarrow> along_all step ok q as \<Longrightarrow>
   items q @ along step made q as = along step gone q as @ items (run_steps step q as)"
proof (induction as arbitrary: q)
  case (Cons a as)
  have "items q @ along step made q (a # as) = (items q @ made q a) @ along step made (step q a) as"
    by simp
  also have "\<dots> = gone q a @ (items (step q a) @ along step made (step q a) as)"
    using Cons.prems by (simp add: balance gone_def)
  also have "\<dots> = gone q a @ (along step gone (step q a) as @ items (run_steps step (step q a) as))"
    using Cons.prems by (simp add: Cons.IH step_inv)
  finally show ?case by simp
qed simp

lemma gone_split: "mset (along step gone q as) = mset (along step acked q as) + mset (along step lost q as)"
  by (induction as arbitrary: q) (auto simp: gone_def ac_simps)

fun confirmations :: "'q \<Rightarrow> 'a list \<Rightarrow> nat" where
  "confirmations q [] = 0"
| "confirmations q (a # as) = (if confirmed a q then 1 else 0) + confirmations (step q a) as"

lemma gone_length:
  "inv q \<Longrightarrow> along_all step ok q as \<Longrightarrow>
   min (confirmations q as * batch) (length (items q)) \<le> length (along step gone q as)"
proof (induction as arbitrary: q)
  case (Cons a as)
  from Cons.prems have ih: "min (confirmations (step q a) as * batch) (length (items (step q a)))
      \<le> length (along step gone (step q a) as)"
    by (auto simp: step_inv intro: Cons.IH)
  from Cons.prems have len: "length (items q) + length (made q a) = length (gone q a) + length (items (step q a))"
    using arg_cong [OF balance [of q a], of length] by (simp add: gone_def)
  have "min batch (length (items q)) \<le> length (gone q a)" if "confirmed a q"
    using progress [of q a] that Cons.prems by (auto simp: gone_def)
  with ih len show ?case by (auto simp: min_def split: if_splits)
qed simp

text \<open>Liveness: once enough batches are confirmed, whatever was pending has left, in order.\<close>

lemma pending_leave:
  assumes "inv q" and "along_all step ok q as" and "length (items q) \<le> confirmations q as * batch"
  shows "prefix (items q) (along step gone q as)"
proof -
  have "length (items q) \<le> length (along step gone q as)"
    using gone_length [OF assms(1,2)] assms(3) by simp
  then have "items q = take (length (items q)) (along step gone q as)"
    using arg_cong [OF run_balance [OF assms(1,2)], of "take (length (items q))"] by simp
  then show ?thesis by (metis take_is_prefix)
qed

end

section \<open>The audit queue is one\<close>

datatype queue_action =
  Enqueue pending_event ustring ustring bool
| Flush "ustring list option" bool

fun queue_step :: "audit_queue \<Rightarrow> queue_action \<Rightarrow> audit_queue" where
  "queue_step q (Enqueue event event_id at_time saves) = fst (enqueue event event_id at_time saves q)"
| "queue_step q (Flush answer saves) = fst (flush answer saves q)"

text \<open>The ledger of a step: the event it adds, those the platform acknowledged, the one it
  drops for lack of room.\<close>

fun step_made :: "audit_queue \<Rightarrow> queue_action \<Rightarrow> audit_event list" where
  "step_made q (Enqueue event event_id at_time saves) =
     [stamp event event_id at_time (qs_dropped (make_room q))]"
| "step_made q (Flush answer saves) = []"

fun step_acked :: "audit_queue \<Rightarrow> queue_action \<Rightarrow> audit_event list" where
  "step_acked q (Enqueue event event_id at_time saves) = []"
| "step_acked q (Flush answer saves) =
     (if acknowledges answer (take 100 (qs_events q)) then take 100 (qs_events q) else [])"

fun step_lost :: "audit_queue \<Rightarrow> queue_action \<Rightarrow> audit_event list" where
  "step_lost q (Enqueue event event_id at_time saves) =
     (if 1000 \<le> length (qs_events q) then take 1 (qs_events q) else [])"
| "step_lost q (Flush answer saves) = []"

fun step_confirmed :: "queue_action \<Rightarrow> audit_queue \<Rightarrow> bool" where
  "step_confirmed (Enqueue event event_id at_time saves) q = False"
| "step_confirmed (Flush answer saves) q = acknowledges answer (take 100 (qs_events q))"

text \<open>Identifiers come from \<open>randomUUID\<close>: those of the pending events differ, and a new one
  differs from them.\<close>

definition distinct_ids :: "audit_queue \<Rightarrow> bool" where
  "distinct_ids q \<longleftrightarrow> distinct (map ev_event_id (qs_events q))"

fun fresh_id :: "audit_queue \<Rightarrow> queue_action \<Rightarrow> bool" where
  "fresh_id q (Enqueue event event_id at_time saves) \<longleftrightarrow> event_id \<notin> ev_event_id ` set (qs_events q)"
| "fresh_id q (Flush answer saves) \<longleftrightarrow> True"

lemma stamp_id [simp]: "ev_event_id (stamp event event_id at_time lost) = event_id"
  by (simp add: stamp_def pending_event.defs audit_event.defs)

lemma make_room_events:
  "qs_events (make_room q) = (if 1000 \<le> length (qs_events q) then tl (qs_events q) else qs_events q)"
  by (simp add: make_room_def)

lemma enqueue_events:
  "qs_events (fst (enqueue event event_id at_time saves q)) =
     qs_events (make_room q) @ [stamp event event_id at_time (qs_dropped (make_room q))]"
  by (simp add: enqueue_def serial_def Let_def)

lemma acknowledged_ids:
  assumes "acknowledges (Some ids) batch" and "distinct (map ev_event_id batch)"
  shows "set ids = ev_event_id ` set batch"
proof -
  have "card (ev_event_id ` set batch) = length batch"
    using distinct_card [OF assms(2)] by simp
  moreover have "ev_event_id ` set batch \<subseteq> set ids" and "card (set ids) = length batch"
    using assms(1) by (auto simp: acknowledges_def list_all_iff)
  ultimately show ?thesis by (metis List.finite_set card_subset_eq)
qed

lemma filter_batch:
  assumes "distinct (map f xs)"
  shows "filter (\<lambda>x. f x \<notin> f ` set (take n xs)) xs = drop n xs"
proof -
  have "distinct (map f (take n xs @ drop n xs))" using assms by simp
  then have "f x \<notin> f ` set (take n xs)" if "x \<in> set (drop n xs)" for x
    using that by (auto simp del: append_take_drop_id)
  then have "filter (\<lambda>x. f x \<notin> f ` set (take n xs)) (take n xs @ drop n xs) = drop n xs"
    by (auto simp: filter_empty_conv filter_id_conv simp del: append_take_drop_id)
  then show ?thesis by simp
qed

lemma flush_events:
  assumes "distinct_ids q"
  shows "qs_events (fst (flush answer saves q)) =
    (if acknowledges answer (take 100 (qs_events q)) then drop 100 (qs_events q) else qs_events q)"
proof (cases "take 100 (qs_events q) = []")
  case True
  then show ?thesis by (auto simp: flush_def serial_def)
next
  case False
  have ids: "set ids = ev_event_id ` set (take 100 (qs_events q))"
    if "acknowledges (Some ids) (take 100 (qs_events q))" for ids
    using that assms by (intro acknowledged_ids) (auto simp: distinct_ids_def take_map [symmetric])
  show ?thesis
  proof (cases answer)
    case None
    with False show ?thesis by (auto simp: flush_def serial_def acknowledges_def)
  next
    case (Some ids)
    show ?thesis
    proof (cases "acknowledges answer (take 100 (qs_events q))")
      case True
      with False Some show ?thesis
        using ids [of ids] filter_batch [of ev_event_id "qs_events q" 100] assms
        by (simp add: flush_def serial_def distinct_ids_def Let_def)
    qed (use False in \<open>simp add: flush_def serial_def\<close>)
  qed
qed

lemma take_one_tl: "take (Suc 0) xs @ tl xs = xs"
  by (cases xs) auto

lemma tl_member: "x \<in> set (tl xs) \<Longrightarrow> x \<in> set xs"
  by (cases xs) auto

interpretation aq: lossy_queue distinct_ids fresh_id qs_events queue_step step_made step_acked step_lost
  step_confirmed 1000 100
proof
  fix q a assume "distinct_ids q" and "fresh_id q a"
  then show "distinct_ids (queue_step q a)"
    by (cases a) (auto simp: distinct_ids_def enqueue_events flush_events make_room_events
        distinct_tl map_tl drop_map [symmetric] dest: tl_member in_set_dropD)
next
  fix q a assume "distinct_ids q" and "fresh_id q a"
  then show "qs_events q @ step_made q a = (step_acked q a @ step_lost q a) @ qs_events (queue_step q a)"
    by (cases a) (auto simp: enqueue_events flush_events make_room_events take_one_tl append_assoc [symmetric] simp del: append_assoc)
next
  fix q a assume "distinct_ids q" and "fresh_id q a"
  then show "length (qs_events (queue_step q a)) \<le> max 1000 (length (qs_events q))"
    by (cases a) (auto simp: enqueue_events flush_events make_room_events)
next
  fix q a assume "distinct_ids q" and "fresh_id q a" and "step_confirmed a q"
  then show "step_acked q a = take 100 (qs_events q)"
    by (cases a) auto
qed

section \<open>What the queue promises\<close>

definition step_gone :: "audit_queue \<Rightarrow> queue_action \<Rightarrow> audit_event list" where
  "step_gone q a = step_acked q a @ step_lost q a"

fun confirmed_flushes :: "audit_queue \<Rightarrow> queue_action list \<Rightarrow> nat" where
  "confirmed_flushes q [] = 0"
| "confirmed_flushes q (a # as) = (if step_confirmed a q then 1 else 0) + confirmed_flushes (queue_step q a) as"

lemma gone_eq: "aq.gone = step_gone"
  by (simp add: fun_eq_iff step_gone_def aq.gone_def)

lemma confirmations_eq: "aq.confirmations q as = confirmed_flushes q as"
  by (induction as arbitrary: q) auto

text \<open>Histories: the queues the extension can reach from the state it starts with, whatever the
  platform and the storage answer.\<close>

inductive queue_history :: "queue_state \<Rightarrow> queue_action list \<Rightarrow> audit_queue \<Rightarrow> bool" for initial where
  started: "distinct (map ev_event_id (qs_events initial)) \<Longrightarrow> queue_history initial [] (new_audit_queue initial)"
| stepped: "queue_history initial as q \<Longrightarrow> fresh_id q a \<Longrightarrow> queue_history initial (as @ [a]) (queue_step q a)"

inductive_cases stepped_cases: "queue_history initial (as @ [a]) q"

lemma history_run:
  "queue_history initial as q \<Longrightarrow>
   q = run_steps queue_step (new_audit_queue initial) as \<and>
   along_all queue_step fresh_id (new_audit_queue initial) as \<and> distinct_ids (new_audit_queue initial)"
proof (induction rule: queue_history.induct)
  case started
  then show ?case by (simp add: distinct_ids_def new_audit_queue_def)
next
  case (stepped as q a)
  then show ?case by (auto simp: along_all_append)
qed

lemma history_distinct: "queue_history initial as q \<Longrightarrow> distinct_ids q"
  using history_run aq.run_inv by blast

lemma dropped_step:
  "qs_dropped q \<le> 1000000000 \<Longrightarrow>
   qs_dropped (queue_step q a) = min 1000000000 (qs_dropped q + length (step_lost q a))"
proof (cases a)
  case (Flush answer saves)
  then show "qs_dropped q \<le> 1000000000 \<Longrightarrow> ?thesis"
    by (auto simp: flush_def serial_def Let_def)
qed (auto simp: enqueue_def serial_def make_room_def Let_def)

lemma dropped_run:
  "qs_dropped q \<le> 1000000000 \<Longrightarrow>
   qs_dropped (run_steps queue_step q as) = min 1000000000 (qs_dropped q + length (along queue_step step_lost q as))"
proof (induction as arbitrary: q)
  case (Cons a as)
  then have "qs_dropped (run_steps queue_step (queue_step q a) as)
      = min 1000000000 (qs_dropped (queue_step q a) + length (along queue_step step_lost (queue_step q a) as))"
    by (simp add: dropped_step)
  with Cons.prems show ?case by (simp add: dropped_step)
qed simp

text \<open>C10: No audit event disappears and none is sent twice: in every history, the events the
  queue started with and those enqueued are, in this order, the ones that left (each
  acknowledged by the platform or given up for lack of room) followed by the pending ones;
  the events given up are counted (up to a ceiling of 10^9), and never more than 1,000 events
  are pending, or as many as the restored state held.\<close>

theorem audit_ledger:
  assumes "queue_history initial as q" and "qs_dropped initial \<le> 1000000000"
  shows "qs_events initial @ along queue_step step_made (new_audit_queue initial) as
           = along queue_step step_gone (new_audit_queue initial) as @ qs_events q \<and>
         mset (along queue_step step_gone (new_audit_queue initial) as)
           = mset (along queue_step step_acked (new_audit_queue initial) as)
             + mset (along queue_step step_lost (new_audit_queue initial) as) \<and>
         qs_dropped q = min 1000000000
           (qs_dropped initial + length (along queue_step step_lost (new_audit_queue initial) as)) \<and>
         queue_pending q \<le> max 1000 (length (qs_events initial))"
proof -
  have start: "qs_events (new_audit_queue initial) = qs_events initial"
    "qs_dropped (new_audit_queue initial) = qs_dropped initial"
    by (simp_all add: new_audit_queue_def)
  from history_run [OF assms(1)] have run: "q = run_steps queue_step (new_audit_queue initial) as"
    "along_all queue_step fresh_id (new_audit_queue initial) as" "distinct_ids (new_audit_queue initial)"
    by auto
  show ?thesis
    using aq.run_balance [OF run(3,2)] aq.gone_split [of "new_audit_queue initial" as]
      aq.run_bounded [OF run(3,2)] dropped_run [of "new_audit_queue initial" as] assms(2)
    by (simp add: start gone_eq queue_pending_def run(1) [symmetric])
qed

definition sample_event :: pending_event where
  "sample_event = \<lparr>pe_kind = Heartbeat, pe_assistant = Secretguard, pe_mode = BlockMode,
     pe_outcome = PassedOutcome, pe_findings = 0, pe_posture_reasons = None, pe_policy_id = None,
     pe_policy_version = None, pe_runner_version = None, pe_queue_pending = None,
     pe_rules_pack_id = None, pe_rules_pack_version = None, pe_rules_pack_digest = None,
     pe_custom_findings = None, pe_custom_detector_ids = None\<rparr>"

definition empty_queue :: queue_state where
  "empty_queue = \<lparr>qs_events = [], qs_dropped = 0\<rparr>"

definition sample_actions :: "queue_action list" where
  "sample_actions = [Enqueue sample_event [1] [] True, Flush None True,
     Enqueue sample_event [2] [] False, Flush (Some [[2], [1]]) True]"

lemma sample_history:
  "queue_history empty_queue sample_actions (run_steps queue_step (new_audit_queue empty_queue) sample_actions)"
proof -
  have "queue_history empty_queue [] (new_audit_queue empty_queue)"
    by (rule started) (simp add: empty_queue_def)
  then have "queue_history empty_queue ((([] @ [sample_actions ! 0]) @ [sample_actions ! 1]) @ [sample_actions ! 2])
    (queue_step (queue_step (queue_step (new_audit_queue empty_queue) (sample_actions ! 0)) (sample_actions ! 1)) (sample_actions ! 2))"
    by (intro stepped) (simp_all add: sample_actions_def enqueue_events make_room_events flush_def serial_def
        acknowledges_def new_audit_queue_def empty_queue_def)
  then have "queue_history empty_queue (((([] @ [sample_actions ! 0]) @ [sample_actions ! 1]) @ [sample_actions ! 2]) @ [sample_actions ! 3])
    (queue_step (queue_step (queue_step (queue_step (new_audit_queue empty_queue) (sample_actions ! 0)) (sample_actions ! 1)) (sample_actions ! 2)) (sample_actions ! 3))"
    by (rule stepped) (simp add: sample_actions_def)
  then show ?thesis by (simp add: sample_actions_def)
qed

theorem audit_ledger_witness:
  "queue_pending (run_steps queue_step (new_audit_queue empty_queue) sample_actions) \<le> max 1000 (length (qs_events empty_queue))"
  using audit_ledger [OF sample_history] by (simp add: empty_queue_def)

text \<open>C11: The queue drains: whatever is enqueued, refused or lost in between, once the platform
  has acknowledged as many batches as hold the pending events, every event that was pending has
  left the queue, in order.\<close>

theorem pending_events_leave:
  assumes "queue_history initial before q" and "along_all queue_step fresh_id q as"
    and "queue_pending q \<le> confirmed_flushes q as * 100"
  shows "prefix (qs_events q) (along queue_step step_gone q as)"
  using aq.pending_leave [OF history_distinct [OF assms(1)] assms(2)] assms(3)
  by (simp add: confirmations_eq gone_eq queue_pending_def)

theorem pending_events_leave_witness:
  "prefix (qs_events (queue_step (new_audit_queue empty_queue) (Enqueue sample_event [1] [] True)))
     (along queue_step step_gone (queue_step (new_audit_queue empty_queue) (Enqueue sample_event [1] [] True))
        [Enqueue sample_event [2] [] False, Flush (Some [[2], [1]]) True])"
proof (rule pending_events_leave)
  have "queue_history empty_queue ([] @ [Enqueue sample_event [1] [] True])
     (queue_step (new_audit_queue empty_queue) (Enqueue sample_event [1] [] True))"
    by (intro stepped started) (simp_all add: empty_queue_def new_audit_queue_def)
  then show "queue_history empty_queue ([] @ [Enqueue sample_event [1] [] True])
     (queue_step (new_audit_queue empty_queue) (Enqueue sample_event [1] [] True))" .
qed (simp_all add: enqueue_events make_room_events new_audit_queue_def empty_queue_def queue_pending_def
      acknowledges_def)

text \<open>What is saved is the queue as it is: a step saves nothing, or the state it ends with.\<close>

lemma saves_are_current:
  "SaveCall st \<in> set (snd (flush answer saves q)) \<Longrightarrow> st = saved_state (fst (flush answer saves q))"
  "SaveCall st \<in> set (snd (enqueue event i t saves q)) \<Longrightarrow> st = saved_state (fst (enqueue event i t saves q))"
  by (auto simp: flush_def enqueue_def serial_def Let_def saved_state_def split: if_splits)

text \<open>A platform without the tuning contract never receives a field, a reason or an event
  kind of the tuning, and everything else reaches it unchanged; a platform with it receives
  the event as it is.\<close>

theorem platform_event_compatible:
  "platformCompatibleEvent event True = Some event \<and>
   (platformCompatibleEvent event False = None \<longleftrightarrow> pe_kind event = RulesPackSynced) \<and>
   (case platformCompatibleEvent event False of
      None \<Rightarrow> True
    | Some sent \<Rightarrow>
        pe_rules_pack_id sent = None \<and> pe_rules_pack_version sent = None \<and> pe_rules_pack_digest sent = None \<and>
        pe_custom_findings sent = None \<and> pe_custom_detector_ids sent = None \<and>
        pe_posture_reasons sent = map_option (filter (\<lambda>r. r \<notin> {RulesPackRejected, RulesPackExpired}))
          (pe_posture_reasons event) \<and>
        event = sent\<lparr>pe_posture_reasons := pe_posture_reasons event,
                     pe_rules_pack_id := pe_rules_pack_id event, pe_rules_pack_version := pe_rules_pack_version event,
                     pe_rules_pack_digest := pe_rules_pack_digest event,
                     pe_custom_findings := pe_custom_findings event,
                     pe_custom_detector_ids := pe_custom_detector_ids event\<rparr>)"
  by (cases "pe_posture_reasons event") (simp_all add: platformCompatibleEvent_def Let_def)

end
