(* ===== verification/Json_Print.thy ===== *)
theory Json_Print
  imports Json "HOL-Library.Multiset"
begin

text \<open>
  \<open>JSON.stringify\<close> on JSON values, and the order in which ECMAScript lists the members of an object.
  The text of a number is a parameter (\<open>Number.prototype.toString\<close>); what the round trip needs of
  it is that it is a JSON literal of that number.  \<open>json_parse_text\<close> is the round trip: parsing the
  printed text gives back the value.
\<close>

section \<open>The order of own members\<close>

text \<open>Array indices come first, ascending; the other keys follow in insertion order.\<close>

definition array_index :: "ustring \<Rightarrow> nat option" where
  "array_index k =
     (if k \<noteq> [] \<and> list_all is_digit k \<and> (hd k \<noteq> 48 \<or> length k = 1) \<and> digits_value k < 4294967295
      then Some (digits_value k) else None)"

definition index_key :: "(ustring \<times> 'a) \<Rightarrow> nat" where
  "index_key kv = (case array_index (fst kv) of Some i \<Rightarrow> i | None \<Rightarrow> 0)"

definition indexed :: "(ustring \<times> 'a) \<Rightarrow> bool" where
  "indexed kv \<longleftrightarrow> array_index (fst kv) \<noteq> None"

definition own_entries :: "(ustring \<times> 'a) list \<Rightarrow> (ustring \<times> 'a) list" where
  "own_entries kvs = sort_key index_key (filter indexed kvs) @ filter (\<lambda>kv. \<not> indexed kv) kvs"

lemma mset_own_entries [simp]: "mset (own_entries kvs) = mset kvs"
  by (simp add: own_entries_def)

lemma set_own_entries [simp]: "set (own_entries kvs) = set kvs"
  by (rule mset_eq_setD) simp

lemma distinct_own_entries [simp]: "distinct (map fst (own_entries kvs)) \<longleftrightarrow> distinct (map fst kvs)"
  by (rule mset_eq_imp_distinct_iff) simp

lemma own_entries_size [simp]: "size_list f (own_entries kvs) = size_list f kvs"
proof -
  have "mset (map f (own_entries kvs)) = mset (map f kvs)" by simp
  then have "sum_list (map f (own_entries kvs)) = sum_list (map f kvs)"
    by (metis sum_mset_sum_list)
  moreover have "length (own_entries kvs) = length kvs"
    by (rule mset_eq_length) simp
  ultimately show ?thesis by (simp add: size_list_conv_sum_list)
qed

lemma own_entries_idem [simp]: "own_entries (own_entries kvs) = own_entries kvs"
proof -
  let ?s = "sort_key index_key (filter indexed kvs)"
  have "filter indexed ?s = ?s" by (rule filter_True) simp
  moreover have "filter (\<lambda>kv. \<not> indexed kv) ?s = []" by (rule filter_False) simp
  moreover have "sort_key index_key ?s = ?s" by (rule sort_key_id_if_sorted) simp
  ultimately show ?thesis by (simp add: own_entries_def)
qed

lemma own_entries_map:
  assumes "\<And>kv. fst (f kv) = fst kv"
  shows "own_entries (map f kvs) = map f (own_entries kvs)"
proof -
  have key: "index_key (f kv) = index_key kv" "indexed (f kv) = indexed kv" for kv
    by (simp_all add: index_key_def indexed_def assms)
  have "insort_key index_key (f x) (map f ys) = map f (insort_key index_key x ys)" for x ys
    by (induction ys) (simp_all add: key)
  then have "sort_key index_key (map f ys) = map f (sort_key index_key ys)" for ys
    by (induction ys) simp_all
  then show ?thesis by (simp add: own_entries_def filter_map comp_def key)
qed

lemma obj_get_own [simp]: "distinct (map fst kvs) \<Longrightarrow> obj_get (own_entries kvs) = obj_get kvs"
  unfolding obj_get_def by (rule map_of_inject_set [THEN iffD2]) auto

section \<open>Printing\<close>

definition hex_lower_digit :: "nat \<Rightarrow> nat" where
  "hex_lower_digit n = (if n < 10 then 48 + n else 87 + n)"

definition unicode_escape :: "nat \<Rightarrow> ustring" where
  "unicode_escape u =
     [92, 117, hex_lower_digit (u div 4096), hex_lower_digit (u div 256 mod 16), hex_lower_digit (u div 16 mod 16), hex_lower_digit (u mod 16)]"

definition short_escape :: "nat \<Rightarrow> nat option" where
  "short_escape u = map_of [(8, 98), (9, 116), (10, 110), (12, 102), (13, 114), (34, 34), (92, 92)] u"

definition quote_unit :: "nat \<Rightarrow> ustring" where
  "quote_unit u =
     (case short_escape u of
        Some e \<Rightarrow> [92, e]
      | None \<Rightarrow> if u < 32 \<or> is_surrogate u then unicode_escape u else [u])"

fun quote_body :: "ustring \<Rightarrow> ustring" where
  "quote_body [] = []"
| "quote_body [a] = quote_unit a"
| "quote_body (a # b # s) =
     (if is_high a \<and> is_low b then a # b # quote_body s else quote_unit a @ quote_body (b # s))"

definition json_string :: "ustring \<Rightarrow> ustring" where
  "json_string s = 34 # quote_body s @ [34]"

type_synonym number_text = "rat \<Rightarrow> ustring"

text \<open>The text of a value whose members are printed in the order of the list.\<close>

fun json_text :: "number_text \<Rightarrow> json \<Rightarrow> ustring"
and items_text :: "number_text \<Rightarrow> json list \<Rightarrow> ustring"
and members_text :: "number_text \<Rightarrow> (ustring \<times> json) list \<Rightarrow> ustring" where
  "json_text N JNull = js ''null''"
| "json_text N (JBool b) = (if b then js ''true'' else js ''false'')"
| "json_text N (JNum q) = N q"
| "json_text N (JStr s) = json_string s"
| "json_text N (JArr vs) = 91 # items_text N vs @ [93]"
| "json_text N (JObj kvs) = 123 # members_text N kvs @ [125]"
| "items_text N [] = []"
| "items_text N [v] = json_text N v"
| "items_text N (v # w # vs) = json_text N v @ 44 # items_text N (w # vs)"
| "members_text N [] = []"
| "members_text N [(k, v)] = json_string k @ 58 # json_text N v"
| "members_text N ((k, v) # kv # kvs) = json_string k @ 58 # json_text N v @ 44 # members_text N (kv # kvs)"

text \<open>The value with the members of every object in another order; \<open>JSON.stringify\<close> prints them in the
  order ECMAScript lists them.\<close>

fun reorder :: "((ustring \<times> json) list \<Rightarrow> (ustring \<times> json) list) \<Rightarrow> json \<Rightarrow> json" where
  "reorder f (JArr vs) = JArr (map (reorder f) vs)"
| "reorder f (JObj kvs) = JObj (f (map (\<lambda>(k, v). (k, reorder f v)) kvs))"
| "reorder f v = v"

definition json_stringify :: "number_text \<Rightarrow> json \<Rightarrow> ustring" where
  "json_stringify N v = json_text N (reorder own_entries v)"


section \<open>Strings\<close>

lemma hex_value_lower [simp]: "n < 16 \<Longrightarrow> hex_value (hex_lower_digit n) = Some n"
  by (auto simp: hex_value_def hex_lower_digit_def is_digit_def)

lemma hex4_escape:
  assumes "u < 65536"
  shows "hex4 (drop 2 (unicode_escape u) @ r) = Some (u, r)"
proof -
  have "u div 4096 < 16" using assms by auto
  moreover have "((u div 4096 * 16 + u div 256 mod 16) * 16 + u div 16 mod 16) * 16 + u mod 16 = u"
    using div_mult_mod_eq [of u 16] div_mult_mod_eq [of "u div 16" 16] div_mult_mod_eq [of "u div 256" 16]
    by (simp add: div_mult2_eq [of u 16 16, simplified] div_mult2_eq [of u 256 16, simplified])
  ultimately show ?thesis by (simp add: unicode_escape_def)
qed

lemma string_body_escape:
  "hex4 s = Some (u, r) \<Longrightarrow>
     string_body (Suc n) (92 # 117 # s) = map_option (\<lambda>(b, r'). (u # b, r')) (string_body n r)"
  by simp

lemma short_escape_cases:
  assumes "short_escape u = Some e"
  shows "json_escape e = Some u" and "e \<noteq> 117"
  using assms by (auto simp: short_escape_def json_escape_def split: if_splits)

lemma short_escape_None: "short_escape u = None \<Longrightarrow> u \<noteq> 34 \<and> u \<noteq> 92"
  by (auto simp: short_escape_def)

lemma string_body_unit:
  assumes "u < 65536"
  shows "string_body (Suc n) (quote_unit u @ r) = map_option (\<lambda>(b, r'). (u # b, r')) (string_body n r)"
proof (cases "short_escape u")
  case None
  show ?thesis
  proof (cases "u < 32 \<or> is_surrogate u")
    case True
    have e: "unicode_escape u @ r = 92 # 117 # (drop 2 (unicode_escape u) @ r)" by (simp add: unicode_escape_def)
    from True None show ?thesis
      by (simp only: quote_unit_def option.case if_True e string_body_escape [OF hex4_escape [OF assms]])
  next
    case False
    with None short_escape_None [OF None] show ?thesis by (simp add: quote_unit_def)
  qed
next
  case (Some e)
  with short_escape_cases [OF Some] show ?thesis by (simp add: quote_unit_def)
qed

definition units :: "ustring \<Rightarrow> bool" where
  "units s \<longleftrightarrow> list_all (\<lambda>u. u < 65536) s"

lemma quote_unit_length: "0 < length (quote_unit u)"
  by (simp add: quote_unit_def unicode_escape_def split: option.splits)

lemma string_body_quote:
  "units s \<Longrightarrow> length (quote_body s) < n \<Longrightarrow> string_body n (quote_body s @ 34 # r) = Some (s, r)"
proof (induction s arbitrary: n rule: quote_body.induct)
  case 1
  then show ?case by (cases n) auto
next
  case (2 a)
  then obtain m where n: "n = Suc m" by (cases n) auto
  with 2 quote_unit_length [of a] obtain k where m: "m = Suc k" by (cases m) auto
  from 2 string_body_unit [of a m "34 # r"] show ?case by (simp add: n m units_def)
next
  case (3 a b s)
  then obtain m where n: "n = Suc m" by (cases n) auto
  show ?case
  proof (cases "is_high a \<and> is_low b")
    case True
    with 3 n obtain k where m: "m = Suc k" by (cases m) auto
    have "units s" "length (quote_body s) < k" using 3 True by (simp_all add: units_def n m)
    with 3 True have "string_body k (quote_body s @ 34 # r) = Some (s, r)" by simp
    moreover have "a \<noteq> 34" "a \<noteq> 92" "\<not> a < 32" "b \<noteq> 34" "b \<noteq> 92" "\<not> b < 32"
      using True by (auto simp: is_high_def is_low_def)
    ultimately show ?thesis using True by (simp add: n m)
  next
    case False
    have "units (b # s)" using 3 by (simp add: units_def)
    moreover have "length (quote_body (b # s)) < m"
      using 3(4) False quote_unit_length [of a] unfolding n quote_body.simps(3) if_not_P [OF False] length_append
      by linarith
    ultimately have "string_body m (quote_body (b # s) @ 34 # r) = Some (b # s, r)"
      using 3(2) False by blast
    moreover have "a < 65536" using 3(3) by (simp add: units_def)
    ultimately show ?thesis
      unfolding quote_body.simps(3) if_not_P [OF False] n append_assoc
      by (simp only: string_body_unit) simp
  qed
qed

section \<open>Numbers\<close>

text \<open>What may follow a number.\<close>

definition stops :: "ustring \<Rightarrow> bool" where
  "stops r \<longleftrightarrow> r = [] \<or> (\<not> is_digit (hd r) \<and> hd r \<noteq> 46 \<and> hd r \<noteq> 101 \<and> hd r \<noteq> 69)"

definition number_literal :: "ustring \<Rightarrow> rat \<Rightarrow> bool" where
  "number_literal s q \<longleftrightarrow> number_body s = Some (q, []) \<and> list_all (\<lambda>c. c < 128) s"

lemma digits_stop:
  assumes "stops r"
  shows "takeWhile is_digit (s @ r) = takeWhile is_digit s"
    and "dropWhile is_digit (s @ r) = dropWhile is_digit s @ r"
  using assms by (induction s) (auto simp: stops_def intro: dropWhile_eq_self_iff [THEN iffD2] simp: takeWhile_eq_Nil_iff dropWhile_eq_self_iff)

text \<open>The fraction and the exponent of a number, after its integer part.\<close>

definition number_fraction :: "ustring \<Rightarrow> ustring option \<times> ustring" where
  "number_fraction s = (if s \<noteq> [] \<and> hd s = 46
     then (Some (takeWhile is_digit (tl s)), dropWhile is_digit (tl s)) else (None, s))"

definition number_exponent :: "rat \<Rightarrow> rat \<Rightarrow> ustring \<Rightarrow> (rat \<times> ustring) option" where
  "number_exponent sn mant s1 =
     (if s1 \<noteq> [] \<and> (hd s1 = 101 \<or> hd s1 = 69) then
        (let s2 = tl s1;
             eneg = (s2 \<noteq> [] \<and> hd s2 = 45);
             s3 = (if s2 \<noteq> [] \<and> (hd s2 = 45 \<or> hd s2 = 43) then tl s2 else s2);
             ep = takeWhile is_digit s3
         in if ep = [] then None
            else Some (sn * (if eneg then mant / 10 ^ digits_value ep else mant * 10 ^ digits_value ep),
                       dropWhile is_digit s3))
      else Some (sn * mant, s1))"

lemma number_body_parts:
  "number_body s0 =
     (let neg = (s0 \<noteq> [] \<and> hd s0 = 45);
          s = (if neg then tl s0 else s0);
          ip = takeWhile is_digit s
      in if ip = [] \<or> (1 < length ip \<and> hd ip = 48) then None
      else let (fp, s1) = number_fraction (dropWhile is_digit s)
        in if fp = Some [] then None
        else let fracs = (case fp of None \<Rightarrow> [] | Some f \<Rightarrow> f)
          in number_exponent (if neg then - 1 else 1) (rat_of_nat (digits_value (ip @ fracs)) / 10 ^ length fracs) s1)"
  unfolding number_body_def number_fraction_def number_exponent_def Let_def by (rule refl)

lemma number_exponent_stop:
  assumes "number_exponent g m s = Some (q, [])" and "stops r"
  shows "number_exponent g m (s @ r) = Some (q, r)"
proof (cases s)
  case Nil
  with assms show ?thesis by (auto simp: number_exponent_def stops_def)
next
  case (Cons c s')
  show ?thesis
  proof (cases s')
    case Nil
    with assms Cons show ?thesis by (auto simp: number_exponent_def Let_def split: if_splits)
  next
    case (Cons d t)
    with assms \<open>s = c # s'\<close> show ?thesis
      by (auto simp: number_exponent_def Let_def digits_stop digits_stop [of r "d # t", simplified] split: if_splits)
  qed
qed

lemma number_exponent_None: "number_exponent g m s \<noteq> None \<Longrightarrow> s \<noteq> [] \<Longrightarrow> hd s \<noteq> 46 \<Longrightarrow> stops r \<Longrightarrow>
    number_fraction (s @ r) = (None, s @ r)"
  by (simp add: number_fraction_def)

lemma number_fraction_stop:
  assumes "stops r"
  shows "number_fraction (s @ r) = (fst (number_fraction s), snd (number_fraction s) @ r)"
  using assms by (cases s) (auto simp: number_fraction_def stops_def digits_stop)

lemma number_body_stop:
  assumes "number_body s = Some (q, [])" and "stops r"
  shows "number_body (s @ r) = Some (q, r)"
proof -
  have ne: "s \<noteq> []" using assms(1) by (auto simp: number_body_parts Let_def)
  define neg s' where "neg = (hd s = 45)" and "s' = (if neg then tl s else s)"
  have eq: "(if neg then tl (s @ r) else s @ r) = s' @ r" "(s @ r \<noteq> [] \<and> hd (s @ r) = 45) = neg"
    "(s \<noteq> [] \<and> hd s = 45) = neg"
    using ne by (simp_all add: neg_def s'_def)
  show ?thesis
    using assms(1) unfolding number_body_parts [of "s @ r"] number_body_parts [of s] eq Let_def
    unfolding s'_def [symmetric] digits_stop [OF assms(2)] number_fraction_stop [OF assms(2)]
    by (auto simp: number_exponent_stop [OF _ assms(2)] split: prod.splits if_splits)
qed

lemma number_literal_head: "number_literal s q \<Longrightarrow> \<exists>c s'. s = c # s' \<and> (c = 45 \<or> is_digit c)"
  by (cases s) (auto simp: number_literal_def number_body_parts Let_def takeWhile_eq_Nil_iff split: if_splits)

section \<open>The round trip\<close>

text \<open>The numbers of a value, and well-formed values: strings of code units, no duplicate member.\<close>

fun json_numbers :: "json \<Rightarrow> rat list" where
  "json_numbers (JNum q) = [q]"
| "json_numbers (JArr vs) = concat (map json_numbers vs)"
| "json_numbers (JObj kvs) = concat (map (\<lambda>(k, v). json_numbers v) kvs)"
| "json_numbers _ = []"

fun json_wf :: "json \<Rightarrow> bool" where
  "json_wf (JStr s) = units s"
| "json_wf (JArr vs) = list_all json_wf vs"
| "json_wf (JObj kvs) = (distinct (map fst kvs) \<and> list_all (\<lambda>(k, v). units k \<and> json_wf v) kvs)"
| "json_wf _ = True"

definition prints :: "number_text \<Rightarrow> json \<Rightarrow> bool" where
  "prints N v \<longleftrightarrow> json_wf v \<and> list_all (\<lambda>q. number_literal (N q) q) (json_numbers v)"

lemma prints_simps [simp]:
  "prints N JNull" "prints N (JBool b)" "prints N (JNum q) \<longleftrightarrow> number_literal (N q) q"
  "prints N (JStr s) \<longleftrightarrow> units s" "prints N (JArr vs) \<longleftrightarrow> list_all (prints N) vs"
  "prints N (JObj kvs) \<longleftrightarrow> distinct (map fst kvs) \<and> list_all (\<lambda>(k, v). units k \<and> prints N v) kvs"
  by (auto simp: prints_def list_all_iff)

lemma skip_ws_head: "\<not> json_ws c \<Longrightarrow> skip_ws (c # s) = c # s"
  by (simp add: skip_ws_def)

lemma eat_head: "\<not> json_ws c \<Longrightarrow> eat d (c # s) = (if c = d then Some s else None)"
  by (simp add: eat_def skip_ws_head)

definition closes :: "ustring \<Rightarrow> bool" where
  "closes r \<longleftrightarrow> r = [] \<or> hd r = 44 \<or> hd r = 93 \<or> hd r = 125"

lemma closes_stops: "closes r \<Longrightarrow> stops r"
  by (auto simp: closes_def stops_def is_digit_def)

lemma json_text_head:
  assumes "prints N v"
  shows "\<exists>c s. json_text N v = c # s \<and> \<not> json_ws c \<and> c \<noteq> 93 \<and> c \<noteq> 125"
proof (cases v)
  case (JNum q)
  then have "number_literal (N q) q" using assms by simp
  then obtain c s where "N q = c # s" and c: "c = 45 \<or> is_digit c" using number_literal_head by blast
  with JNum have "json_text N v = c # s" by simp
  moreover have "\<not> json_ws c \<and> c \<noteq> 93 \<and> c \<noteq> 125" using c by (auto simp: json_ws_def is_digit_def)
  ultimately show ?thesis by blast
qed (auto simp: js_def json_ws_def json_string_def)

text \<open>Text followed by a closing text: each mutually recursive parser reads its own part back, with
  as much fuel as the part has characters.\<close>

lemma parse_string: "units s \<Longrightarrow> n \<noteq> 0 \<Longrightarrow> parse_value n (json_string s @ r) = Some (JStr s, r)"
  by (cases n) (simp_all add: json_string_def skip_ws_head json_ws_def string_body_quote)

lemma parse_number_value:
  assumes "number_literal (N q) q" and "closes r" and "n \<noteq> 0"
  shows "parse_value n (N q @ r) = Some (JNum q, r)"
proof -
  from number_literal_head [OF assms(1)] obtain c s where N: "N q = c # s" and c: "c = 45 \<or> is_digit c" by blast
  have b: "number_body (c # s @ r) = Some (q, r)"
    using assms(1) number_body_stop [OF _ closes_stops [OF assms(2)], of "N q" q] by (simp add: number_literal_def N)
  have "\<not> json_ws c" "c \<notin> {34, 91, 123, 110, 116, 102}" using c by (auto simp: json_ws_def is_digit_def)
  with b assms(3) show ?thesis
    by (cases n) (simp_all add: N skip_ws_head starts_at_def js_def of_char_def)
qed

lemma skip_ws_closes: "closes r \<Longrightarrow> skip_ws r = r"
  by (cases r) (auto simp: closes_def skip_ws_def json_ws_def)

lemma obj_set_fresh: "k \<notin> fst ` set kvs \<Longrightarrow> obj_set kvs k v = kvs @ [(k, v)]"
  by (induction kvs k v rule: obj_set.induct) auto

lemma json_text_parses:
  shows parse_json_text: "prints N v \<Longrightarrow> closes r \<Longrightarrow> length (json_text N v) \<le> n \<Longrightarrow>
      parse_value n (json_text N v @ r) = Some (v, r)"
    and parse_items_text: "list_all (prints N) vs \<Longrightarrow> vs \<noteq> [] \<Longrightarrow> length (items_text N vs) < n \<Longrightarrow>
      parse_items n (items_text N vs @ 93 # r) = Some (vs, r)"
    and parse_members_text: "list_all (\<lambda>(k, v). units k \<and> prints N v) kvs \<Longrightarrow> kvs \<noteq> [] \<Longrightarrow>
      distinct (map fst (pre @ kvs)) \<Longrightarrow> length (members_text N kvs) < n \<Longrightarrow>
      parse_members n pre (members_text N kvs @ 125 # r) = Some (pre @ kvs, r)"
proof (induction N v and N vs and N kvs arbitrary: n r and n r and n r pre
    rule: json_text_items_text_members_text.induct)
  case (1 N)
  then obtain m where "n = Suc m" by (cases n) (auto simp: js_def)
  then show ?case by (simp add: skip_ws_head json_ws_def starts_at_def js_def of_char_def)
next
  case (2 N b)
  then obtain m where "n = Suc m" by (cases n) (auto simp: js_def split: if_splits)
  then show ?case by (cases b) (simp_all add: skip_ws_head json_ws_def starts_at_def js_def of_char_def)
next
  case (3 N q)
  then have "N q \<noteq> []" using number_literal_head by fastforce
  then have "n \<noteq> 0" using 3(3) by (cases n) auto
  with 3 show ?case by (simp add: parse_number_value del: parse_value.simps)
next
  case (4 N s)
  then have "n \<noteq> 0" by (cases n) (auto simp: json_string_def)
  with 4(1) show ?case by (simp add: parse_string del: parse_value.simps)
next
  case (5 N vs)
  then obtain m where n: "n = Suc m" by (cases n) auto
  show ?case
  proof (cases "vs = []")
    case True
    then show ?thesis by (simp add: n skip_ws_head eat_head json_ws_def)
  next
    case False
    have "prints N (hd vs)" using 5(2) False by (cases vs) auto
    from json_text_head [OF this] False have "eat 93 (items_text N vs @ 93 # r) = None"
      by (cases vs rule: remdups_adj.cases) (auto simp: eat_head)
    moreover have "parse_items m (items_text N vs @ 93 # r) = Some (vs, r)"
      using 5 False by (simp add: n)
    ultimately show ?thesis by (simp add: n skip_ws_head json_ws_def)
  qed
next
  case (6 N kvs)
  then obtain m where n: "n = Suc m" by (cases n) auto
  show ?case
  proof (cases "kvs = []")
    case True
    then show ?thesis by (simp add: n skip_ws_head eat_head json_ws_def)
  next
    case False
    then have "eat 125 (members_text N kvs @ 125 # r) = None"
      by (cases kvs rule: remdups_adj.cases) (auto simp: eat_head json_string_def json_ws_def)
    moreover have "parse_members m [] (members_text N kvs @ 125 # r) = Some (kvs, r)"
      using 6(1) [of "[]" m r] 6(2,4) False by (simp add: n)
    ultimately show ?thesis by (simp add: n skip_ws_head json_ws_def)
  qed
next
  case (7 N)
  then show ?case by simp
next
  case (8 N v)
  then obtain m where n: "n = Suc m" by (cases n) auto
  have "parse_value m (json_text N v @ 93 # r) = Some (v, 93 # r)"
    using 8 by (simp add: n closes_def)
  then show ?case by (simp add: n skip_ws_head json_ws_def)
next
  case (9 N v w vs)
  then obtain m where n: "n = Suc m" by (cases n) auto
  have "parse_value m (json_text N v @ 44 # items_text N (w # vs) @ 93 # r) = Some (v, 44 # items_text N (w # vs) @ 93 # r)"
    using 9(1) [of "44 # items_text N (w # vs) @ 93 # r" m] 9(3,5) by (simp add: n closes_def)
  moreover have "parse_items m (items_text N (w # vs) @ 93 # r) = Some (w # vs, r)"
    using 9(2) [of m r] 9(3,5) by (simp add: n)
  ultimately show ?case by (simp add: n skip_ws_head json_ws_def)
next
  case (10 N)
  then show ?case by simp
next
  case (11 N k v)
  then obtain m where n: "n = Suc m" by (cases n) auto
  have "parse_value m (json_text N v @ 125 # r) = Some (v, 125 # r)"
    using 11 by (simp add: n closes_def)
  moreover have "obj_set pre k v = pre @ [(k, v)]" using 11(4) by (intro obj_set_fresh) auto
  ultimately show ?case
    using 11(2) by (simp add: n json_string_def eat_head json_ws_def string_body_quote skip_ws_head)
next
  case (12 N k v kv kvs)
  then obtain m where n: "n = Suc m" by (cases n) auto
  let ?rest = "members_text N (kv # kvs) @ 125 # r"
  have "parse_value m (json_text N v @ 44 # ?rest) = Some (v, 44 # ?rest)"
    using 12(1) [of "44 # ?rest" m] 12(3,6) by (simp add: n closes_def)
  moreover have "parse_members m (pre @ [(k, v)]) ?rest = Some ((pre @ [(k, v)]) @ kv # kvs, r)"
    using 12(2) [of "pre @ [(k, v)]" m r] 12(3,5,6) by (simp add: n)
  moreover have "obj_set pre k v = pre @ [(k, v)]" using 12(5) by (intro obj_set_fresh) auto
  ultimately show ?case
    using 12(3) by (simp add: n json_string_def eat_head json_ws_def string_body_quote skip_ws_head)
qed

theorem json_parse_text: "prints N v \<Longrightarrow> json_parse (json_text N v) = Some v"
  using parse_json_text [of N v "[]" "2 * length (json_text N v) + 2"]
  by (simp add: json_parse_def closes_def skip_ws_def del: parse_value.simps)

lemma reorder_prints:
  "(\<And>kvs. mset (f kvs) = mset kvs) \<Longrightarrow> prints N v \<Longrightarrow> prints N (reorder f v)"
proof (induction f v rule: reorder.induct)
  case (1 f vs)
  then show ?case by (auto simp: list_all_iff)
next
  case (2 f kvs)
  let ?kvs = "map (\<lambda>(k, v). (k, reorder f v)) kvs"
  have "map fst ?kvs = map fst kvs" by (induction kvs) auto
  moreover have "distinct (map fst kvs)" using 2(3) by simp
  ultimately have kvs_keys: "distinct (map fst ?kvs)" by (simp only:)
  have "list_all (\<lambda>(k, v). units k \<and> prints N v) ?kvs"
    using 2 by (auto simp: list_all_iff)
  note kvs = this kvs_keys
  have "set (f ?kvs) = set ?kvs" by (rule mset_eq_setD) (rule 2(2))
  moreover have "mset (map fst (f ?kvs)) = mset (map fst ?kvs)" by (simp only: mset_map 2(2))
  ultimately have "list_all (\<lambda>(k, v). units k \<and> prints N v) (f ?kvs)" "distinct (map fst (f ?kvs))"
    using kvs mset_eq_imp_distinct_iff by (simp_all only: list_all_iff) blast
  then show ?case by simp
qed simp_all

text \<open>\<open>JSON.parse\<close> reads back what \<open>JSON.stringify\<close> printed, up to the order of members.\<close>

lemma json_parse_stringify:
  assumes "prints N v"
  shows "json_parse (json_stringify N v) = Some (reorder own_entries v)"
  unfolding json_stringify_def by (rule json_parse_text) (rule reorder_prints [OF mset_own_entries assms])

section \<open>Printed text is well-formed\<close>

text \<open>No lone surrogate: the text is a sequence of code points.\<close>

fun paired :: "ustring \<Rightarrow> bool" where
  "paired [] = True"
| "paired [a] = (\<not> is_surrogate a)"
| "paired (a # b # s) = (if is_high a \<and> is_low b then paired s else \<not> is_surrogate a \<and> paired (b # s))"

lemma high_surrogate: "is_high a \<Longrightarrow> is_surrogate a"
  by (simp add: is_high_def is_surrogate_def)

lemma paired_Cons: "\<not> is_surrogate a \<Longrightarrow> paired (a # s) = paired s"
  by (cases s) (auto dest: high_surrogate)

lemma paired_append: "paired s \<Longrightarrow> paired t \<Longrightarrow> paired (s @ t)"
  by (induction s rule: paired.induct) (auto simp: paired_Cons split: if_splits)

lemma paired_plain: "list_all (\<lambda>c. \<not> is_surrogate c) s \<Longrightarrow> paired s"
  by (induction s) (auto simp: paired_Cons)

lemma paired_code_points: "units s \<Longrightarrow> paired s \<Longrightarrow> list_all (\<lambda>cp. \<not> is_surrogate cp) (code_points s)"
  by (induction s rule: paired.induct)
    (auto simp: code_points_def units_def is_high_def is_low_def is_surrogate_def split: if_splits)

lemma paired_well_formed: "units s \<Longrightarrow> paired s \<Longrightarrow> well_formed s"
  using paired_code_points by (simp add: well_formed_def units_def)

lemma hex_digit_ascii: "n < 16 \<Longrightarrow> hex_lower_digit n < 128"
  by (simp add: hex_lower_digit_def)

lemma escape_ascii: "u < 65536 \<Longrightarrow> list_all (\<lambda>c. c < 128) (unicode_escape u)"
  by (simp add: unicode_escape_def hex_digit_ascii)

lemma short_escape_ascii: "short_escape u = Some e \<Longrightarrow> e < 128"
  by (auto simp: short_escape_def split: if_splits)

lemma ascii_plain: "list_all (\<lambda>c. c < 128) s \<Longrightarrow> list_all (\<lambda>c. c < 65536 \<and> \<not> is_surrogate c) s"
  by (auto simp: list_all_iff is_surrogate_def dest!: bspec)

lemma quote_unit_plain: "u < 65536 \<Longrightarrow> list_all (\<lambda>c. c < 65536 \<and> \<not> is_surrogate c) (quote_unit u)"
  using ascii_plain [OF escape_ascii [of u]] ascii_plain [of "[92, e]" for e] short_escape_ascii [of u]
  by (cases "short_escape u") (auto simp: quote_unit_def)

lemma quote_body_plain: "units s \<Longrightarrow> units (quote_body s) \<and> paired (quote_body s)"
proof (induction s rule: quote_body.induct)
  case 1
  then show ?case by (simp add: units_def)
next
  case (2 a)
  with quote_unit_plain [of a] show ?case by (auto simp: units_def list_all_iff intro!: paired_plain)
next
  case (3 a b s)
  have a: "a < 65536" "b < 65536" "units s" "units (b # s)" using 3(3) by (auto simp: units_def)
  show ?case
  proof (cases "is_high a \<and> is_low b")
    case True
    with 3(1) a show ?thesis by (simp add: units_def)
  next
    case False
    have "paired (quote_unit a)" using quote_unit_plain [OF a(1)] by (intro paired_plain) (auto simp: list_all_iff)
    with 3(2) [OF False a(4)] quote_unit_plain [OF a(1)] show ?thesis
      unfolding quote_body.simps(3) if_not_P [OF False]
      by (auto simp: units_def list_all_iff intro: paired_append)
  qed
qed

definition plain_text :: "ustring \<Rightarrow> bool" where
  "plain_text s \<longleftrightarrow> units s \<and> paired s"

lemma plain_append: "plain_text s \<Longrightarrow> plain_text t \<Longrightarrow> plain_text (s @ t)"
  by (auto simp: plain_text_def units_def intro: paired_append)

lemma plain_ascii: "list_all (\<lambda>c. c < 128) s \<Longrightarrow> plain_text s"
  using ascii_plain [of s] by (auto simp: plain_text_def units_def list_all_iff intro!: paired_plain)

lemma plain_Cons: "c < 128 \<Longrightarrow> plain_text s \<Longrightarrow> plain_text (c # s)"
  using plain_append [of "[c]" s] plain_ascii [of "[c]"] by simp

lemma plain_string: "units s \<Longrightarrow> plain_text (json_string s)"
proof -
  assume "units s"
  then have "plain_text (quote_body s)" using quote_body_plain by (simp add: plain_text_def)
  then show ?thesis
    unfolding json_string_def using plain_ascii [of "[34]"] by (simp add: plain_Cons plain_append)
qed

lemma json_text_plain:
  shows plain_json_text: "prints N v \<Longrightarrow> plain_text (json_text N v)"
    and plain_items_text: "list_all (prints N) vs \<Longrightarrow> plain_text (items_text N vs)"
    and plain_members_text: "list_all (\<lambda>(k, v). units k \<and> prints N v) kvs \<Longrightarrow> plain_text (members_text N kvs)"
proof (induction N v and N vs and N kvs rule: json_text_items_text_members_text.induct)
qed (auto simp: js_def number_literal_def intro!: plain_Cons plain_append plain_string intro: plain_ascii)

text \<open>The bytes of the printed text read back as the value.\<close>

lemma json_text_no_bom:
  assumes "prints N v"
  shows "take 1 (json_text N v) \<noteq> [0xFEFF]"
proof (cases v)
  case (JNum q)
  with assms have "number_literal (N q) q" by simp
  with JNum number_literal_head [OF this] show ?thesis by (auto simp: is_digit_def)
qed (auto simp: js_def json_string_def)

lemma json_bytes_read_back:
  assumes "prints N v"
  shows "utf8_decode (utf8_encode (json_stringify N v)) = Some (json_stringify N v)"
proof -
  have p: "prints N (reorder own_entries v)" by (rule reorder_prints [OF mset_own_entries assms])
  with plain_json_text [OF p] json_text_no_bom [OF p] show ?thesis
    by (intro utf8_roundtrip) (auto simp: json_stringify_def plain_text_def paired_well_formed)
qed

section \<open>Parsed values are well-formed\<close>

lemma units_Cons: "units (c # s) \<longleftrightarrow> c < 65536 \<and> units s"
  by (simp add: units_def)

lemma units_suffix: "units s \<Longrightarrow> units (dropWhile f s)" "units s \<Longrightarrow> units (drop k s)"
  by (auto simp: units_def list_all_iff dest: set_dropWhileD in_set_dropD)

lemma hex_value_bound: "hex_value c = Some n \<Longrightarrow> n < 16"
  by (auto simp: hex_value_def is_digit_def split: if_splits)

lemma hex4_units: "hex4 s = Some (u, r) \<Longrightarrow> units s \<Longrightarrow> u < 65536 \<and> units r"
proof (induction s rule: hex4.induct)
  case (1 a b c d r')
  then obtain w x y z where v: "hex_value a = Some w" "hex_value b = Some x" "hex_value c = Some y" "hex_value d = Some z"
    by (auto split: option.splits)
  with 1 hex_value_bound [OF v(1)] hex_value_bound [OF v(2)] hex_value_bound [OF v(3)] hex_value_bound [OF v(4)]
  show ?case by (simp add: units_Cons)
qed simp_all

lemma json_escape_units: "json_escape c = Some u \<Longrightarrow> u < 65536"
  by (auto simp: json_escape_def split: if_splits)

lemma string_body_units: "string_body n s = Some (b, r) \<Longrightarrow> units s \<Longrightarrow> units b \<and> units r"
proof (induction n s arbitrary: b r rule: string_body.induct)
  case (3 n c s)
  show ?case
  proof (cases "c = 34 \<or> c < 32")
    case True
    with "3.prems" show ?thesis by (auto simp: units_def split: if_splits)
  next
    case plain: False
    show ?thesis
    proof (cases "c = 92")
      case False
      with plain "3.prems" "3.IH"(3) show ?thesis by (auto simp: units_Cons)
    next
      case True
      with plain "3.prems" obtain e s' where s: "s = e # s'" by (cases s) auto
      show ?thesis
      proof (cases "e = 117")
        case u: True
        with True plain s "3.prems" obtain v t where v: "hex4 s' = Some (v, t)" by (auto split: option.splits)
        with "3.prems" have "v < 65536" "units t" using hex4_units [OF v] by (simp_all add: s units_Cons)
        moreover obtain b' where "string_body n t = Some (b', r)" "b = v # b'"
          using "3.prems" True plain s u v by auto
        ultimately show ?thesis using "3.IH"(1) True plain s u v by (simp add: units_Cons)
      next
        case e: False
        with True plain s "3.prems" obtain v where v: "json_escape e = Some v" by (auto split: option.splits)
        moreover obtain b' where "string_body n s' = Some (b', r)" "b = v # b'"
          using "3.prems" True plain s e v by auto
        ultimately show ?thesis
          using "3.IH"(2) True plain s e "3.prems" json_escape_units [OF v] by (simp add: units_Cons)
      qed
    qed
  qed
qed auto

lemma number_body_units:
  assumes "number_body s = Some (q, r)" and "units s"
  shows "units r"
proof -
  have frac: "units (snd (number_fraction t))" if "units t" for t
    using that by (cases t) (auto simp: number_fraction_def units_Cons intro: units_suffix)
  have exp: "units r" if "number_exponent g m t = Some (q, r)" "units t" for g m t
  proof (cases t)
    case Nil
    with that show ?thesis by (simp add: number_exponent_def)
  next
    case (Cons c t')
    with that have "units t'" "units (tl t')" by (cases t'; simp add: units_Cons)+
    with that Cons show ?thesis by (auto simp: number_exponent_def Let_def intro: units_suffix split: if_splits)
  qed
  have "units (if s \<noteq> [] \<and> hd s = 45 then tl s else s)" using assms(2) by (cases s) (auto simp: units_Cons)
  then have "units (snd (number_fraction (dropWhile is_digit (if s \<noteq> [] \<and> hd s = 45 then tl s else s))))"
    by (intro frac units_suffix)
  with assms(1) exp show ?thesis
    by (auto simp: number_body_parts Let_def split: if_splits prod.splits)
qed

lemma skip_ws_units: "units s \<Longrightarrow> units (skip_ws s)"
  by (simp add: skip_ws_def units_suffix)

lemma skip_ws_Cons: "skip_ws s = c # r \<Longrightarrow> units s \<Longrightarrow> units (c # r)"
  using skip_ws_units [of s] by simp

lemma eat_units: "eat c s = Some r \<Longrightarrow> units s \<Longrightarrow> units r"
  by (auto simp: eat_def units_Cons dest!: skip_ws_Cons split: list.splits if_splits)

lemma obj_set_wf:
  assumes "json_wf (JObj kvs)" and "units k" and "json_wf v"
  shows "json_wf (JObj (obj_set kvs k v))"
proof -
  have "set (obj_set kvs k v) \<subseteq> insert (k, v) (set kvs)"
    by (induction kvs k v rule: obj_set.induct) auto
  with assms obj_set_distinct [of kvs k v] show ?thesis by (auto simp: list_all_iff)
qed

lemma parsed_wf:
  shows parse_value_wf: "parse_value n s = Some (v, r) \<Longrightarrow> units s \<Longrightarrow> json_wf v \<and> units r"
    and parse_items_wf: "parse_items n s = Some (vs, r) \<Longrightarrow> units s \<Longrightarrow> list_all json_wf vs \<and> units r"
    and parse_members_wf: "parse_members n kvs s = Some (kvs', r) \<Longrightarrow> units s \<Longrightarrow> json_wf (JObj kvs) \<Longrightarrow>
      json_wf (JObj kvs') \<and> units r"
proof (induction n s and n s and n kvs s arbitrary: v r and vs r and kvs' r
    rule: parse_value_parse_items_parse_members.induct)
  case (2 n s0)
  then obtain c s where s: "skip_ws s0 = c # s" by (cases "skip_ws s0") auto
  then have u: "units (c # s)" "units s" using skip_ws_Cons [OF s "2.prems"(2)] by (simp_all add: units_Cons)
  consider (items) "c = 91" "eat 93 s = None" | (members) "c = 123" "eat 125 s = None"
    | (scalar) "c = 91 \<longrightarrow> eat 93 s \<noteq> None" "c = 123 \<longrightarrow> eat 125 s \<noteq> None" by blast
  then show ?case
  proof cases
    case items
    with s "2.prems"(1) obtain vs where "parse_items n s = Some (vs, r)" "v = JArr vs" by auto
    with "2.IH"(1) [OF s _ items(1,2)] items(1) u(2) show ?thesis by simp
  next
    case members
    with s "2.prems"(1) obtain kvs where "parse_members n [] s = Some (kvs, r)" "v = JObj kvs" by auto
    with "2.IH"(2) [OF s _ _ members] members(1) u(2) show ?thesis by simp
  next
    case scalar
    with s "2.prems"(1) u show ?thesis
      by (auto intro: units_suffix eat_units dest: string_body_units number_body_units split: if_split_asm)
  qed
next
  case (4 n s)
  then obtain w t where w: "parse_value n s = Some (w, t)" by (cases "parse_value n s") auto
  with 4 have t: "json_wf w" "units t" by blast+
  from 4 w obtain c t' where c: "skip_ws t = c # t'" by (cases "skip_ws t") auto
  with t have "units t'" using skip_ws_Cons units_Cons by blast
  with 4 w c t show ?case by (auto split: if_splits)
next
  case (6 n kvs s0)
  from "6.prems"(1) obtain s k t r1 w r2 c r3 where
    r: "eat 34 s0 = Some s" "string_body (length s) s = Some (k, t)" "eat 58 t = Some r1"
      "parse_value n r1 = Some (w, r2)" "skip_ws r2 = c # r3"
    by (auto split: option.splits list.splits)
  have u: "units k" "units r1"
    using eat_units [OF r(1) "6.prems"(2)] string_body_units [OF r(2)] eat_units [OF r(3)] by blast+
  with "6.IH"(1) [OF r(1,2) refl r(3,4)] have w: "json_wf w" "units r2" by blast+
  with r(5) have "units r3" using skip_ws_Cons units_Cons by blast
  have set': "json_wf (JObj (obj_set kvs k w))" using "6.prems"(3) u(1) w(1) by (rule obj_set_wf)
  show ?case
  proof (cases "c = 125")
    case True
    with "6.prems"(1) r set' \<open>units r3\<close> show ?thesis by (auto simp del: json_wf.simps(3))
  next
    case False
    with "6.prems"(1) r have c: "c = 44" "parse_members n (obj_set kvs k w) r3 = Some (kvs', r)"
      by (auto split: if_splits)
    with "6.IH"(2) [OF r(1,2) refl r(3,4) refl r(5) False] set' \<open>units r3\<close> show ?thesis by blast
  qed
qed auto

lemma json_parse_wf: "json_parse s = Some v \<Longrightarrow> units s \<Longrightarrow> json_wf v"
  by (auto simp: json_parse_def simp del: parse_value.simps dest: parse_value_wf split: option.splits prod.splits if_splits)

lemma utf8_step_cp: "utf8_step bs = Some (cp, w) \<Longrightarrow> cp < 0x110000"
  by (cases bs) (auto simp: is_cont_def split: if_splits list.splits)

lemma utf8_decode_units: "utf8_decode bs = Some s \<Longrightarrow> units s"
proof -
  have "utf8_decode_raw bs = Some s \<Longrightarrow> units s" for bs s
  proof (induction bs arbitrary: s rule: utf8_decode_raw.induct)
    case (1 bs)
    show ?case
    proof (cases "bs = []")
      case True
      with 1 show ?thesis by (simp add: utf8_decode_raw.simps units_def)
    next
      case False
      with "1.prems" obtain cp w t where st: "utf8_step bs = Some (cp, w)"
        and t: "utf8_decode_raw (drop w bs) = Some t" "s = units_of_cp cp @ t"
        by (subst (asm) utf8_decode_raw.simps) (auto split: option.splits)
      have "units t" using "1.IH" [OF False st refl t(1)] .
      moreover have "units (units_of_cp cp)"
        using utf8_step_cp [OF st] by (auto simp: units_of_cp_def units_def)
      ultimately show ?thesis by (simp add: t(2) units_def)
    qed
  qed
  then show "utf8_decode bs = Some s \<Longrightarrow> units s" by (simp add: utf8_decode_def split: if_splits)
qed

section \<open>Evaluating the parser on concrete texts\<close>

lemma utf8_decode_raw_ascii: "list_all (\<lambda>c. c < 128) s \<Longrightarrow> utf8_decode_raw s = Some s"
proof (induction s)
  case (Cons c s)
  then show ?case by (subst utf8_decode_raw.simps) (simp add: units_of_cp_def)
qed (simp add: utf8_decode_raw.simps)

lemma utf8_decode_ascii: "list_all (\<lambda>c. c < 128) s \<Longrightarrow> utf8_decode s = Some s"
  by (cases s) (auto simp: utf8_decode_def utf8_decode_raw_ascii)

lemmas parse_numerals =
  string_body.simps(3) [of "pred_numeral v" for v, folded numeral_eq_Suc]
  parse_value.simps(2) [of "pred_numeral v" for v, folded numeral_eq_Suc]
  parse_items.simps(2) [of "pred_numeral v" for v, folded numeral_eq_Suc]
  parse_members.simps(2) [of "pred_numeral v" for v, folded numeral_eq_Suc]

lemmas parse_eval = json_parse_def js_def skip_ws_def json_ws_def eat_def starts_at_def parse_numerals

text \<open>The digits of a number.\<close>

lemma decimal_facts:
  "list_all is_digit (decimal n) \<and> decimal n \<noteq> [] \<and> digits_value (decimal n) = n \<and> (hd (decimal n) = 48 \<longrightarrow> n = 0) \<and>
   (length (decimal n) = 1 \<longleftrightarrow> n < 10)"
proof (induction n rule: decimal.induct)
  case (1 n)
  show ?case
  proof (cases "n < 10")
    case True
    then have "decimal n = [48 + n]" by (subst decimal.simps) simp
    with True show ?thesis by (simp add: is_digit_def digits_value_def)
  next
    case False
    let ?ds = "decimal (n div 10)"
    have d: "decimal n = ?ds @ [48 + n mod 10]" using False by (subst decimal.simps) simp
    have snoc: "digits_value (ds @ [48 + m]) = digits_value ds * 10 + m" for ds m by (simp add: digits_value_def)
    have ih: "list_all is_digit ?ds" "?ds \<noteq> []" "digits_value ?ds = n div 10" "hd ?ds = 48 \<longrightarrow> n div 10 = 0"
      using 1 False by simp_all
    have "is_digit (48 + n mod 10)" by (simp add: is_digit_def)
    moreover have "n div 10 \<noteq> 0" using False by simp
    ultimately show ?thesis using ih False unfolding d by (simp add: snoc)
  qed
qed

end
