(* ===== verification/Relay.thy ===== *)
theory Relay
  imports Json_Print Rules_Correct
begin

text \<open>
  The local relay's cleaning of a request (relay/src/clean.ts): every text of the inspected fields is
  analysed, through a bounded cache of analyses kept between requests, and replaced by its redacted
  form; a request that cannot be cleaned is refused.  A walk threads its counters and the cache, which
  outlives a refusal; the analysis the walk calls is an argument of its functions, as the cache is of
  the class, so that a walk without a cache is the same code.  Numbers are printed by a parameter.
\<close>

definition MAX_REQUEST_BYTES :: nat where "MAX_REQUEST_BYTES = 16 * 1048576"
definition MAX_TEXT_BYTES :: nat where "MAX_TEXT_BYTES = 8 * 1048576"
definition MAX_DEPTH :: nat where "MAX_DEPTH = 40"

definition INSPECTED_FIELDS :: "ustring list" where
  "INSPECTED_FIELDS = [js ''messages'', js ''system'', js ''tools'']"

definition PROTOCOL_KEYS :: "ustring list" where
  "PROTOCOL_KEYS = [js ''type'', js ''role'', js ''id'', js ''tool_use_id'', js ''name'']"

definition SENSITIVE_KEY :: regexp where
  "SENSITIVE_KEY = re ''^(?:[a-z0-9]+[_-])?(?:password|passwd|pwd|secret|token|api[_-]?key|access[_-]?key|access[_-]?token|client[_-]?secret)$'' ''i''"

definition FIELD_KIND :: ustring where "FIELD_KIND = js ''sensitive_field''"

definition FIELD_MARKER :: ustring where
  "FIELD_MARKER = js ''<REDACTED_'' @ FIELD_KIND @ js ''>''"

datatype unanalysed_policy = RefuseUnanalysed | AllowUnanalysed

datatype refusal_reason =
  RequestTooLarge | InvalidJson | MessagesRequired | RequestTooDeep | ScanIncomplete | RedactionIncomplete
| SecretInProtocolIdentifier | SecretInSignedThinking | SignedThinkingUnreadable | UnanalysedAttachment

record clean_options =
  co_unanalysed :: "unanalysed_policy option"
  co_rules :: "compiled_pack option"
  co_cacheBytes :: "nat option"

record cleaned_request =
  cl_body :: "nat list"
  cl_redactions :: nat
  cl_kinds :: "ustring list"
  cl_unanalysed :: nat

type_synonym clean_result = "refusal_reason + cleaned_request"

section \<open>The cache of analyses\<close>

record analysis =
  an_complete :: bool
  an_blocks :: bool
  an_kinds :: "ustring list"
  an_cleaned :: "ustring option"

definition DEFAULT_CACHE_BYTES :: nat where "DEFAULT_CACHE_BYTES = 64 * 1048576"

text \<open>The \<open>Map\<close> of the cache, in insertion order.\<close>

record analysis_cache =
  ac_entries :: "(ustring \<times> analysis) list"
  ac_bytes :: int

definition new_cache :: analysis_cache where
  "new_cache = \<lparr>ac_entries = [], ac_bytes = 0\<rparr>"

definition cache_limit :: "clean_options \<Rightarrow> nat" where
  "cache_limit options = (case co_cacheBytes options of None \<Rightarrow> DEFAULT_CACHE_BYTES | Some n \<Rightarrow> n)"

definition prompt_input :: "clean_options \<Rightarrow> ustring \<Rightarrow> scan_input" where
  "prompt_input options content =
     \<lparr>si_content = Some content, si_languageId = None, si_rules = co_rules options, si_workMeter = None\<rparr>"

definition compute_analysis :: "scan_env \<Rightarrow> clean_options \<Rightarrow> ustring \<Rightarrow> analysis" where
  "compute_analysis env options value' =
     (let input = prompt_input options value';
          result = fst (scan env input) in
      if \<not> sr_complete result \<or> sr_findings result = [] then
        \<lparr>an_complete = sr_complete result, an_blocks = False, an_kinds = [], an_cleaned = Some value'\<rparr>
      else
        let sanitized = redactAndRescan env input;
            clean = sr_complete (sz_final sanitized) \<and> sr_decision (sz_final sanitized) = ALLOW
        in \<lparr>an_complete = True, an_blocks = (sr_decision result = BLOCK),
            an_kinds = map fd_ruleId (sr_findings result),
            an_cleaned = (if clean then Some (sz_content sanitized) else None)\<rparr>)"

text \<open>The eviction loop over the keys, oldest first.\<close>

fun evict :: "nat \<Rightarrow> int \<Rightarrow> (ustring \<times> analysis) list \<Rightarrow> analysis_cache" where
  "evict limit bytes [] = \<lparr>ac_entries = [], ac_bytes = bytes\<rparr>"
| "evict limit bytes ((key, a) # entries) =
     (if bytes \<le> int limit then \<lparr>ac_entries = (key, a) # entries, ac_bytes = bytes\<rparr>
      else evict limit (bytes - 2 * int (length key)) entries)"

definition cache_store :: "clean_options \<Rightarrow> analysis_cache \<Rightarrow> ustring \<Rightarrow> analysis \<Rightarrow> analysis_cache" where
  "cache_store options cache value' analysis =
     (let size' = 2 * length value' in
      if cache_limit options < size' then cache
      else evict (cache_limit options) (ac_bytes cache + int size') (obj_set (ac_entries cache) value' analysis))"

definition cache_analyse ::
  "scan_env \<Rightarrow> clean_options \<Rightarrow> analysis_cache \<Rightarrow> ustring \<Rightarrow> analysis_cache \<times> analysis" where
  "cache_analyse env options cache value' =
     (case obj_get (ac_entries cache) value' of
        Some known \<Rightarrow>
          (cache\<lparr>ac_entries := obj_set (filter (\<lambda>kv. fst kv \<noteq> value') (ac_entries cache)) value' known\<rparr>, known)
      | None \<Rightarrow>
          let analysis = compute_analysis env options value'
          in (cache_store options cache value' analysis, analysis))"

section \<open>The walk of a request\<close>

record 'c walk =
  wk_redactions :: nat
  wk_unanalysed :: nat
  wk_kinds :: "ustring list"
  wk_textBytes :: nat
  wk_cache :: 'c

type_synonym ('c, 'a) walking = "'c walk \<Rightarrow> 'c walk \<times> (refusal_reason + 'a)"
type_synonym 'c analyser = "'c \<Rightarrow> ustring \<Rightarrow> 'c \<times> analysis"

definition new_walk :: "'c \<Rightarrow> 'c walk" where
  "new_walk cache = \<lparr>wk_redactions = 0, wk_unanalysed = 0, wk_kinds = [], wk_textBytes = 0, wk_cache = cache\<rparr>"

definition w_return :: "'a \<Rightarrow> ('c, 'a) walking" where "w_return x wk = (wk, Inr x)"
definition w_refuse :: "refusal_reason \<Rightarrow> ('c, 'a) walking" where "w_refuse e wk = (wk, Inl e)"

definition w_bind :: "('c, 'a) walking \<Rightarrow> ('a \<Rightarrow> ('c, 'b) walking) \<Rightarrow> ('c, 'b) walking" where
  "w_bind m g wk = (case m wk of (wk, Inl e) \<Rightarrow> (wk, Inl e) | (wk, Inr x) \<Rightarrow> g x wk)"

lemma w_bind_cong [fundef_cong]:
  assumes "m wk = m' wk'" and "\<And>wk1 x. m' wk' = (wk1, Inr x) \<Longrightarrow> g x wk1 = g' x wk1"
  shows "w_bind m g wk = w_bind m' g' wk'"
  using assms by (auto simp: w_bind_def split: prod.splits sum.splits)

definition walk_count :: "ustring \<Rightarrow> ('c, unit) walking" where
  "walk_count kind wk =
     (wk\<lparr>wk_redactions := wk_redactions wk + 1,
        wk_kinds := (if kind \<in> set (wk_kinds wk) then wk_kinds wk else wk_kinds wk @ [kind])\<rparr>, Inr ())"

fun walk_count_each :: "ustring list \<Rightarrow> ('c, unit) walking" where
  "walk_count_each [] = w_return ()"
| "walk_count_each (kind # kinds) = w_bind (walk_count kind) (\<lambda>_. walk_count_each kinds)"

definition walk_analyse :: "'c analyser \<Rightarrow> ustring \<Rightarrow> ('c, analysis) walking" where
  "walk_analyse A value' wk =
     (let wk = wk\<lparr>wk_textBytes := wk_textBytes wk + length (utf8_encode value')\<rparr> in
      if MAX_TEXT_BYTES < wk_textBytes wk then (wk, Inl RequestTooLarge)
      else case A (wk_cache wk) value' of
        (cache, analysis) \<Rightarrow>
          (wk\<lparr>wk_cache := cache\<rparr>, if \<not> an_complete analysis then Inl ScanIncomplete else Inr analysis))"

definition walk_text :: "'c analyser \<Rightarrow> ustring \<Rightarrow> ('c, ustring) walking" where
  "walk_text A value' =
     w_bind (walk_analyse A value') (\<lambda>analysis.
       if an_kinds analysis = [] then w_return value'
       else case an_cleaned analysis of
         None \<Rightarrow> w_refuse RedactionIncomplete
       | Some cleaned \<Rightarrow> w_bind (walk_count_each (an_kinds analysis)) (\<lambda>_. w_return cleaned))"

definition block_type :: "(ustring \<times> json) list \<Rightarrow> string \<Rightarrow> bool" where
  "block_type kvs name \<longleftrightarrow> obj_get kvs (js ''type'') = Some (JStr (js name))"

fun sensitive_item :: "json \<Rightarrow> bool" where
  "sensitive_item (JNum _) = True"
| "sensitive_item (JStr s) = (s \<noteq> [] \<and> \<not> isPlaceholder s)"
| "sensitive_item _ = False"

definition masks_field :: "ustring \<Rightarrow> json \<Rightarrow> bool" where
  "masks_field key item \<longleftrightarrow> rx_test SENSITIVE_KEY key \<and> sensitive_item item"

text \<open>\<open>visit\<close>, \<open>block\<close> and \<open>field\<close>.\<close>

fun visit :: "'c analyser \<Rightarrow> clean_options \<Rightarrow> nat \<Rightarrow> json \<Rightarrow> ('c, json) walking"
and visit_items :: "'c analyser \<Rightarrow> clean_options \<Rightarrow> nat \<Rightarrow> json list \<Rightarrow> ('c, json list) walking"
and walk_fields :: "'c analyser \<Rightarrow> clean_options \<Rightarrow> nat \<Rightarrow> (ustring \<times> json) list \<Rightarrow> ('c, (ustring \<times> json) list) walking" where
  "visit A options depth value' =
     (if MAX_DEPTH < depth then w_refuse RequestTooDeep
      else case value' of
        JStr s \<Rightarrow> w_bind (walk_text A s) (\<lambda>t. w_return (JStr t))
      | JArr vs \<Rightarrow> w_bind (visit_items A options (depth + 1) vs) (\<lambda>vs. w_return (JArr vs))
      | JObj kvs \<Rightarrow>
          if block_type kvs ''image'' \<or> block_type kvs ''document'' then
            (if co_unanalysed options \<noteq> Some AllowUnanalysed then w_refuse UnanalysedAttachment
             else (\<lambda>wk. (wk\<lparr>wk_unanalysed := wk_unanalysed wk + 1\<rparr>, Inr value')))
          else if block_type kvs ''redacted_thinking'' then w_return value'
          else if block_type kvs ''thinking'' then
            (case obj_get kvs (js ''thinking'') of
               Some (JStr s) \<Rightarrow>
                 w_bind (walk_analyse A s) (\<lambda>analysis.
                   if an_kinds analysis \<noteq> [] then w_refuse SecretInSignedThinking else w_return value')
             | _ \<Rightarrow> w_refuse SignedThinkingUnreadable)
          else w_bind (walk_fields A options depth (own_entries kvs)) (\<lambda>kvs. w_return (JObj kvs))
      | _ \<Rightarrow> w_return value')"
| "visit_items A options depth [] = w_return []"
| "visit_items A options depth (v # vs) =
     w_bind (visit A options depth v) (\<lambda>v. w_bind (visit_items A options depth vs) (\<lambda>vs. w_return (v # vs)))"
| "walk_fields A options depth [] = w_return []"
| "walk_fields A options depth ((key, item) # kvs) =
     w_bind
       (if masks_field key item then w_bind (walk_count FIELD_KIND) (\<lambda>_. w_return (JStr FIELD_MARKER))
        else case item of
          JStr s \<Rightarrow>
            if key \<in> set PROTOCOL_KEYS then
              w_bind (walk_analyse A s) (\<lambda>analysis.
                if an_blocks analysis then w_refuse SecretInProtocolIdentifier else w_return item)
            else visit A options (depth + 1) item
        | _ \<Rightarrow> visit A options (depth + 1) item)
       (\<lambda>item. w_bind (walk_fields A options depth kvs) (\<lambda>kvs. w_return ((key, item) # kvs)))"

declare visit.simps [simp del]

section \<open>Cleaning\<close>

definition parse_body :: "nat list \<Rightarrow> json option" where
  "parse_body body = (case utf8_decode body of None \<Rightarrow> None | Some s \<Rightarrow> json_parse s)"

text \<open>\<open>for (const field of INSPECTED_FIELDS) if (field in data) data[field] = walk.visit(...)\<close>.\<close>

fun inspect_fields ::
  "'c analyser \<Rightarrow> clean_options \<Rightarrow> ustring list \<Rightarrow> (ustring \<times> json) list \<Rightarrow> ('c, (ustring \<times> json) list) walking" where
  "inspect_fields A options [] data = w_return data"
| "inspect_fields A options (f # fs) data =
     (case obj_get data f of
        None \<Rightarrow> inspect_fields A options fs data
      | Some v \<Rightarrow> w_bind (visit A options 0 v) (\<lambda>v. inspect_fields A options fs (obj_set data f v)))"

fun units_le :: "ustring \<Rightarrow> ustring \<Rightarrow> bool" where
  "units_le [] t = True"
| "units_le (a # s) [] = False"
| "units_le (a # s) (b # t) = (a < b \<or> (a = b \<and> units_le s t))"

definition finish_clean :: "number_text \<Rightarrow> nat list \<Rightarrow> 'c walk \<Rightarrow> (ustring \<times> json) list \<Rightarrow> clean_result" where
  "finish_clean N body wk data =
     (let summary = (\<lambda>b. \<lparr>cl_body = b, cl_redactions = wk_redactions wk, cl_kinds = sort_by units_le (wk_kinds wk),
            cl_unanalysed = wk_unanalysed wk\<rparr>) in
      if wk_redactions wk = 0 then Inr (summary body)
      else
        let cleaned = utf8_encode (json_stringify N (JObj data))
        in if MAX_REQUEST_BYTES < length cleaned then Inl RequestTooLarge else Inr (summary cleaned))"

definition clean_with ::
  "'c analyser \<Rightarrow> clean_options \<Rightarrow> number_text \<Rightarrow> nat list \<Rightarrow> 'c \<Rightarrow> 'c \<times> clean_result" where
  "clean_with A options N body cache =
     (if MAX_REQUEST_BYTES < length body then (cache, Inl RequestTooLarge)
      else case parse_body body of
        None \<Rightarrow> (cache, Inl InvalidJson)
      | Some (JObj data) \<Rightarrow>
          (case obj_get data (js ''messages'') of
             Some (JArr _) \<Rightarrow>
               (case inspect_fields A options INSPECTED_FIELDS data (new_walk cache) of
                  (wk, Inl e) \<Rightarrow> (wk_cache wk, Inl e)
                | (wk, Inr data) \<Rightarrow> (wk_cache wk, finish_clean N body wk data))
           | _ \<Rightarrow> (cache, Inl MessagesRequired))
      | Some _ \<Rightarrow> (cache, Inl MessagesRequired))"

text \<open>\<open>createCleaner\<close>: the requests of a session share a cache; \<open>cleanRequest\<close> starts from an empty one.\<close>

definition clean_request ::
  "scan_env \<Rightarrow> clean_options \<Rightarrow> number_text \<Rightarrow> nat list \<Rightarrow> clean_result" where
  "clean_request env options N body = snd (clean_with (cache_analyse env options) options N body new_cache)"

fun clean_session ::
  "scan_env \<Rightarrow> clean_options \<Rightarrow> number_text \<Rightarrow> analysis_cache \<Rightarrow> nat list list \<Rightarrow> analysis_cache \<times> clean_result list" where
  "clean_session env options N cache [] = (cache, [])"
| "clean_session env options N cache (body # bodies) =
     (let (cache, r) = clean_with (cache_analyse env options) options N body cache;
          (cache, rs) = clean_session env options N cache bodies
      in (cache, r # rs))"

end
