(* ===== verification/Relay_Correct.thy ===== *)
theory Relay_Correct
  imports Relay
begin

text \<open>
  What the relay promises: the cache keeps its byte bound and never changes an answer, so a request
  of a session is answered as a one-off cleaning answers it; only texts change; and whatever is
  forwarded holds, where the code looks for text, no secret of a fixed format.
\<close>

lemmas visit_induct =
  visit_visit_items_walk_fields.induct [of "\<lambda>(_ :: unit analyser) _. P" "\<lambda>_ _. Q" "\<lambda>_ _. R" for P Q R]

section \<open>A memo of a function, and the walks that use one\<close>

text \<open>Two states that differ in their caches only.\<close>

definition same_counters :: "'c walk \<Rightarrow> 'd walk \<Rightarrow> bool" where
  "same_counters wk wk' \<longleftrightarrow> wk_redactions wk = wk_redactions wk' \<and> wk_unanalysed wk = wk_unanalysed wk' \<and>
     wk_kinds wk = wk_kinds wk' \<and> wk_textBytes wk = wk_textBytes wk'"

definition pure_analyser :: "(ustring \<Rightarrow> analysis) \<Rightarrow> unit analyser" where
  "pure_analyser compute = (\<lambda>c s. (c, compute s))"

locale analysis_memo =
  fixes step :: "'c analyser" and compute :: "ustring \<Rightarrow> analysis" and good :: "'c \<Rightarrow> bool"
  assumes step_good: "good c \<Longrightarrow> good (fst (step c s))"
    and step_exact: "good c \<Longrightarrow> snd (step c s) = compute s"
begin

definition agrees :: "('c, 'a) walking \<Rightarrow> (unit, 'a) walking \<Rightarrow> bool" where
  "agrees m m' \<longleftrightarrow> (\<forall>wk wk'. same_counters wk wk' \<longrightarrow> good (wk_cache wk) \<longrightarrow>
     same_counters (fst (m wk)) (fst (m' wk')) \<and> good (wk_cache (fst (m wk))) \<and> snd (m wk) = snd (m' wk'))"

lemma agrees_return: "agrees (w_return x) (w_return x)"
  by (simp add: agrees_def w_return_def)

lemma agrees_refuse: "agrees (w_refuse e) (w_refuse e)"
  by (simp add: agrees_def w_refuse_def)

lemma agrees_bind:
  assumes "agrees m m'" and "\<And>x. agrees (g x) (g' x)"
  shows "agrees (w_bind m g) (w_bind m' g')"
  unfolding agrees_def
proof (intro allI impI)
  fix wk :: "'c walk" and wk' :: "unit walk"
  assume h: "same_counters wk wk'" "good (wk_cache wk)"
  obtain wk1 r wk1' r' where m: "m wk = (wk1, r)" "m' wk' = (wk1', r')" by fastforce
  with assms(1) h have r: "same_counters wk1 wk1'" "good (wk_cache wk1)" "r = r'"
    unfolding agrees_def by fastforce+
  show "same_counters (fst (w_bind m g wk)) (fst (w_bind m' g' wk')) \<and>
      good (wk_cache (fst (w_bind m g wk))) \<and> snd (w_bind m g wk) = snd (w_bind m' g' wk')"
  proof (cases r)
    case (Inl e)
    with m r show ?thesis by (auto simp: w_bind_def)
  next
    case (Inr x)
    with assms(2) [of x] m r show ?thesis unfolding agrees_def w_bind_def by auto
  qed
qed

lemma agrees_if: "(b \<Longrightarrow> agrees m m') \<Longrightarrow> (\<not> b \<Longrightarrow> agrees n n') \<Longrightarrow> agrees (if b then m else n) (if b then m' else n')"
  by simp

lemma agrees_count: "agrees (walk_count kind) (walk_count kind)"
  by (simp add: agrees_def walk_count_def same_counters_def)

lemma agrees_count_each: "agrees (walk_count_each kinds) (walk_count_each kinds)"
  by (induction kinds) (simp_all add: agrees_return agrees_bind agrees_count)

lemma agrees_unanalysed:
  "agrees (\<lambda>wk. (wk\<lparr>wk_unanalysed := wk_unanalysed wk + 1\<rparr>, Inr v)) (\<lambda>wk. (wk\<lparr>wk_unanalysed := wk_unanalysed wk + 1\<rparr>, Inr v))"
  by (simp add: agrees_def same_counters_def)

lemma agrees_analyse: "agrees (walk_analyse step s) (walk_analyse (pure_analyser compute) s)"
  using step_good step_exact
  by (auto simp: agrees_def walk_analyse_def pure_analyser_def same_counters_def Let_def split: prod.splits)
    (metis fst_conv snd_conv)+

lemmas agrees_intros = agrees_return agrees_refuse agrees_bind agrees_if agrees_count agrees_count_each
  agrees_unanalysed agrees_analyse

lemma agrees_text: "agrees (walk_text step s) (walk_text (pure_analyser compute) s)"
  unfolding walk_text_def by (intro agrees_intros) (auto intro!: agrees_intros split: option.splits)

lemma visit_agrees:
  shows agrees_visit: "agrees (visit step options depth v) (visit (pure_analyser compute) options depth v)"
    and agrees_items: "agrees (visit_items step options depth vs) (visit_items (pure_analyser compute) options depth vs)"
    and agrees_fields: "agrees (walk_fields step options depth kvs) (walk_fields (pure_analyser compute) options depth kvs)"
proof (induction depth v and depth vs and depth kvs rule: visit_induct)
  case (1 A0 options0 depth v)
  show ?case
  proof (cases "MAX_DEPTH < depth")
    case True
    then show ?thesis by (simp add: visit.simps agrees_refuse)
  next
    case False
    show ?thesis
    proof (cases v)
      case (JStr s)
      then show ?thesis
        using False by (auto simp: visit.simps intro!: agrees_intros agrees_text)
    next
      case (JArr vs)
      with 1 False show ?thesis by (auto simp: visit.simps intro!: agrees_intros)
    next
      case (JObj kvs)
      have "agrees (case obj_get kvs (js ''thinking'') of Some (JStr s) \<Rightarrow>
             w_bind (walk_analyse step s) (\<lambda>analysis.
               if an_kinds analysis \<noteq> [] then w_refuse SecretInSignedThinking else w_return v)
           | _ \<Rightarrow> w_refuse SignedThinkingUnreadable)
         (case obj_get kvs (js ''thinking'') of Some (JStr s) \<Rightarrow>
             w_bind (walk_analyse (pure_analyser compute) s) (\<lambda>analysis.
               if an_kinds analysis \<noteq> [] then w_refuse SecretInSignedThinking else w_return v)
           | _ \<Rightarrow> w_refuse SignedThinkingUnreadable)"
        by (cases "obj_get kvs (js ''thinking'')"; cases "the (obj_get kvs (js ''thinking''))")
          (simp_all add: agrees_refuse agrees_bind agrees_analyse agrees_if agrees_return)
      then show ?thesis
        unfolding visit.simps [of step] visit.simps [of "pure_analyser compute"] if_not_P [OF False]
        using 1(2) [OF False JObj]
        by (simp only: JObj json.case) (intro agrees_if agrees_refuse agrees_unanalysed agrees_return agrees_bind; simp)
    qed (use False in \<open>simp_all add: visit.simps agrees_return\<close>)
  qed
next
  case (2 A options0 depth)
  then show ?case by (simp add: agrees_return)
next
  case (3 A options0 depth v vs)
  then show ?case by (simp add: agrees_return agrees_bind)
next
  case (4 A options0 depth)
  then show ?case by (simp add: agrees_return)
next
  case (5 A options0 depth key item kvs)
  have "agrees (visit step options (depth + 1) item) (visit (pure_analyser compute) options (depth + 1) item)"
    if "\<not> masks_field key item" "\<And>s. item = JStr s \<Longrightarrow> key \<notin> set PROTOCOL_KEYS"
    using 5 that by (cases item) simp_all
  then have "agrees
      (if masks_field key item then w_bind (walk_count FIELD_KIND) (\<lambda>_. w_return (JStr FIELD_MARKER))
        else case item of
          JStr s \<Rightarrow>
            if key \<in> set PROTOCOL_KEYS then
              w_bind (walk_analyse step s) (\<lambda>analysis.
                if an_blocks analysis then w_refuse SecretInProtocolIdentifier else w_return item)
            else visit step options (depth + 1) item
        | _ \<Rightarrow> visit step options (depth + 1) item)
      (if masks_field key item then w_bind (walk_count FIELD_KIND) (\<lambda>_. w_return (JStr FIELD_MARKER))
        else case item of
          JStr s \<Rightarrow>
            if key \<in> set PROTOCOL_KEYS then
              w_bind (walk_analyse (pure_analyser compute) s) (\<lambda>analysis.
                if an_blocks analysis then w_refuse SecretInProtocolIdentifier else w_return item)
            else visit (pure_analyser compute) options (depth + 1) item
        | _ \<Rightarrow> visit (pure_analyser compute) options (depth + 1) item)"
    by (cases item) (simp_all add: agrees_refuse agrees_bind agrees_analyse agrees_if agrees_return agrees_count)
  moreover have "agrees (walk_fields step options depth kvs) (walk_fields (pure_analyser compute) options depth kvs)"
    using 5 by simp
  ultimately show ?case by (simp add: agrees_bind agrees_return)
qed

lemma agrees_inspect: "agrees (inspect_fields step options fs data) (inspect_fields (pure_analyser compute) options fs data)"
  by (induction fs arbitrary: data) (auto simp: agrees_return intro!: agrees_bind agrees_visit split: option.splits)

text \<open>A memo changes no answer.\<close>

lemma clean_with_memo:
  assumes "good c"
  shows "good (fst (clean_with step options N body c))"
    and "snd (clean_with step options N body c) = snd (clean_with (pure_analyser compute) options N body ())"
proof -
  have "same_counters (new_walk c) (new_walk ())" "good (wk_cache (new_walk c))"
    using assms by (simp_all add: same_counters_def new_walk_def)
  then have
    "same_counters (fst (inspect_fields step options fs data (new_walk c)))
        (fst (inspect_fields (pure_analyser compute) options fs data (new_walk ()))) \<and>
      good (wk_cache (fst (inspect_fields step options fs data (new_walk c)))) \<and>
      snd (inspect_fields step options fs data (new_walk c)) =
        snd (inspect_fields (pure_analyser compute) options fs data (new_walk ()))" for fs data
    using agrees_inspect unfolding agrees_def by blast
  moreover have "finish_clean N body wk data = finish_clean N body wk' data" if "same_counters wk wk'"
    for wk :: "'c walk" and wk' :: "unit walk" and data
    using that by (simp add: finish_clean_def same_counters_def)
  ultimately show "good (fst (clean_with step options N body c))"
    "snd (clean_with step options N body c) = snd (clean_with (pure_analyser compute) options N body ())"
    using assms by (auto simp: clean_with_def split: option.splits json.splits prod.splits sum.splits) (metis fst_conv snd_conv sum.inject(2) sum.distinct(1) sum.inject(1))+
qed

end

section \<open>The bounded cache is such a memo\<close>

definition entry_bytes :: "(ustring \<times> analysis) \<Rightarrow> int" where
  "entry_bytes kv = 2 * int (length (fst kv))"

definition cache_accounts :: "clean_options \<Rightarrow> analysis_cache \<Rightarrow> bool" where
  "cache_accounts options c \<longleftrightarrow> distinct (map fst (ac_entries c)) \<and>
     ac_bytes c = sum_list (map entry_bytes (ac_entries c)) \<and> ac_bytes c \<le> int (cache_limit options)"

definition cache_exact :: "scan_env \<Rightarrow> clean_options \<Rightarrow> analysis_cache \<Rightarrow> bool" where
  "cache_exact env options c \<longleftrightarrow>
     cache_accounts options c \<and> list_all (\<lambda>(s, a). a = compute_analysis env options s) (ac_entries c)"

lemma evict_accounts:
  assumes "distinct (map fst es)" and "bytes = sum_list (map entry_bytes es)"
  shows "cache_accounts options (evict (cache_limit options) bytes es) \<and>
    set (ac_entries (evict (cache_limit options) bytes es)) \<subseteq> set es"
  using assms
proof (induction "cache_limit options" bytes es rule: evict.induct)
  case (2 bytes key a es)
  show ?case
  proof (cases "bytes \<le> int (cache_limit options)")
    case True
    with 2 show ?thesis by (simp add: cache_accounts_def)
  next
    case False
    with 2 show ?thesis by (auto simp: entry_bytes_def)
  qed
qed (simp add: cache_accounts_def)

lemma sum_without_key:
  "distinct (map fst es) \<Longrightarrow> map_of es k = Some a \<Longrightarrow>
     sum_list (map entry_bytes (filter (\<lambda>kv. fst kv \<noteq> k) es)) + entry_bytes (k, a) = sum_list (map entry_bytes es)"
proof (induction es)
  case (Cons kv es)
  show ?case
  proof (cases "fst kv = k")
    case True
    with Cons.prems(1) have "k \<notin> fst ` set es" by simp
    then have "filter (\<lambda>kv. fst kv \<noteq> k) es = es" by (intro filter_True) blast
    with True Cons.prems(2) show ?thesis by (cases kv) simp
  next
    case False
    with Cons show ?thesis by (cases kv) simp
  qed
qed simp

lemma cache_exact_new: "cache_exact env options new_cache"
  by (simp add: cache_exact_def cache_accounts_def new_cache_def)

lemma cache_store_exact:
  assumes "cache_exact env options c" and "obj_get (ac_entries c) s = None"
  shows "cache_exact env options (cache_store options c s (compute_analysis env options s))"
proof (cases "cache_limit options < 2 * length s")
  case True
  with assms(1) show ?thesis by (simp add: cache_store_def)
next
  case False
  have fresh: "s \<notin> fst ` set (ac_entries c)"
    using assms(2) by (metis domIff map_of_eq_None_iff obj_get_def)
  let ?es = "ac_entries c @ [(s, compute_analysis env options s)]"
  have "distinct (map fst ?es)" "ac_bytes c + int (2 * length s) = sum_list (map entry_bytes ?es)"
    using assms(1) fresh by (auto simp: cache_exact_def cache_accounts_def entry_bytes_def)
  from evict_accounts [OF this, of options] assms(1) False show ?thesis
    unfolding cache_exact_def cache_store_def Let_def obj_set_fresh [OF fresh]
    by (auto simp: list_all_iff)
qed

lemma cache_analyse_exact:
  assumes "cache_exact env options c"
  shows "cache_exact env options (fst (cache_analyse env options c s)) \<and>
    snd (cache_analyse env options c s) = compute_analysis env options s"
proof (cases "obj_get (ac_entries c) s")
  case None
  with assms cache_store_exact show ?thesis by (simp add: cache_analyse_def Let_def)
next
  case (Some known)
  let ?rest = "filter (\<lambda>kv. fst kv \<noteq> s) (ac_entries c)"
  have set': "obj_set ?rest s a = ?rest @ [(s, a)]" for a by (rule obj_set_fresh) auto
  have get: "map_of (ac_entries c) s = Some known" using Some by (simp add: obj_get_def)
  then have known: "known = compute_analysis env options s"
    using assms by (auto simp: cache_exact_def list_all_iff dest!: map_of_SomeD)
  have "distinct (map fst (ac_entries c))" using assms by (simp add: cache_exact_def cache_accounts_def)
  then have "distinct (map fst (?rest @ [(s, known)]))"
    "sum_list (map entry_bytes (?rest @ [(s, known)])) = sum_list (map entry_bytes (ac_entries c))"
    using sum_without_key [OF _ get] by (auto simp: distinct_map_filter)
  with assms Some known show ?thesis
    unfolding cache_analyse_def cache_exact_def cache_accounts_def by (auto simp: set' list_all_iff)
qed

interpretation cache: analysis_memo "cache_analyse env options" "compute_analysis env options" "cache_exact env options"
  for env options
  by unfold_locales (simp_all add: cache_analyse_exact)

text \<open>One-off cleaning, as cleaning with no cache at all.\<close>

lemma clean_request_pure:
  "clean_request env options N body =
     snd (clean_with (pure_analyser (compute_analysis env options)) options N body ())"
  unfolding clean_request_def by (rule cache.clean_with_memo(2)) (rule cache_exact_new)

lemma clean_session_exact:
  "cache_exact env options c \<Longrightarrow>
     cache_exact env options (fst (clean_session env options N c bodies)) \<and>
     snd (clean_session env options N c bodies) = map (clean_request env options N) bodies"
proof (induction bodies arbitrary: c)
  case (Cons body bodies)
  obtain c' r where step: "clean_with (cache_analyse env options) options N body c = (c', r)" by fastforce
  have "cache_exact env options c'"
    using cache.clean_with_memo(1) [OF Cons.prems] step by (metis fst_conv)
  moreover have "r = clean_request env options N body"
    using cache.clean_with_memo(2) [OF Cons.prems] step unfolding clean_request_pure by (metis snd_conv)
  ultimately show ?case using Cons.IH [of c'] by (simp add: step split_beta)
qed simp

text \<open>C8: The cache is transparent: in a session of any length, whatever was asked and refused before,
  every request gets the answer a one-off cleaning with an empty cache gives it.\<close>

theorem session_answers_as_one_off:
  "snd (clean_session env options N new_cache bodies) = map (clean_request env options N) bodies"
  using clean_session_exact [OF cache_exact_new] by blast

text \<open>C9: The cache stays within its bound: after any session its byte count is that of its entries, no
  key is stored twice, and the count is at most the limit of the options.\<close>

theorem cache_stays_bounded:
  "cache_accounts options (fst (clean_session env options N new_cache bodies))"
  using clean_session_exact [OF cache_exact_new] unfolding cache_exact_def by blast

end
