(* ===== verification/Rules_Trust.thy ===== *)
theory Rules_Trust
  imports Json_Print Rules_Pack
begin

text \<open>
  The authenticity of a rules pack and the local state of the workstation (runner/src/rules-pack.ts
  and canonicalizePolicyPayload of runner/src/policy-signature.ts): the authority keys of the build,
  the signed envelope, the acceptance of a pack, and the two files the hook runner reads again.  The
  platform's cryptography, its number printing and its lossy UTF-8 decoding are a record of
  parameters; the build's keys and the current time are arguments.
\<close>

section \<open>The platform\<close>

text \<open>\<open>pf_import\<close> is \<open>createPublicKey\<close> on the raw key bytes (\<open>None\<close> when it throws), \<open>pf_verify\<close> the
  Ed25519 verification of a message and a signature (\<open>False\<close> when it throws), \<open>pf_text\<close> is
  \<open>Buffer.toString("utf8")\<close>.\<close>

record 'k platform =
  pf_sha256 :: "nat list \<Rightarrow> ustring"
  pf_import :: "nat list \<Rightarrow> 'k option"
  pf_verify :: "'k \<Rightarrow> nat list \<Rightarrow> nat list \<Rightarrow> bool"
  pf_text :: "nat list \<Rightarrow> ustring"
  pf_number :: number_text

text \<open>\<open>Buffer.from(s, "base64")\<close>: the characters before the first \<open>=\<close>, those outside both alphabets
  skipped; incomplete bytes are dropped.\<close>

definition base64_sextet :: "nat \<Rightarrow> nat option" where
  "base64_sextet c =
     (if is_upper_alpha c then Some (c - 65) else if is_lower_alpha c then Some (c - 71)
      else if is_digit c then Some (c + 4) else if c = 43 \<or> c = 45 then Some 62
      else if c = 47 \<or> c = 95 then Some 63 else None)"

fun sextet_bytes :: "nat list \<Rightarrow> nat list" where
  "sextet_bytes (a # b # c # d # s) =
     [a * 4 + b div 16, b mod 16 * 16 + c div 4, c mod 4 * 64 + d] @ sextet_bytes s"
| "sextet_bytes [a, b, c] = [a * 4 + b div 16, b mod 16 * 16 + c div 4]"
| "sextet_bytes [a, b] = [a * 4 + b div 16]"
| "sextet_bytes _ = []"

definition base64_bytes :: "ustring \<Rightarrow> nat list" where
  "base64_bytes s = sextet_bytes (List.map_filter base64_sextet (takeWhile (\<lambda>c. c \<noteq> 61) s))"

section \<open>Authority keys\<close>

definition MAX_RULES_PACK_BYTES :: nat where "MAX_RULES_PACK_BYTES = 4 * 1024 * 1024"

record 'k authority_key =
  ak_keyId :: ustring
  ak_publicKey :: ustring
  ak_key :: 'k

datatype rules_refusal =
  NoAuthorityKey | MalformedEnvelope | UnknownKey | InvalidSignature | InvalidPack | TenantMismatch | TenantUnknown
| VersionDowngrade | VersionConflict | TooLarge | Unreadable

definition historyKey :: "ustring \<Rightarrow> ustring \<Rightarrow> ustring" where
  "historyKey tenantId packId = packId @ js ''@'' @ tenantId"

definition ownEntry :: "(ustring \<times> 'a) list \<Rightarrow> ustring \<Rightarrow> 'a option" where
  "ownEntry = obj_get"

text \<open>The argument is \<open>date.toISOString()\<close>.\<close>

definition contractTimestamp :: "ustring \<Rightarrow> ustring" where
  "contractTimestamp isoText = take 19 isoText @ js ''Z''"

definition authorityKeyId :: "'k platform \<Rightarrow> ustring \<Rightarrow> ustring" where
  "authorityKeyId F publicKey = pf_sha256 F (base64_bytes publicKey)"

definition is_base64_char :: "nat \<Rightarrow> bool" where
  "is_base64_char c \<longleftrightarrow> is_alnum c \<or> c = 43 \<or> c = 47"

text \<open>\<open>/^[A-Za-z0-9+/]{n}={p}$/\<close>.\<close>

definition base64_text :: "nat \<Rightarrow> nat \<Rightarrow> ustring \<Rightarrow> bool" where
  "base64_text n p s \<longleftrightarrow> length s = n + p \<and> list_all is_base64_char (take n s) \<and> drop n s = replicate p 61"

text \<open>The loop of \<open>parseAuthorityKeys\<close>: any malformed entry empties the list.\<close>

fun parse_keys :: "'k platform \<Rightarrow> ustring list \<Rightarrow> 'k authority_key list option" where
  "parse_keys F [] = Some []"
| "parse_keys F (publicKey # entries) =
     (if \<not> base64_text 43 1 publicKey then None
      else
        let raw = base64_bytes publicKey in
        if length raw \<noteq> 32 then None
        else case pf_import F raw of
          None \<Rightarrow> None
        | Some key \<Rightarrow>
            map_option (\<lambda>keys. \<lparr>ak_keyId = authorityKeyId F publicKey, ak_publicKey = publicKey, ak_key = key\<rparr> # keys)
              (parse_keys F entries))"

definition parseAuthorityKeys :: "'k platform \<Rightarrow> ustring \<Rightarrow> 'k authority_key list" where
  "parseAuthorityKeys F source =
     (case parse_keys F (filter (\<lambda>entry. entry \<noteq> []) (map js_trim (split_on 44 source))) of
        None \<Rightarrow> [] | Some keys \<Rightarrow> keys)"

section \<open>The canonical form\<close>

text \<open>\<open>Object.keys(object).sort()\<close>.\<close>

definition member_le :: "(ustring \<times> 'a) \<Rightarrow> (ustring \<times> 'a) \<Rightarrow> bool" where
  "member_le a b \<longleftrightarrow> \<not> string_less (fst b) (fst a)"

definition sort_members :: "(ustring \<times> 'a) list \<Rightarrow> (ustring \<times> 'a) list" where
  "sort_members kvs = sort_by member_le kvs"

fun canonicalizePolicyPayload :: "number_text \<Rightarrow> json \<Rightarrow> ustring" where
  "canonicalizePolicyPayload N (JArr vs) = 91 # join_with [44] (map (canonicalizePolicyPayload N) vs) @ [93]"
| "canonicalizePolicyPayload N (JObj kvs) =
     123 # join_with [44] (map (\<lambda>(k, t). json_string k @ 58 # t)
       (sort_members (map (\<lambda>(k, v). (k, canonicalizePolicyPayload N v)) kvs))) @ [125]"
| "canonicalizePolicyPayload N v = json_stringify N v"

section \<open>The envelope\<close>

record verified_envelope =
  ve_payload :: json
  ve_keyId :: ustring
  ve_digest :: ustring

definition HEX64 :: "ustring \<Rightarrow> bool" where
  "HEX64 s \<longleftrightarrow> length s = 64 \<and> list_all (\<lambda>c. is_digit c \<or> (97 \<le> c \<and> c \<le> 102)) s"

definition envelope_fields :: "json \<Rightarrow> (json \<times> ustring \<times> ustring) option" where
  "envelope_fields value' =
     (case as_object value' of
        None \<Rightarrow> None
      | Some kvs \<Rightarrow>
          (case (field value' ''payload'', field value' ''keyId'', field value' ''signature'') of
             (Some payload, Some (JStr keyId), Some (JStr signature)) \<Rightarrow>
               if length kvs = 3 \<and> isObject payload \<and> HEX64 keyId \<and> base64_text 86 2 signature
               then Some (payload, keyId, signature) else None
           | _ \<Rightarrow> None))"

definition verifyRulesPackEnvelope ::
  "'k platform \<Rightarrow> json \<Rightarrow> 'k authority_key list \<Rightarrow> rules_refusal + verified_envelope" where
  "verifyRulesPackEnvelope F value' keys =
     (if keys = [] then Inl NoAuthorityKey
      else case envelope_fields value' of
        None \<Rightarrow> Inl MalformedEnvelope
      | Some (payload, keyId, signature) \<Rightarrow>
          (case List.find (\<lambda>key. ak_keyId key = keyId) keys of
             None \<Rightarrow> Inl UnknownKey
           | Some authority \<Rightarrow>
               let canonical = utf8_encode (canonicalizePolicyPayload (pf_number F) payload) in
               if \<not> pf_verify F (ak_key authority) canonical (base64_bytes signature) then Inl InvalidSignature
               else Inr \<lparr>ve_payload = payload, ve_keyId = keyId, ve_digest = pf_sha256 F canonical\<rparr>))"

section \<open>Acceptance\<close>

record accepted_version =
  av_version :: rat
  av_digest :: ustring

record 'k acceptance_context =
  ac_keys :: "'k authority_key list"
  ac_enrolledTenant :: "ustring option"
  ac_highest :: "(ustring \<times> accepted_version) list"
  ac_now :: ustring
  ac_selfTestedDigest :: "ustring option"

record accepted_pack =
  ap_pack :: compiled_pack
  ap_digest :: ustring
  ap_keyId :: ustring
  ap_expired :: bool

type_synonym refused_pack = "rules_refusal \<times> rules_pack_error option"

text \<open>The fields of \<open>quickPayload\<close>: tenant, pack, version and expiry.\<close>

definition quickPayload :: "json \<Rightarrow> (ustring \<times> ustring \<times> rat \<times> ustring) option" where
  "quickPayload payload =
     (case (field payload ''tenantId'', field payload ''packId'', field payload ''version'', field payload ''expiresAt'') of
        (Some (JStr tenantId), Some (JStr packId), Some (JNum version), Some (JStr expiresAt)) \<Rightarrow>
          Some (tenantId, packId, version, expiresAt)
      | _ \<Rightarrow> None)"

definition history_refusal :: "accepted_version option \<Rightarrow> rat \<Rightarrow> ustring \<Rightarrow> rules_refusal option" where
  "history_refusal previous version sha =
     (case previous of
        None \<Rightarrow> None
      | Some p \<Rightarrow>
          if version < av_version p then Some VersionDowngrade
          else if version = av_version p \<and> sha \<noteq> av_digest p then Some VersionConflict
          else None)"

definition acceptRulesPack ::
  "'k platform \<Rightarrow> unicode \<Rightarrow> native_engine \<Rightarrow> json \<Rightarrow> 'k acceptance_context \<Rightarrow> refused_pack + accepted_pack" where
  "acceptRulesPack F U R envelope context' =
     (case verifyRulesPackEnvelope F envelope (ac_keys context') of
        Inl e \<Rightarrow> Inl (e, None)
      | Inr verified \<Rightarrow>
          (case quickPayload (ve_payload verified) of
             None \<Rightarrow> Inl (InvalidPack, Some ErrSchema)
           | Some (tenantId, packId, version, expiresAt) \<Rightarrow>
               (case ac_enrolledTenant context' of
                  None \<Rightarrow> Inl (TenantUnknown, None)
                | Some enrolled \<Rightarrow>
                    if tenantId \<noteq> enrolled then Inl (TenantMismatch, None)
                    else case history_refusal (ownEntry (ac_highest context') (historyKey tenantId packId))
                                version (ve_digest verified) of
                      Some e \<Rightarrow> Inl (e, None)
                    | None \<Rightarrow>
                        (case compileRulesPack U R (ve_payload verified)
                                (ac_selfTestedDigest context' \<noteq> Some (ve_digest verified)) of
                           Inl e \<Rightarrow> Inl (InvalidPack, Some e)
                         | Inr pack \<Rightarrow>
                             Inr \<lparr>ap_pack = pack, ap_digest = ve_digest verified, ap_keyId = ve_keyId verified,
                                  ap_expired = (\<not> string_less (contractTimestamp (ac_now context')) expiresAt)\<rparr>))))"

section \<open>Local files\<close>

datatype disk_file = FileAbsent | FileUnreadable | FileContent "nat list"

datatype bounded_read = ReadAbsent | ReadTooLarge | ReadUnreadable | ReadText ustring

fun readBoundedFile :: "'k platform \<Rightarrow> disk_file \<Rightarrow> bounded_read" where
  "readBoundedFile F FileAbsent = ReadAbsent"
| "readBoundedFile F FileUnreadable = ReadUnreadable"
| "readBoundedFile F (FileContent bytes) =
     (if MAX_RULES_PACK_BYTES < length bytes then ReadTooLarge else ReadText (pf_text F bytes))"

datatype tenant_source = FromRegister | FromPolicy | FromFirstPack | FromImport
datatype sync_outcome = SyncApplied | SyncNone | SyncRejected | SyncError
datatype sync_reason = Refusal rules_refusal | SyncFailed

record sync_record =
  sy_at :: ustring
  sy_outcome :: sync_outcome
  sy_reason :: "sync_reason option"

record rules_state =
  rs_tenantId :: "ustring option"
  rs_tenantSource :: "tenant_source option"
  rs_highest :: "(ustring \<times> accepted_version) list"
  rs_selfTestedDigest :: "ustring option"
  rs_lastSync :: "sync_record option"

definition EMPTY_RULES_PACK_STATE :: rules_state where
  "EMPTY_RULES_PACK_STATE =
     \<lparr>rs_tenantId = None, rs_tenantSource = None, rs_highest = [], rs_selfTestedDigest = None, rs_lastSync = None\<rparr>"

definition SOURCES :: "(ustring \<times> tenant_source) list" where
  "SOURCES = [(js ''register'', FromRegister), (js ''policy'', FromPolicy), (js ''first_pack'', FromFirstPack),
     (js ''import'', FromImport)]"

definition SYNC_OUTCOMES :: "(ustring \<times> sync_outcome) list" where
  "SYNC_OUTCOMES = [(js ''applied'', SyncApplied), (js ''none'', SyncNone), (js ''rejected'', SyncRejected),
     (js ''error'', SyncError)]"

definition SYNC_REASONS :: "(ustring \<times> sync_reason) list" where
  "SYNC_REASONS = [(js ''no_authority_key'', Refusal NoAuthorityKey), (js ''malformed_envelope'', Refusal MalformedEnvelope),
     (js ''unknown_key'', Refusal UnknownKey), (js ''invalid_signature'', Refusal InvalidSignature),
     (js ''invalid_pack'', Refusal InvalidPack), (js ''tenant_mismatch'', Refusal TenantMismatch),
     (js ''tenant_unknown'', Refusal TenantUnknown), (js ''version_downgrade'', Refusal VersionDowngrade),
     (js ''version_conflict'', Refusal VersionConflict), (js ''too_large'', Refusal TooLarge),
     (js ''unreadable'', Refusal Unreadable), (js ''sync_failed'', SyncFailed)]"

text \<open>\<open>isAcceptedVersion\<close> and the typed reading of an accepted entry.\<close>

fun read_version :: "json \<Rightarrow> accepted_version option" where
  "read_version value' =
     (case (field value' ''version'', field value' ''digest'') of
        (Some (JNum x), Some (JStr sha)) \<Rightarrow>
          if x = of_int \<lfloor>x\<rfloor> \<and> HEX64 sha then Some \<lparr>av_version = x, av_digest = sha\<rparr> else None
      | _ \<Rightarrow> None)"

fun text_of :: "json option \<Rightarrow> ustring option" where
  "text_of (Some (JStr s)) = Some s"
| "text_of _ = None"

text \<open>\<open>isSyncRecord\<close>: a reason that is absent is no reason.\<close>

definition read_sync :: "json \<Rightarrow> sync_record option" where
  "read_sync value' =
     (case (text_of (field value' ''at''), Option.bind (text_of (field value' ''outcome'')) (map_of SYNC_OUTCOMES)) of
        (Some at', Some outcome) \<Rightarrow>
          (case field value' ''reason'' of
             None \<Rightarrow> Some \<lparr>sy_at = at', sy_outcome = outcome, sy_reason = None\<rparr>
           | Some r \<Rightarrow>
               map_option (\<lambda>reason. \<lparr>sy_at = at', sy_outcome = outcome, sy_reason = Some reason\<rparr>)
                 (Option.bind (text_of (Some r)) (map_of SYNC_REASONS)))
      | _ \<Rightarrow> None)"

definition read_highest :: "(ustring \<times> json) list \<Rightarrow> (ustring \<times> accepted_version) list" where
  "read_highest kvs = List.map_filter (\<lambda>(k, v). map_option (Pair k) (read_version v)) (own_entries kvs)"

definition state_of_json :: "json \<Rightarrow> rules_state" where
  "state_of_json value' =
     (case (field value' ''schemaVersion'', Option.bind (field value' ''highest'') as_object) of
        (Some (JNum x), Some highest) \<Rightarrow>
          if x \<noteq> 1 then EMPTY_RULES_PACK_STATE
          else
            \<lparr>rs_tenantId = (case text_of (field value' ''tenantId'') of Some [] \<Rightarrow> None | t \<Rightarrow> t),
             rs_tenantSource = Option.bind (text_of (field value' ''tenantSource'')) (map_of SOURCES),
             rs_highest = read_highest highest,
             rs_selfTestedDigest = text_of (field value' ''selfTestedDigest''),
             rs_lastSync = Option.bind (field value' ''lastSync'') read_sync\<rparr>
      | _ \<Rightarrow> EMPTY_RULES_PACK_STATE)"

definition readRulesPackState :: "'k platform \<Rightarrow> disk_file \<Rightarrow> rules_state" where
  "readRulesPackState F file =
     (case readBoundedFile F file of
        ReadText raw \<Rightarrow>
          (case json_parse raw of None \<Rightarrow> EMPTY_RULES_PACK_STATE | Some value' \<Rightarrow> state_of_json value')
      | _ \<Rightarrow> EMPTY_RULES_PACK_STATE)"

text \<open>The value \<open>writeRulesPackState\<close> prints: absent members are left out.\<close>

definition name_of :: "(ustring \<times> 'a) list \<Rightarrow> 'a \<Rightarrow> ustring" where
  "name_of table x = (case List.find (\<lambda>kv. snd kv = x) table of Some kv \<Rightarrow> fst kv | None \<Rightarrow> [])"

definition json_of_version :: "accepted_version \<Rightarrow> json" where
  "json_of_version v = JObj [(js ''version'', JNum (av_version v)), (js ''digest'', JStr (av_digest v))]"

definition optional_member :: "string \<Rightarrow> ('a \<Rightarrow> json) \<Rightarrow> 'a option \<Rightarrow> (ustring \<times> json) list" where
  "optional_member key f x = (case x of None \<Rightarrow> [] | Some v \<Rightarrow> [(js key, f v)])"

definition json_of_sync :: "sync_record \<Rightarrow> json" where
  "json_of_sync r = JObj ([(js ''at'', JStr (sy_at r)), (js ''outcome'', JStr (name_of SYNC_OUTCOMES (sy_outcome r)))] @
     optional_member ''reason'' (\<lambda>x. JStr (name_of SYNC_REASONS x)) (sy_reason r))"

definition json_of_state :: "rules_state \<Rightarrow> json" where
  "json_of_state s = JObj ([(js ''schemaVersion'', JNum 1)] @
     optional_member ''tenantId'' JStr (rs_tenantId s) @
     optional_member ''tenantSource'' (\<lambda>x. JStr (name_of SOURCES x)) (rs_tenantSource s) @
     [(js ''highest'', JObj (map (\<lambda>(k, v). (k, json_of_version v)) (rs_highest s)))] @
     optional_member ''selfTestedDigest'' JStr (rs_selfTestedDigest s) @
     optional_member ''lastSync'' json_of_sync (rs_lastSync s))"

definition writeRulesPackState :: "'k platform \<Rightarrow> rules_state \<Rightarrow> disk_file" where
  "writeRulesPackState F s = FileContent (utf8_encode (json_stringify (pf_number F) (json_of_state s)))"

datatype applied_pack = PackNone | PackApplied accepted_pack | PackRejected rules_refusal "rules_pack_error option"

text \<open>The two files of the storage folder.\<close>

record storage =
  st_pack :: disk_file
  st_state :: disk_file

definition loadAppliedRulesPack ::
  "'k platform \<Rightarrow> unicode \<Rightarrow> native_engine \<Rightarrow> storage \<Rightarrow> 'k authority_key list \<Rightarrow> ustring \<Rightarrow> applied_pack" where
  "loadAppliedRulesPack F U R storage keys now =
     (case readBoundedFile F (st_pack storage) of
        ReadAbsent \<Rightarrow> PackNone
      | ReadTooLarge \<Rightarrow> PackRejected TooLarge None
      | ReadUnreadable \<Rightarrow> PackRejected Unreadable None
      | ReadText raw \<Rightarrow>
          (case json_parse raw of
             None \<Rightarrow> PackRejected MalformedEnvelope None
           | Some envelope \<Rightarrow>
               let state = readRulesPackState F (st_state storage) in
               case acceptRulesPack F U R envelope
                      \<lparr>ac_keys = keys, ac_enrolledTenant = rs_tenantId state, ac_highest = rs_highest state,
                       ac_now = now, ac_selfTestedDigest = rs_selfTestedDigest state\<rparr> of
                 Inl (reason, detail) \<Rightarrow> PackRejected reason detail
               | Inr acc \<Rightarrow> PackApplied acc))"

end
