(* ===== verification/Rules_Sync.thy ===== *)
theory Rules_Sync
  imports Rules_Trust
begin

text \<open>
  The synchronisation of the rules pack (vscode/src/rules-pack-sync.ts): what a fetched or imported
  envelope does to the two files of the storage folder, the merge of version histories, the
  disconnection and the snapshot.  An operation is one step on the storage; the network's answer,
  the keys and the time are its arguments (an undefined envelope reads as \<open>null\<close> does).
\<close>

type_synonym enrolled_tenant = "ustring \<times> tenant_source"

datatype sync_result = SyncedTo ustring | NoTuning | SyncRefused rules_refusal | SyncFailure

definition sync_stamp :: "ustring \<Rightarrow> sync_outcome \<Rightarrow> sync_reason option \<Rightarrow> sync_record" where
  "sync_stamp now outcome reason = \<lparr>sy_at = now, sy_outcome = outcome, sy_reason = reason\<rparr>"

definition tenantFor :: "rules_state \<Rightarrow> enrolled_tenant option \<Rightarrow> enrolled_tenant option" where
  "tenantFor state enrolled =
     (case enrolled of
        Some e \<Rightarrow> Some e
      | None \<Rightarrow>
          map_option (\<lambda>id'. (id', case rs_tenantSource state of None \<Rightarrow> FromFirstPack | Some s \<Rightarrow> s)) (rs_tenantId state))"

definition merge_entry ::
  "(ustring \<times> accepted_version) list \<Rightarrow> ustring \<times> accepted_version \<Rightarrow> (ustring \<times> accepted_version) list" where
  "merge_entry merged = (\<lambda>(key, entry).
     case ownEntry merged key of
       None \<Rightarrow> obj_set merged key entry
     | Some current \<Rightarrow> if av_version current < av_version entry then obj_set merged key entry else merged)"

definition mergeHighest ::
  "(ustring \<times> accepted_version) list \<Rightarrow> (ustring \<times> accepted_version) list \<Rightarrow> (ustring \<times> accepted_version) list" where
  "mergeHighest left right = foldl merge_entry (own_entries left) (own_entries right)"

text \<open>\<open>updateState\<close>: the state it would write after reading \<open>fresh\<close>, and the whole step.\<close>

definition updated_state :: "(rules_state \<Rightarrow> rules_state) \<Rightarrow> rules_state \<Rightarrow> rules_state" where
  "updated_state change fresh =
     (let next' = change fresh in next'\<lparr>rs_highest := mergeHighest (rs_highest fresh) (rs_highest next')\<rparr>)"

definition updateState :: "'k platform \<Rightarrow> storage \<Rightarrow> (rules_state \<Rightarrow> rules_state) \<Rightarrow> storage" where
  "updateState F st change =
     st\<lparr>st_state := writeRulesPackState F (updated_state change (readRulesPackState F (st_state st)))\<rparr>"

definition pinnedTenant :: "enrolled_tenant option \<Rightarrow> rules_state \<Rightarrow> rules_state" where
  "pinnedTenant known s =
     (case known of None \<Rightarrow> s
      | Some (id', source) \<Rightarrow> s\<lparr>rs_tenantId := Some id', rs_tenantSource := Some source\<rparr>)"

definition refuse_pack ::
  "'k platform \<Rightarrow> storage \<Rightarrow> enrolled_tenant option \<Rightarrow> ustring \<Rightarrow> rules_refusal \<Rightarrow> storage \<times> sync_result" where
  "refuse_pack F st known now reason =
     (updateState F st (\<lambda>fresh. (pinnedTenant known fresh)\<lparr>rs_lastSync := Some (sync_stamp now SyncRejected (Some (Refusal reason)))\<rparr>),
      SyncRefused reason)"

text \<open>The tenant of the signed payload, for the first pack of an enrollment.\<close>

definition first_tenant ::
  "'k platform \<Rightarrow> json \<Rightarrow> 'k authority_key list \<Rightarrow> tenant_source \<Rightarrow> enrolled_tenant option" where
  "first_tenant F envelope keys source =
     (case verifyRulesPackEnvelope F envelope keys of
        Inl _ \<Rightarrow> None
      | Inr verified \<Rightarrow>
          (case text_of (field (ve_payload verified) ''tenantId'') of
             None \<Rightarrow> None | Some t \<Rightarrow> if t = [] then None else Some (t, source)))"

definition applied_state ::
  "rules_state \<Rightarrow> compiled_pack \<Rightarrow> ustring \<Rightarrow> tenant_source \<Rightarrow> ustring \<Rightarrow> rules_state \<Rightarrow> rules_state" where
  "applied_state state pack sha source now fresh =
     \<lparr>rs_tenantId = Some (rp_tenantId (cp_payload pack)),
      rs_tenantSource = Some source,
      rs_highest = obj_set (mergeHighest (rs_highest state) (rs_highest fresh))
        (historyKey (rp_tenantId (cp_payload pack)) (rp_packId (cp_payload pack)))
        \<lparr>av_version = of_nat (rp_version (cp_payload pack)), av_digest = sha\<rparr>,
      rs_selfTestedDigest = Some sha,
      rs_lastSync = Some (sync_stamp now SyncApplied None)\<rparr>"

definition applyEnvelope ::
  "'k platform \<Rightarrow> unicode \<Rightarrow> native_engine \<Rightarrow> storage \<Rightarrow> json \<Rightarrow> rules_state \<Rightarrow> enrolled_tenant option \<Rightarrow>
   tenant_source \<Rightarrow> 'k authority_key list \<Rightarrow> ustring \<Rightarrow> storage \<times> sync_result" where
  "applyEnvelope F U R st envelope state known firstSource keys now =
     (let serialized = utf8_encode (json_stringify (pf_number F) envelope) in
      if MAX_RULES_PACK_BYTES < length serialized then refuse_pack F st known now TooLarge
      else
        let tenant = (case known of Some t \<Rightarrow> Some t | None \<Rightarrow> first_tenant F envelope keys firstSource) in
        case acceptRulesPack F U R envelope
               \<lparr>ac_keys = keys, ac_enrolledTenant = map_option fst tenant, ac_highest = rs_highest state,
                ac_now = now, ac_selfTestedDigest = rs_selfTestedDigest state\<rparr> of
          Inl (reason, _) \<Rightarrow> refuse_pack F st known now reason
        | Inr acc \<Rightarrow>
            let pack = ap_pack acc;
                key = historyKey (rp_tenantId (cp_payload pack)) (rp_packId (cp_payload pack));
                source = (case tenant of None \<Rightarrow> firstSource | Some (_, s) \<Rightarrow> s);
                apply = (updateState F (st\<lparr>st_pack := FileContent serialized\<rparr>)
                           (applied_state state pack (ap_digest acc) source now), SyncedTo (ap_digest acc))
            in case ownEntry (rs_highest (readRulesPackState F (st_state st))) key of
                 None \<Rightarrow> apply
               | Some newer \<Rightarrow>
                   if of_nat (rp_version (cp_payload pack)) < av_version newer then (st, SyncedTo (av_digest newer))
                   else apply)"

text \<open>\<open>syncRulesPack\<close>: \<open>fetched\<close> is \<open>None\<close> when the fetch throws.\<close>

definition syncRulesPack ::
  "'k platform \<Rightarrow> unicode \<Rightarrow> native_engine \<Rightarrow> storage \<Rightarrow> json option \<Rightarrow> enrolled_tenant option \<Rightarrow>
   'k authority_key list \<Rightarrow> ustring \<Rightarrow> storage \<times> sync_result" where
  "syncRulesPack F U R st fetched enrolled keys now =
     (case fetched of
        None \<Rightarrow>
          (updateState F st (\<lambda>fresh. fresh\<lparr>rs_lastSync := Some (sync_stamp now SyncError (Some SyncFailed))\<rparr>), SyncFailure)
      | Some envelope \<Rightarrow>
          let state = readRulesPackState F (st_state st);
              known = tenantFor state enrolled in
          if envelope = JNull then
            (updateState F (st\<lparr>st_pack := FileAbsent\<rparr>)
               (\<lambda>fresh. (pinnedTenant known fresh)\<lparr>rs_lastSync := Some (sync_stamp now SyncNone None)\<rparr>), NoTuning)
          else applyEnvelope F U R st envelope state known FromFirstPack keys now)"

definition importRulesPack ::
  "'k platform \<Rightarrow> unicode \<Rightarrow> native_engine \<Rightarrow> storage \<Rightarrow> ustring \<Rightarrow> 'k authority_key list \<Rightarrow> ustring \<Rightarrow>
   storage \<times> sync_result" where
  "importRulesPack F U R st raw keys now =
     (let state = readRulesPackState F (st_state st) in
      if MAX_RULES_PACK_BYTES < length (utf8_encode raw) then
        (updateState F st (\<lambda>fresh. fresh\<lparr>rs_lastSync := Some (sync_stamp now SyncRejected (Some (Refusal TooLarge)))\<rparr>),
         SyncRefused TooLarge)
      else applyEnvelope F U R st (case json_parse raw of None \<Rightarrow> JNull | Some v \<Rightarrow> v) state (tenantFor state None)
             FromImport keys now)"

definition forgetEnrollment :: "'k platform \<Rightarrow> storage \<Rightarrow> storage" where
  "forgetEnrollment F st =
     (let state = readRulesPackState F (st_state st)
      in \<lparr>st_pack = FileAbsent,
          st_state = writeRulesPackState F (EMPTY_RULES_PACK_STATE\<lparr>rs_highest := rs_highest state\<rparr>)\<rparr>)"

record rules_snapshot =
  sn_applied :: applied_pack
  sn_lastSync :: "sync_record option"
  sn_enrolled :: bool
  sn_authorityKeys :: nat

definition readRulesPackSnapshot ::
  "'k platform \<Rightarrow> unicode \<Rightarrow> native_engine \<Rightarrow> storage \<Rightarrow> 'k authority_key list \<Rightarrow> ustring \<Rightarrow> rules_snapshot" where
  "readRulesPackSnapshot F U R st keys now =
     (let state = readRulesPackState F (st_state st)
      in \<lparr>sn_applied = loadAppliedRulesPack F U R st keys now, sn_lastSync = rs_lastSync state,
          sn_enrolled = (rs_tenantId state \<noteq> None \<or> rs_lastSync state \<noteq> None),
          sn_authorityKeys = length keys\<rparr>)"

text \<open>The operations of a workstation over time.\<close>

datatype 'k storage_operation =
  OpSync "json option" "enrolled_tenant option" "'k authority_key list" ustring
| OpImport ustring "'k authority_key list" ustring
| OpForget

fun perform :: "'k platform \<Rightarrow> unicode \<Rightarrow> native_engine \<Rightarrow> storage \<Rightarrow> 'k storage_operation \<Rightarrow> storage" where
  "perform F U R st (OpSync fetched enrolled keys now) = fst (syncRulesPack F U R st fetched enrolled keys now)"
| "perform F U R st (OpImport raw keys now) = fst (importRulesPack F U R st raw keys now)"
| "perform F U R st OpForget = forgetEnrollment F st"

end
