(* ===== verification/Rules_State.thy ===== *)
theory Rules_State
  imports Rules_Trust_Correct
begin

text \<open>
  The state file of the workstation: what is written reads back, whatever the disk holds reads as a
  well-formed state, and every operation of the synchronisation keeps the version history.
\<close>

section \<open>What the proofs need of the platform\<close>

text \<open>UTF-8 text reads back, decoded text is made of code units, a digest is 64 hexadecimal digits and an
  integer prints as its literal: documented behaviour of Node.js.\<close>

definition platform_ok :: "'k platform \<Rightarrow> bool" where
  "platform_ok F \<longleftrightarrow> (\<forall>s. well_formed s \<longrightarrow> pf_text F (utf8_encode s) = s) \<and> (\<forall>b. units (pf_text F b)) \<and>
     (\<forall>b. HEX64 (pf_sha256 F b)) \<and> (\<forall>i :: int. number_literal (pf_number F (of_int i)) (of_int i))"

definition version_ok :: "accepted_version \<Rightarrow> bool" where
  "version_ok v \<longleftrightarrow> av_version v = of_int \<lfloor>av_version v\<rfloor> \<and> HEX64 (av_digest v)"

definition history_ok :: "(ustring \<times> accepted_version) list \<Rightarrow> bool" where
  "history_ok h \<longleftrightarrow> distinct (map fst h) \<and> list_all (\<lambda>(k, v). units k \<and> version_ok v) h"

definition state_ok :: "rules_state \<Rightarrow> bool" where
  "state_ok s \<longleftrightarrow> rs_tenantId s \<noteq> Some [] \<and> pred_option units (rs_tenantId s) \<and> history_ok (rs_highest s) \<and>
     pred_option units (rs_selfTestedDigest s) \<and> pred_option (\<lambda>r. units (sy_at r)) (rs_lastSync s)"

definition state_bytes :: "'k platform \<Rightarrow> rules_state \<Rightarrow> nat list" where
  "state_bytes F s = utf8_encode (json_stringify (pf_number F) (json_of_state s))"

section \<open>Reading a reordered object\<close>

lemma obj_get_map: "obj_get (map (\<lambda>(k, v). (k, f v)) kvs) key = map_option f (obj_get kvs key)"
  unfolding obj_get_def by (induction kvs) auto

lemma map_keys: "map fst (map (\<lambda>(k, v). (k, f v)) kvs) = map fst kvs"
  by (induction kvs) auto

lemma field_reorder:
  assumes "distinct (map fst kvs)"
  shows "field (reorder own_entries (JObj kvs)) key = map_option (reorder own_entries) (obj_get kvs (js key))"
proof -
  have "distinct (map fst (map (\<lambda>(k, v). (k, reorder own_entries v)) kvs))"
    using assms by (simp only: map_keys)
  then show ?thesis by (simp add: field_def obj_get_map)
qed

lemma HEX64_units: "HEX64 s \<Longrightarrow> units s"
  by (auto simp: HEX64_def units_def list_all_iff is_digit_def)

lemma js_units: "units (js s)"
  by (auto simp: units_def js_def list_all_iff intro: less_trans [OF nat_of_char_less_256])

lemma read_version_of:
  assumes "version_ok v"
  shows "read_version (reorder own_entries (json_of_version v)) = Some v"
proof -
  have "distinct (map fst [(js ''version'', JNum (av_version v)), (js ''digest'', JStr (av_digest v))])" by simp
  from field_reorder [OF this] assms show ?thesis
    by (simp add: json_of_version_def obj_get_def version_ok_def)
qed

lemma name_of_outcome: "map_of SYNC_OUTCOMES (name_of SYNC_OUTCOMES x) = Some x" "units (name_of SYNC_OUTCOMES x)"
  by (cases x; simp add: SYNC_OUTCOMES_def name_of_def js_units)+

lemma name_of_source: "map_of SOURCES (name_of SOURCES x) = Some x" "units (name_of SOURCES x)"
  by (cases x; simp add: SOURCES_def name_of_def js_units)+

lemma name_of_reason: "map_of SYNC_REASONS (name_of SYNC_REASONS x) = Some x" "units (name_of SYNC_REASONS x)"
proof -
  have "map_of SYNC_REASONS (name_of SYNC_REASONS x) = Some x \<and> units (name_of SYNC_REASONS x)"
  proof (cases x)
    case (Refusal r)
    then show ?thesis by (cases r; simp add: SYNC_REASONS_def name_of_def js_units)
  qed (simp add: SYNC_REASONS_def name_of_def js_units)
  then show "map_of SYNC_REASONS (name_of SYNC_REASONS x) = Some x" "units (name_of SYNC_REASONS x)" by simp_all
qed

lemma read_sync_of: "read_sync (reorder own_entries (json_of_sync r)) = Some r"
proof -
  have "distinct (map fst ([(js ''at'', JStr (sy_at r)), (js ''outcome'', JStr (name_of SYNC_OUTCOMES (sy_outcome r)))] @
     optional_member ''reason'' (\<lambda>x. JStr (name_of SYNC_REASONS x)) (sy_reason r)))"
    by (simp add: optional_member_def split: option.split)
  from field_reorder [OF this] show ?thesis
    by (cases "sy_reason r")
      (simp_all add: read_sync_def json_of_sync_def obj_get_def optional_member_def name_of_outcome name_of_reason)
qed

definition state_members :: "rules_state \<Rightarrow> (ustring \<times> json) list" where
  "state_members s = [(js ''schemaVersion'', JNum 1)] @
     optional_member ''tenantId'' JStr (rs_tenantId s) @
     optional_member ''tenantSource'' (\<lambda>x. JStr (name_of SOURCES x)) (rs_tenantSource s) @
     [(js ''highest'', JObj (map (\<lambda>(k, v). (k, json_of_version v)) (rs_highest s)))] @
     optional_member ''selfTestedDigest'' JStr (rs_selfTestedDigest s) @
     optional_member ''lastSync'' json_of_sync (rs_lastSync s)"

lemma state_members_distinct: "distinct (map fst (state_members s))"
  by (simp add: state_members_def optional_member_def split: option.split)

lemma state_members_get:
  "obj_get (state_members s) (js ''schemaVersion'') = Some (JNum 1)"
  "obj_get (state_members s) (js ''tenantId'') = map_option JStr (rs_tenantId s)"
  "obj_get (state_members s) (js ''tenantSource'') = map_option (\<lambda>x. JStr (name_of SOURCES x)) (rs_tenantSource s)"
  "obj_get (state_members s) (js ''highest'') = Some (JObj (map (\<lambda>(k, v). (k, json_of_version v)) (rs_highest s)))"
  "obj_get (state_members s) (js ''selfTestedDigest'') = map_option JStr (rs_selfTestedDigest s)"
  "obj_get (state_members s) (js ''lastSync'') = map_option json_of_sync (rs_lastSync s)"
  by (simp_all add: state_members_def obj_get_def optional_member_def map_add_def split: option.split)

section \<open>The state file reads back\<close>

lemma json_of_state_members: "json_of_state s = JObj (state_members s)"
  by (simp add: json_of_state_def state_members_def)

lemma version_prints: "platform_ok F \<Longrightarrow> version_ok v \<Longrightarrow> prints (pf_number F) (json_of_version v)"
proof -
  assume "platform_ok F" and v: "version_ok v"
  then have "number_literal (pf_number F (av_version v)) (av_version v)"
    unfolding platform_ok_def version_ok_def by metis
  with v show ?thesis by (simp add: version_ok_def json_of_version_def js_units HEX64_units)
qed

lemma sync_prints: "units (sy_at r) \<Longrightarrow> prints N (json_of_sync r)"
  by (cases "sy_reason r") (simp_all add: json_of_sync_def optional_member_def js_units name_of_outcome name_of_reason)

lemma state_prints:
  assumes "platform_ok F" and "state_ok s"
  shows "prints (pf_number F) (json_of_state s)"
proof -
  have one: "number_literal (pf_number F 1) 1"
    using assms(1) unfolding platform_ok_def by (metis of_int_1)
  have "prints (pf_number F) (JObj (map (\<lambda>(k, v). (k, json_of_version v)) (rs_highest s)))"
    using assms version_prints [OF assms(1)]
    by (auto simp: state_ok_def history_ok_def map_keys list_all_iff simp del: map_map)
  with one assms(2) have "list_all (\<lambda>(k, v). units k \<and> prints (pf_number F) v) (state_members s)"
    by (auto simp: state_members_def optional_member_def js_units state_ok_def name_of_source sync_prints split: option.splits)
  with state_members_distinct show ?thesis by (simp add: json_of_state_members)
qed

lemma read_highest_of:
  assumes "history_ok h"
  shows "read_highest (own_entries (map (\<lambda>(k, v). (k, reorder own_entries v)) (map (\<lambda>(k, v). (k, json_of_version v)) h))) = own_entries h"
proof -
  let ?f = "\<lambda>kv. (fst kv, reorder own_entries (json_of_version (snd kv)))"
  have maps: "map (\<lambda>(k, v). (k, reorder own_entries v)) (map (\<lambda>(k, v). (k, json_of_version v)) h) = map ?f h" by auto
  have order: "own_entries (map ?f h') = map ?f (own_entries h')" for h' by (rule own_entries_map) simp
  have read: "List.map_filter (\<lambda>(k, v). map_option (Pair k) (read_version v)) (map ?f xs) = xs"
    if "set xs \<subseteq> set h" for xs
    using that
  proof (induction xs)
    case (Cons kv xs)
    then have "version_ok (snd kv)" using assms by (cases kv) (auto simp: history_ok_def list_all_iff)
    with Cons read_version_of show ?case by (simp add: List.map_filter_simps del: read_version.simps)
  qed (simp add: List.map_filter_simps)
  show ?thesis unfolding read_highest_def maps own_entries_idem order by (rule read) simp
qed

lemma state_file_reads_back:
  assumes "platform_ok F" and "state_ok s" and "length (state_bytes F s) \<le> MAX_RULES_PACK_BYTES"
  shows "readRulesPackState F (writeRulesPackState F s) = s\<lparr>rs_highest := own_entries (rs_highest s)\<rparr>"
proof -
  let ?N = "pf_number F" and ?v = "json_of_state s"
  have p: "prints ?N ?v" by (rule state_prints [OF assms(1,2)])
  have "prints ?N (reorder own_entries ?v)" by (rule reorder_prints [OF mset_own_entries p])
  then have "well_formed (json_stringify ?N ?v)"
    using plain_json_text unfolding json_stringify_def by (auto simp: plain_text_def paired_well_formed)
  then have "pf_text F (state_bytes F s) = json_stringify ?N ?v"
    using assms(1) by (simp add: platform_ok_def state_bytes_def)
  then have "readRulesPackState F (writeRulesPackState F s) = state_of_json (reorder own_entries ?v)"
    using assms(3) json_parse_stringify [OF p]
    by (simp add: readRulesPackState_def writeRulesPackState_def flip: state_bytes_def)
  also have "\<dots> = s\<lparr>rs_highest := own_entries (rs_highest s)\<rparr>"
  proof -
    note get = field_reorder [OF state_members_distinct, of s] state_members_get
    have h: "read_highest (own_entries (map (\<lambda>(k, v). (k, reorder own_entries v)) (map (\<lambda>(k, v). (k, json_of_version v)) (rs_highest s)))) =
        own_entries (rs_highest s)"
      using assms(2) by (intro read_highest_of) (simp add: state_ok_def)
    have t: "rs_tenantId s \<noteq> Some []" using assms(2) by (simp add: state_ok_def)
    show ?thesis
      unfolding json_of_state_members state_of_json_def get
      by (cases s; cases "rs_tenantId s"; cases "rs_tenantSource s"; cases "rs_selfTestedDigest s"; cases "rs_lastSync s")
        (use h t in \<open>simp_all add: read_sync_of name_of_source EMPTY_RULES_PACK_STATE_def del: map_map split: list.splits\<close>)
  qed
  finally show ?thesis .
qed

text \<open>C26: The state file reads back: what \<open>writeRulesPackState\<close> wrote, within the size the reader accepts, is
  read as the same state, its history in the order of its own members.\<close>

theorem state_file_roundtrip:
  assumes "platform_ok F" and "state_ok s" and "length (state_bytes F s) \<le> MAX_RULES_PACK_BYTES"
  shows "readRulesPackState F (writeRulesPackState F s) = s\<lparr>rs_highest := own_entries (rs_highest s)\<rparr>"
  by (rule state_file_reads_back [OF assms])

section \<open>Histories only grow\<close>

text \<open>The version recorded for a key, and the order on histories.\<close>

definition grows :: "(ustring \<times> accepted_version) list \<Rightarrow> (ustring \<times> accepted_version) list \<Rightarrow> bool" where
  "grows h h' \<longleftrightarrow> (\<forall>k v. obj_get h k = Some v \<longrightarrow> (\<exists>v'. obj_get h' k = Some v' \<and> av_version v \<le> av_version v'))"

lemma grows_refl: "grows h h"
  by (auto simp: grows_def)

lemma grows_trans: "grows a b \<Longrightarrow> grows b c \<Longrightarrow> grows a c"
  by (fastforce simp: grows_def intro: order_trans)

lemma history_ok_own [simp]: "history_ok (own_entries h) = history_ok h"
  by (simp add: history_ok_def list_all_iff)

lemma grows_own [simp]:
  assumes "history_ok h"
  shows "grows h (own_entries h)" and "grows (own_entries h) h"
  using assms by (auto simp: grows_def history_ok_def)

lemma set_ok:
  assumes "history_ok h" and "units k" and "version_ok v"
  shows "history_ok (obj_set h k v)"
proof -
  have "set (obj_set h k v) \<subseteq> insert (k, v) (set h)"
    by (induction h k v rule: obj_set.induct) auto
  with assms show ?thesis by (auto simp: history_ok_def list_all_iff obj_set_distinct)
qed

lemma merge_entry_ok: "history_ok h \<Longrightarrow> units k \<Longrightarrow> version_ok v \<Longrightarrow> history_ok (merge_entry h (k, v))"
  by (simp add: merge_entry_def set_ok split: option.split)

lemma merge_entry_grows: "grows h (merge_entry h kv)"
  by (cases kv) (auto simp: merge_entry_def grows_def ownEntry_def split: option.splits)

lemma merge_entry_takes:
  "\<exists>v'. obj_get (merge_entry h (k, v)) k = Some v' \<and> av_version v \<le> av_version v'"
  by (auto simp: merge_entry_def ownEntry_def split: option.splits)

lemma merge_fold:
  assumes "history_ok h" and "list_all (\<lambda>(k, v). units k \<and> version_ok v) right"
  shows "history_ok (foldl merge_entry h right) \<and> grows h (foldl merge_entry h right) \<and>
    (\<forall>k v. (k, v) \<in> set right \<longrightarrow> (\<exists>v'. obj_get (foldl merge_entry h right) k = Some v' \<and> av_version v \<le> av_version v'))"
  using assms
proof (induction right arbitrary: h)
  case (Cons kv right)
  obtain k v where kv: "kv = (k, v)" by (cases kv)
  have ok: "history_ok (merge_entry h kv)" using Cons.prems kv by (simp add: merge_entry_ok)
  note ih = Cons.IH [OF ok]
  have right: "list_all (\<lambda>(k, v). units k \<and> version_ok v) right" using Cons.prems(2) by simp
  let ?m = "foldl merge_entry (merge_entry h kv) right"
  note m = ih [OF right]
  note ok' = m [THEN conjunct1] and up = m [THEN conjunct2, THEN conjunct1]
    and later = m [THEN conjunct2, THEN conjunct2, rule_format]
  obtain w where w: "obj_get (merge_entry h kv) k = Some w" "av_version v \<le> av_version w"
    using merge_entry_takes [of h k v] kv by blast
  then obtain w' where "obj_get ?m k = Some w'" "av_version w \<le> av_version w'" using up unfolding grows_def by blast
  with w(2) have first: "\<exists>w'. obj_get ?m k = Some w' \<and> av_version v \<le> av_version w'" by (meson order_trans)
  have all: "\<exists>w. obj_get ?m k' = Some w \<and> av_version v' \<le> av_version w" if "(k', v') \<in> set (kv # right)" for k' v'
  proof (cases "(k', v') = kv")
    case True
    with first kv show ?thesis by simp
  next
    case False
    with that have "(k', v') \<in> set right" by simp
    then show ?thesis by (rule later)
  qed
  show ?case
    unfolding foldl.simps using ok' grows_trans [OF merge_entry_grows up] all by blast
qed (simp add: grows_refl)

lemma merge_highest:
  assumes "history_ok l" and "history_ok r"
  shows "history_ok (mergeHighest l r)" and "grows l (mergeHighest l r)" and "grows r (mergeHighest l r)"
proof -
  have "list_all (\<lambda>(k, v). units k \<and> version_ok v) (own_entries r)"
    using assms(2) by (simp add: history_ok_def list_all_iff)
  moreover have "history_ok (own_entries l)" using assms(1) by simp
  ultimately have m: "history_ok (mergeHighest l r)" "grows (own_entries l) (mergeHighest l r)"
    "\<And>k v. (k, v) \<in> set (own_entries r) \<Longrightarrow>
       \<exists>v'. obj_get (mergeHighest l r) k = Some v' \<and> av_version v \<le> av_version v'"
    using merge_fold [of "own_entries l" "own_entries r"] unfolding mergeHighest_def by blast+
  show "history_ok (mergeHighest l r)" by (rule m(1))
  show "grows l (mergeHighest l r)" by (rule grows_trans [OF grows_own(1) [OF assms(1)] m(2)])
  show "grows r (mergeHighest l r)"
    unfolding grows_def
  proof (intro allI impI)
    fix k v assume "obj_get r k = Some v"
    then have "(k, v) \<in> set (own_entries r)" by (simp add: obj_get_def map_of_SomeD)
    then show "\<exists>v'. obj_get (mergeHighest l r) k = Some v' \<and> av_version v \<le> av_version v'" by (rule m(3))
  qed
qed

section \<open>Operations\<close>

text \<open>The state read from the storage, and whether the state file can be read back.\<close>

definition stored_state :: "'k platform \<Rightarrow> storage \<Rightarrow> rules_state" where
  "stored_state F st = readRulesPackState F (st_state st)"

definition state_fits :: "storage \<Rightarrow> bool" where
  "state_fits st \<longleftrightarrow> (case st_state st of FileContent b \<Rightarrow> length b \<le> MAX_RULES_PACK_BYTES | _ \<Rightarrow> True)"

lemma update_grows:
  assumes "platform_ok F" and "state_ok (stored_state F st)" and "state_ok (change (stored_state F st))"
    and "state_fits (updateState F st' change)" and "st_state st' = st_state st"
  shows "state_ok (stored_state F (updateState F st' change)) \<and>
    grows (rs_highest (stored_state F st)) (rs_highest (stored_state F (updateState F st' change))) \<and>
    grows (rs_highest (change (stored_state F st))) (rs_highest (stored_state F (updateState F st' change)))"
proof -
  let ?fresh = "stored_state F st" and ?s = "updated_state change (stored_state F st)"
  have h: "history_ok (rs_highest ?fresh)" "history_ok (rs_highest (change ?fresh))"
    using assms(2,3) by (simp_all add: state_ok_def)
  note m = merge_highest [OF h]
  have s: "state_ok ?s" "rs_highest ?s = mergeHighest (rs_highest ?fresh) (rs_highest (change ?fresh))"
    using assms(3) m(1) by (simp_all add: updated_state_def state_ok_def Let_def)
  have w: "st_state (updateState F st' change) = writeRulesPackState F ?s"
    using assms(5) by (simp add: updateState_def stored_state_def)
  then have "length (state_bytes F ?s) \<le> MAX_RULES_PACK_BYTES"
    using assms(4) by (simp add: state_fits_def writeRulesPackState_def state_bytes_def)
  from state_file_reads_back [OF assms(1) s(1) this] w
  have r: "stored_state F (updateState F st' change) = ?s\<lparr>rs_highest := own_entries (rs_highest ?s)\<rparr>"
    by (simp add: stored_state_def)
  have "state_ok (?s\<lparr>rs_highest := own_entries (rs_highest ?s)\<rparr>)" using s(1) by (simp add: state_ok_def)
  with r m s(2) show ?thesis using grows_trans [OF _ grows_own(1)] by simp
qed

text \<open>Whatever the disk holds reads as a well-formed state.\<close>

lemma field_units: "json_wf v \<Longrightarrow> text_of (field v key) = Some t \<Longrightarrow> units t"
  by (cases v) (auto simp: field_def obj_get_def list_all_iff elim!: text_of.elims dest!: map_of_SomeD)

lemma field_wf: "json_wf v \<Longrightarrow> field v key = Some w \<Longrightarrow> json_wf w"
  by (cases v) (auto simp: field_def obj_get_def list_all_iff dest!: map_of_SomeD)

lemma text_of_Some: "text_of x = Some t \<longleftrightarrow> x = Some (JStr t)"
  by (cases x rule: text_of.cases) auto

lemma read_version_ok: "read_version v = Some w \<Longrightarrow> version_ok w"
  by (auto simp: version_ok_def split: option.splits json.splits if_splits)

lemma history_ok_entries: "history_ok h \<longleftrightarrow> distinct (map fst h) \<and> (\<forall>kv \<in> set h. units (fst kv) \<and> version_ok (snd kv))"
  by (simp add: history_ok_def list_all_iff case_prod_beta)

lemma read_versions_ok:
  assumes "distinct (map fst xs)" and "\<forall>kv \<in> set xs. units (fst kv)"
  shows "history_ok (List.map_filter (\<lambda>(k, v). map_option (Pair k) (read_version v)) xs) \<and>
    fst ` set (List.map_filter (\<lambda>(k, v). map_option (Pair k) (read_version v)) xs) \<subseteq> fst ` set xs"
  using assms
proof (induction xs)
  case (Cons kv xs)
  obtain k v where kv: "kv = (k, v)" by (cases kv)
  have ih: "history_ok (List.map_filter (\<lambda>(k, v). map_option (Pair k) (read_version v)) xs) \<and>
    fst ` set (List.map_filter (\<lambda>(k, v). map_option (Pair k) (read_version v)) xs) \<subseteq> fst ` set xs"
    using Cons.prems by (intro Cons.IH) simp_all
  show ?case
  proof (cases "read_version v")
    case None
    then show ?thesis using ih by (auto simp add: kv List.map_filter_simps simp del: read_version.simps)
  next
    case (Some w)
    then have w: "version_ok w" by (rule read_version_ok)
    have k: "k \<notin> fst ` set xs" "units k" using Cons.prems by (simp_all add: kv)
    let ?m = "List.map_filter (\<lambda>(k, v). map_option (Pair k) (read_version v)) xs"
    have e: "List.map_filter (\<lambda>(k, v). map_option (Pair k) (read_version v)) (kv # xs) = (k, w) # ?m"
      using Some by (simp add: kv List.map_filter_simps del: read_version.simps)
    have "k \<notin> fst ` set ?m" using ih k(1) by (meson subsetD)
    then have "history_ok ((k, w) # ?m)" using ih w k(2) by (simp add: history_ok_entries)
    moreover have "fst ` set ((k, w) # ?m) \<subseteq> fst ` set (kv # xs)"
      using ih by (simp add: kv) (meson insertI2 subset_trans subset_insertI)
    ultimately show ?thesis unfolding e by simp
  qed
qed (simp add: List.map_filter_simps history_ok_def)

lemma read_highest_ok:
  assumes "json_wf (JObj kvs)"
  shows "history_ok (read_highest kvs)"
proof -
  have "distinct (map fst (own_entries kvs))" using assms by simp
  moreover have "\<forall>kv \<in> set (own_entries kvs). units (fst kv)" using assms by (simp add: list_all_iff case_prod_beta)
  ultimately show ?thesis unfolding read_highest_def using read_versions_ok by simp
qed

lemma empty_state_ok: "state_ok EMPTY_RULES_PACK_STATE"
  by (simp add: state_ok_def EMPTY_RULES_PACK_STATE_def history_ok_def)

lemma read_sync_units: "json_wf v \<Longrightarrow> read_sync v = Some r \<Longrightarrow> units (sy_at r)"
  by (auto simp: read_sync_def split: option.splits dest: field_units)

lemma state_of_json_ok:
  assumes "json_wf v"
  shows "state_ok (state_of_json v)"
proof -
  have "state_ok (state_of_json v)"
    if h: "field v ''highest'' = Some w" "as_object w = Some highest" for w highest
  proof -
    have "w = JObj highest" using h(2) by (cases w) auto
    then have "json_wf (JObj highest)" using field_wf [OF assms h(1)] by simp
    moreover have "pred_option units (text_of (field v key))" for key
      by (cases "text_of (field v key)") (auto dest: field_units [OF assms])
    moreover have "pred_option (\<lambda>r. units (sy_at r)) (Option.bind (field v ''lastSync'') read_sync)"
    proof (cases "field v ''lastSync''")
      case (Some u)
      then have "json_wf u" by (rule field_wf [OF assms])
      with Some show ?thesis by (cases "read_sync u") (auto dest: read_sync_units)
    qed simp
    ultimately show ?thesis using read_highest_ok [of highest] h
      by (auto simp: state_of_json_def state_ok_def empty_state_ok [unfolded state_ok_def] bind_eq_Some_conv
          split: option.splits json.splits list.splits dest: field_units [OF assms])
  qed
  then show ?thesis
    by (cases "field v ''highest''"; cases "Option.bind (field v ''highest'') as_object")
      (auto simp: state_of_json_def empty_state_ok split: option.splits json.splits)
qed

lemma stored_state_ok: "platform_ok F \<Longrightarrow> state_ok (stored_state F st)"
proof -
  assume F: "platform_ok F"
  have "json_wf v" if "json_parse (pf_text F b) = Some v" for b v
    using json_parse_wf [OF that] F by (simp add: platform_ok_def)
  then show ?thesis
    unfolding stored_state_def readRulesPackState_def
    by (cases "st_state st") (auto simp: empty_state_ok state_of_json_ok split: option.splits)
qed

section \<open>What an accepted pack brings\<close>

text \<open>The pack's identity, and the version it may have.\<close>

lemma acceptance:
  assumes "acceptRulesPack F U R envelope ctx = Inr a" and "platform_ok F" and "json_wf envelope"
  shows "ac_enrolledTenant ctx = Some (rp_tenantId (cp_payload (ap_pack a)))"
    and "HEX64 (ap_digest a)"
    and "units (rp_tenantId (cp_payload (ap_pack a)))" and "units (rp_packId (cp_payload (ap_pack a)))"
    and "ownEntry (ac_highest ctx) (historyKey (rp_tenantId (cp_payload (ap_pack a))) (rp_packId (cp_payload (ap_pack a)))) = Some p
      \<Longrightarrow> av_version p \<le> of_nat (rp_version (cp_payload (ap_pack a)))"
proof -
  have compiled: "cp_payload pack = read_payload v \<and> isRulesPackPayload v" if "compileRulesPack U R v b = Inr pack" for v b pack
    using that by (auto simp: compileRulesPack_def new_pack_def Let_def split: if_splits option.splits sum.splits)
  from assms obtain ve tenantId packId version expiresAt pack where
    v: "verifyRulesPackEnvelope F envelope (ac_keys ctx) = Inr ve"
    and q: "quickPayload (ve_payload ve) = Some (tenantId, packId, version, expiresAt)"
    and t: "ac_enrolledTenant ctx = Some tenantId"
    and h: "history_refusal (ownEntry (ac_highest ctx) (historyKey tenantId packId)) version (ve_digest ve) = None"
    and c: "compileRulesPack U R (ve_payload ve) (ac_selfTestedDigest ctx \<noteq> Some (ve_digest ve)) = Inr pack"
    and a: "ap_pack a = pack" "ap_digest a = ve_digest ve"
    by (auto simp: acceptRulesPack_def split: sum.splits option.splits if_splits)
  from q have fields: "field (ve_payload ve) ''tenantId'' = Some (JStr tenantId)" "field (ve_payload ve) ''packId'' = Some (JStr packId)"
    "field (ve_payload ve) ''version'' = Some (JNum version)"
    by (auto simp: quickPayload_def split: option.splits json.splits)
  then have ids: "rp_tenantId (cp_payload pack) = tenantId" "rp_packId (cp_payload pack) = packId"
    using compiled [OF c] by (simp_all add: read_payload_def Let_def)
  have "isInteger 1 2147483647 (field (ve_payload ve) ''version'')"
    using compiled [OF c] by (simp add: isRulesPackPayload_def)
  then have version: "version = of_nat (rp_version (cp_payload pack))"
    using compiled [OF c] fields(3) by (auto simp: read_payload_def Let_def)
  from v have e: "\<exists>signature. envelope_fields envelope = Some (ve_payload ve, ve_keyId ve, signature)" "HEX64 (ve_digest ve)"
    using assms(2) by (auto simp: platform_ok_def verifyRulesPackEnvelope_def Let_def split: if_splits option.splits)
  then have "field envelope ''payload'' = Some (ve_payload ve)"
    by (auto simp: envelope_fields_def split: option.splits json.splits if_splits)
  then have wf: "json_wf (ve_payload ve)" using assms(3) by (rule field_wf [rotated])
  show "ac_enrolledTenant ctx = Some (rp_tenantId (cp_payload (ap_pack a)))" using t a ids by simp
  show "HEX64 (ap_digest a)" using e(2) a by simp
  show "units (rp_tenantId (cp_payload (ap_pack a)))" "units (rp_packId (cp_payload (ap_pack a)))"
    using field_units [OF wf, of "''tenantId''"] field_units [OF wf, of "''packId''"] fields a ids by simp_all
  show "av_version p \<le> of_nat (rp_version (cp_payload (ap_pack a)))"
    if "ownEntry (ac_highest ctx) (historyKey (rp_tenantId (cp_payload (ap_pack a))) (rp_packId (cp_payload (ap_pack a)))) = Some p"
    using that h a ids version by (auto simp: history_refusal_def split: if_splits)
qed

section \<open>Every operation keeps the history\<close>

text \<open>The arguments of an operation: texts are code units, an envelope is a JSON value, and the platform never
  states an empty tenant.\<close>

fun operation_ok :: "'k storage_operation \<Rightarrow> bool" where
  "operation_ok (OpSync fetched enrolled keys now) \<longleftrightarrow> pred_option json_wf fetched \<and>
     pred_option (\<lambda>(t, _). units t \<and> t \<noteq> []) enrolled \<and> units now"
| "operation_ok (OpImport raw keys now) \<longleftrightarrow> units raw \<and> units now"
| "operation_ok OpForget \<longleftrightarrow> True"

definition keeps_history :: "'k platform \<Rightarrow> storage \<Rightarrow> storage \<Rightarrow> bool" where
  "keeps_history F st st' \<longleftrightarrow> (state_fits st' \<longrightarrow> grows (rs_highest (stored_state F st)) (rs_highest (stored_state F st')))"

lemma pinned_ok: "state_ok s \<Longrightarrow> pred_option (\<lambda>(t, _). units t \<and> t \<noteq> []) known \<Longrightarrow> state_ok (pinnedTenant known s)"
  by (cases known) (auto simp: pinnedTenant_def state_ok_def)

lemma stamped_ok: "state_ok s \<Longrightarrow> units now \<Longrightarrow> state_ok (s\<lparr>rs_lastSync := Some (sync_stamp now x y)\<rparr>)"
  by (simp add: state_ok_def sync_stamp_def)

lemma update_keeps:
  assumes "platform_ok F" and "state_ok (change (stored_state F st))" and "st_state st' = st_state st"
  shows "keeps_history F st (updateState F st' change)"
  using update_grows [where change = change, OF assms(1) stored_state_ok [OF assms(1)] assms(2) _ assms(3)]
  by (simp add: keeps_history_def)

lemma tenantFor_ok:
  assumes "platform_ok F" and "pred_option (\<lambda>(t, _). units t \<and> t \<noteq> []) enrolled"
  shows "pred_option (\<lambda>(t, _). units t \<and> t \<noteq> []) (tenantFor (stored_state F st) enrolled)"
proof (cases enrolled)
  case None
  then show ?thesis using stored_state_ok [OF assms(1), of st]
    by (cases "rs_tenantId (stored_state F st)") (auto simp: tenantFor_def state_ok_def)
qed (use assms(2) in \<open>simp add: tenantFor_def\<close>)

lemma first_tenant_ok: "first_tenant F envelope keys source = Some (t, x) \<Longrightarrow> t \<noteq> []"
  by (auto simp: first_tenant_def split: sum.splits option.splits if_splits)

lemma refuse_keeps:
  assumes "platform_ok F" and "pred_option (\<lambda>(t, _). units t \<and> t \<noteq> []) known" and "units now"
  shows "keeps_history F st (fst (refuse_pack F st known now reason))"
  unfolding refuse_pack_def fst_conv
  by (rule update_keeps [OF assms(1)]) (simp_all add: stamped_ok pinned_ok stored_state_ok assms)

lemma applied_ok:
  assumes "platform_ok F" and "acceptRulesPack F U R envelope ctx = Inr a" and "json_wf envelope"
    and "\<And>t. ac_enrolledTenant ctx = Some t \<Longrightarrow> t \<noteq> []" and "state_ok state" and "state_ok fresh" and "units now"
  shows "state_ok (applied_state state (ap_pack a) (ap_digest a) source now fresh)"
proof -
  note acc = acceptance [OF assms(2,1,3)]
  have "units (historyKey (rp_tenantId (cp_payload (ap_pack a))) (rp_packId (cp_payload (ap_pack a))))"
    using acc(3,4) js_units [of "''@''"] by (auto simp: historyKey_def units_def)
  moreover have "version_ok \<lparr>av_version = of_nat (rp_version (cp_payload (ap_pack a))), av_digest = ap_digest a\<rparr>"
    using acc(2) by (simp add: version_ok_def)
  moreover have "history_ok (mergeHighest (rs_highest state) (rs_highest fresh))"
    using assms(5,6) by (intro merge_highest(1)) (simp_all add: state_ok_def)
  moreover have "rp_tenantId (cp_payload (ap_pack a)) \<noteq> []" using assms(4) [OF acc(1)] .
  ultimately show ?thesis
    using acc(2,3) assms(7) HEX64_units by (simp add: applied_state_def state_ok_def set_ok sync_stamp_def)
qed

lemma apply_keeps:
  assumes F: "platform_ok F" and wf: "json_wf envelope" and now: "units now"
    and known: "pred_option (\<lambda>(t, _). units t \<and> t \<noteq> []) known"
  shows "keeps_history F st (fst (applyEnvelope F U R st envelope (stored_state F st) known source keys now))"
proof -
  let ?tenant = "case known of Some t \<Rightarrow> Some t | None \<Rightarrow> first_tenant F envelope keys source"
  let ?ctx = "\<lparr>ac_keys = keys, ac_enrolledTenant = map_option fst ?tenant, ac_highest = rs_highest (stored_state F st),
     ac_now = now, ac_selfTestedDigest = rs_selfTestedDigest (stored_state F st)\<rparr>"
  note refused = refuse_keeps [OF F known now]
  have same: "keeps_history F st st" by (simp add: keeps_history_def grows_refl)
  have tenant: "t \<noteq> []" if "map_option fst ?tenant = Some t" for t
    using that known by (cases known) (auto dest: first_tenant_ok)
  have applied: "keeps_history F st (updateState F (st\<lparr>st_pack := p\<rparr>) (applied_state (stored_state F st) (ap_pack a) (ap_digest a) src now))"
    if "acceptRulesPack F U R envelope ?ctx = Inr a" for a p src
  proof (rule update_keeps [OF F])
    show "state_ok (applied_state (stored_state F st) (ap_pack a) (ap_digest a) src now (stored_state F st))"
      by (rule applied_ok [OF F that wf _ stored_state_ok [OF F] stored_state_ok [OF F] now]) (use tenant in simp)
  qed simp
  show ?thesis
    unfolding applyEnvelope_def Let_def
    using refused applied same by (simp split: sum.split option.split)
qed

end
