(* ===== verification/Rules_History.thy ===== *)
theory Rules_History
  imports Rules_State
begin

text \<open>
  The history of a workstation's rules packs over any sequence of synchronisations, imports and
  disconnections, as a reachability relation; a concrete platform and a concrete signed pack, on
  which the properties of the acceptance, of the state file and of the history are applied.
\<close>

section \<open>Sequences of operations\<close>

lemma forget_keeps:
  assumes "platform_ok F"
  shows "keeps_history F st (forgetEnrollment F st)"
proof -
  let ?h = "rs_highest (stored_state F st)"
  let ?s = "EMPTY_RULES_PACK_STATE\<lparr>rs_highest := ?h\<rparr>"
  have h: "history_ok ?h" using stored_state_ok [OF assms, of st] by (simp add: state_ok_def)
  then have s: "state_ok ?s" by (simp add: state_ok_def EMPTY_RULES_PACK_STATE_def)
  have st: "st_state (forgetEnrollment F st) = writeRulesPackState F ?s"
    by (simp add: forgetEnrollment_def stored_state_def Let_def)
  show ?thesis
    unfolding keeps_history_def
  proof
    assume "state_fits (forgetEnrollment F st)"
    then have "length (state_bytes F ?s) \<le> MAX_RULES_PACK_BYTES"
      by (simp add: state_fits_def st writeRulesPackState_def state_bytes_def)
    from state_file_reads_back [OF assms s this]
    have "stored_state F (forgetEnrollment F st) = ?s\<lparr>rs_highest := own_entries ?h\<rparr>"
      by (simp add: stored_state_def st)
    with h show "grows ?h (rs_highest (stored_state F (forgetEnrollment F st)))" by simp
  qed
qed

lemma sync_keeps:
  assumes "platform_ok F" and "operation_ok (OpSync fetched enrolled keys now)"
  shows "keeps_history F st (perform F U R st (OpSync fetched enrolled keys now))"
proof -
  have arguments: "pred_option json_wf fetched" "pred_option (\<lambda>(t, _). units t \<and> t \<noteq> []) enrolled" "units now"
    using assms(2) by simp_all
  note fresh = stored_state_ok [OF assms(1), of st]
  note known = tenantFor_ok [OF assms(1) arguments(2), of st]
  have failed: "keeps_history F st (updateState F st (\<lambda>fresh. fresh\<lparr>rs_lastSync := Some (sync_stamp now SyncError (Some SyncFailed))\<rparr>))"
    by (rule update_keeps [OF assms(1)]) (simp_all add: stamped_ok fresh arguments)
  have none: "keeps_history F st (updateState F (st\<lparr>st_pack := FileAbsent\<rparr>)
       (\<lambda>fresh. (pinnedTenant (tenantFor (stored_state F st) enrolled) fresh)\<lparr>rs_lastSync := Some (sync_stamp now SyncNone None)\<rparr>))"
    by (rule update_keeps [OF assms(1)]) (simp_all add: stamped_ok pinned_ok fresh known arguments)
  show ?thesis
  proof (cases fetched)
    case None
    then show ?thesis using failed by (simp add: syncRulesPack_def)
  next
    case (Some envelope)
    then have "json_wf envelope" using arguments(1) by simp
    from apply_keeps [OF assms(1) this arguments(3) known] none Some show ?thesis
      by (simp add: syncRulesPack_def Let_def flip: stored_state_def)
  qed
qed

lemma import_keeps:
  assumes "platform_ok F" and "operation_ok (OpImport raw keys now)"
  shows "keeps_history F st (perform F U R st (OpImport raw keys now))"
proof -
  have arguments: "units raw" "units now" using assms(2) by simp_all
  note fresh = stored_state_ok [OF assms(1), of st]
  have known: "pred_option (\<lambda>(t, _). units t \<and> t \<noteq> []) (tenantFor (stored_state F st) None)"
    by (rule tenantFor_ok [OF assms(1)]) simp
  have large: "keeps_history F st (updateState F st
       (\<lambda>fresh. fresh\<lparr>rs_lastSync := Some (sync_stamp now SyncRejected (Some (Refusal TooLarge)))\<rparr>))"
    by (rule update_keeps [OF assms(1)]) (simp_all add: stamped_ok fresh arguments)
  have "json_wf (case json_parse raw of None \<Rightarrow> JNull | Some v \<Rightarrow> v)"
    using json_parse_wf [OF _ arguments(1)] by (simp split: option.split)
  from apply_keeps [OF assms(1) this arguments(2) known] large show ?thesis
    by (simp add: importRulesPack_def Let_def flip: stored_state_def)
qed

lemma perform_keeps:
  assumes "platform_ok F" and "operation_ok step"
  shows "keeps_history F st (perform F U R st step)"
  using assms(2) sync_keeps [OF assms(1)] import_keeps [OF assms(1)] forget_keeps [OF assms(1)] by (cases step) simp_all

text \<open>The storages a workstation reaches while its state file stays within the size the reader accepts.\<close>

inductive reaches :: "'k platform \<Rightarrow> unicode \<Rightarrow> native_engine \<Rightarrow> storage \<Rightarrow> storage \<Rightarrow> bool" for F U R st where
  reaches_start: "reaches F U R st st"
| reaches_step: "reaches F U R st st' \<Longrightarrow> operation_ok step \<Longrightarrow> state_fits (perform F U R st' step)
    \<Longrightarrow> reaches F U R st (perform F U R st' step)"

lemma reaches_grows:
  assumes "platform_ok F" and "reaches F U R st st'"
  shows "grows (rs_highest (stored_state F st)) (rs_highest (stored_state F st'))"
  using assms(2)
proof induction
  case (reaches_step st' step)
  have "grows (rs_highest (stored_state F st')) (rs_highest (stored_state F (perform F U R st' step)))"
    using perform_keeps [OF assms(1) reaches_step.hyps(2), of st' U R] reaches_step.hyps(3) by (simp add: keeps_history_def)
  with reaches_step.IH show ?case by (rule grows_trans)
qed (rule grows_refl)

section \<open>No downgrade\<close>

lemma loaded_accepted:
  assumes "platform_ok F" and "loadAppliedRulesPack F U R st keys now = PackApplied a"
  shows "\<exists>envelope ctx. json_wf envelope \<and> acceptRulesPack F U R envelope ctx = Inr a \<and>
    ac_highest ctx = rs_highest (stored_state F st) \<and> ac_enrolledTenant ctx = rs_tenantId (stored_state F st)"
proof -
  let ?ctx = "\<lparr>ac_keys = keys, ac_enrolledTenant = rs_tenantId (stored_state F st),
     ac_highest = rs_highest (stored_state F st), ac_now = now, ac_selfTestedDigest = rs_selfTestedDigest (stored_state F st)\<rparr>"
  obtain raw envelope where r: "readBoundedFile F (st_pack st) = ReadText raw" "json_parse raw = Some envelope"
    and a: "acceptRulesPack F U R envelope ?ctx = Inr a"
    using assms(2) by (auto simp: loadAppliedRulesPack_def stored_state_def Let_def split: bounded_read.splits option.splits sum.splits)
  have "units raw" using r(1) assms(1) by (cases "st_pack st") (auto simp: platform_ok_def split: if_splits)
  then have "json_wf envelope" by (rule json_parse_wf [OF r(2)])
  with a show ?thesis by (intro exI [of _ envelope] exI [of _ ?ctx]) simp
qed

text \<open>C20: No downgrade: whatever synchronisations, imports and disconnections happen after a version was
  recorded, a pack the hook runner applies from the disk is of the enrolled tenant and at least as
  recent as that version.\<close>

theorem no_downgrade:
  assumes "platform_ok F" and "reaches F U R st st'"
    and "loadAppliedRulesPack F U R st' keys now = PackApplied a"
    and "obj_get (rs_highest (stored_state F st))
           (historyKey (rp_tenantId (cp_payload (ap_pack a))) (rp_packId (cp_payload (ap_pack a)))) = Some v"
  shows "rs_tenantId (stored_state F st') = Some (rp_tenantId (cp_payload (ap_pack a))) \<and>
    av_version v \<le> of_nat (rp_version (cp_payload (ap_pack a)))"
proof -
  obtain w where w: "obj_get (rs_highest (stored_state F st'))
      (historyKey (rp_tenantId (cp_payload (ap_pack a))) (rp_packId (cp_payload (ap_pack a)))) = Some w" "av_version v \<le> av_version w"
    using reaches_grows [OF assms(1,2)] assms(4) unfolding grows_def by blast
  obtain envelope ctx where e: "json_wf envelope" "acceptRulesPack F U R envelope ctx = Inr a"
      "ac_highest ctx = rs_highest (stored_state F st')" "ac_enrolledTenant ctx = rs_tenantId (stored_state F st')"
    using loaded_accepted [OF assms(1,3)] by blast
  note acc = acceptance [OF e(2) assms(1) e(1)]
  have "av_version w \<le> of_nat (rp_version (cp_payload (ap_pack a)))"
    by (rule acc(5)) (simp add: e(3) w(1) ownEntry_def)
  with w(2) acc(1) e(4) show ?thesis by simp
qed

section \<open>A concrete platform\<close>

text \<open>Decimal numbers, strict UTF-8, a constant digest and a key that verifies everything.\<close>

definition sample_digest :: ustring where "sample_digest = replicate 64 48"

definition sample_number :: "rat \<Rightarrow> ustring" where
  "sample_number q = (if q < 0 then 45 # decimal (nat (- \<lfloor>q\<rfloor>)) else decimal (nat \<lfloor>q\<rfloor>))"

definition sample_text :: "nat list \<Rightarrow> ustring" where
  "sample_text b = (case utf8_decode_raw b of Some s \<Rightarrow> s | None \<Rightarrow> [])"

definition sample_platform :: "unit platform" where
  "sample_platform = \<lparr>pf_sha256 = \<lambda>_. sample_digest, pf_import = \<lambda>_. Some (), pf_verify = \<lambda>_ _ _. True, pf_text = sample_text,
     pf_number = sample_number\<rparr>"

lemma digits_literal:
  assumes "s \<noteq> []" and "list_all is_digit s" and "hd s = 48 \<longrightarrow> length s = 1"
  shows "number_literal s (of_nat (digits_value s))" and "number_literal (45 # s) (- of_nat (digits_value s))"
proof -
  have t: "takeWhile is_digit s = s" "dropWhile is_digit s = []"
    using assms(2) by (simp_all add: takeWhile_eq_all_conv dropWhile_eq_Nil_conv list_all_iff)
  have h: "hd s \<noteq> 45" using assms(1,2) by (cases s) (auto simp: is_digit_def)
  have low: "list_all (\<lambda>c. c < 128) s" using assms(2) by (auto simp: list_all_iff is_digit_def)
  show "number_literal s (of_nat (digits_value s))" "number_literal (45 # s) (- of_nat (digits_value s))"
    using assms(1,3) h low by (auto simp: number_literal_def number_body_def t Let_def)
qed

lemma sample_number_literal: "number_literal (sample_number (of_int i)) (of_int i)"
proof -
  have "hd (decimal n) = 48 \<longrightarrow> length (decimal n) = 1" for n using decimal_facts [of n] by auto
  then have literal: "number_literal (decimal n) (of_nat n)" "number_literal (45 # decimal n) (- of_nat n)" for n
    using digits_literal [of "decimal n"] decimal_facts [of n] by simp_all
  show ?thesis
  proof (cases "i < 0")
    case True
    then show ?thesis using literal(2) [of "nat (- i)"] by (simp add: sample_number_def)
  next
    case False
    then show ?thesis using literal(1) [of "nat i"] by (simp add: sample_number_def)
  qed
qed

lemma sample_text_units: "units (sample_text b)"
proof -
  have "utf8_decode ([0xEF, 0xBB, 0xBF] @ b) = utf8_decode_raw b" by (simp add: utf8_decode_def)
  then show ?thesis using utf8_decode_units by (auto simp: sample_text_def units_def split: option.split)
qed

lemma sample_platform_ok: "platform_ok sample_platform"
  using sample_number_literal sample_text_units
  by (simp add: platform_ok_def sample_platform_def sample_text_def utf8_roundtrip_raw HEX64_def sample_digest_def is_digit_def
    list_all_iff)

section \<open>A concrete signed pack\<close>

definition sample_authority :: "unit authority_key" where
  "sample_authority = \<lparr>ak_keyId = sample_digest, ak_publicKey = js ''k'', ak_key = ()\<rparr>"

definition sample_envelope :: json where
  "sample_envelope = JObj [(js ''payload'', sample_pack_json), (js ''keyId'', JStr sample_digest),
     (js ''signature'', JStr (replicate 86 65 @ [61, 61]))]"

definition sample_state :: rules_state where
  "sample_state = \<lparr>rs_tenantId = Some (js ''t''), rs_tenantSource = Some FromRegister,
     rs_highest = [(js ''p@t'', \<lparr>av_version = 1, av_digest = sample_digest\<rparr>)], rs_selfTestedDigest = None, rs_lastSync = None\<rparr>"

definition sample_accepted :: accepted_pack where
  "sample_accepted = \<lparr>ap_pack = new_pack (read_payload sample_pack_json) [PatternDetector sample_detector],
     ap_digest = sample_digest, ap_keyId = sample_digest, ap_expired = False\<rparr>"

lemma sample_envelope_fields:
  "envelope_fields sample_envelope = Some (sample_pack_json, sample_digest, replicate 86 65 @ [61, 61])"
  by (simp add: sample_envelope_def envelope_fields_def field_def obj_get_def isObject_def sample_pack_json_def
      HEX64_def sample_digest_def base64_text_def list_all_iff is_digit_def is_base64_char_def is_alnum_def
      is_upper_alpha_def numeral_2_eq_2)

lemma sample_quick: "quickPayload sample_pack_json = Some (js ''t'', js ''p'', 1, js ''2026-02-01T00:00:00Z'')"
  by (simp add: quickPayload_def sample_pack_json_def field_def obj_get_def)

lemma sample_acceptance:
  "acceptRulesPack sample_platform ascii_unicode (\<lambda>_ _ _. []) sample_envelope
     \<lparr>ac_keys = [sample_authority], ac_enrolledTenant = Some (js ''t''), ac_highest = rs_highest sample_state,
      ac_now = js ''2026-01-15T00:00:00.000Z'', ac_selfTestedDigest = None\<rparr> = Inr sample_accepted"
proof -
  have verified: "verifyRulesPackEnvelope sample_platform sample_envelope [sample_authority] =
      Inr \<lparr>ve_payload = sample_pack_json, ve_keyId = sample_digest, ve_digest = sample_digest\<rparr>"
    by (simp add: verifyRulesPackEnvelope_def sample_envelope_fields sample_authority_def sample_platform_def Let_def)
  have history: "ownEntry (rs_highest sample_state) (historyKey (js ''t'') (js ''p'')) = Some \<lparr>av_version = 1, av_digest = sample_digest\<rparr>"
    by (simp add: sample_state_def ownEntry_def obj_get_def historyKey_def js_def)
  have expiry: "string_less (contractTimestamp (js ''2026-01-15T00:00:00.000Z'')) (js ''2026-02-01T00:00:00Z'')"
    by (simp add: contractTimestamp_def js_def)
  show ?thesis
    by (simp add: acceptRulesPack_def verified sample_quick history history_refusal_def sample_pack_compiles
        expiry sample_accepted_def)
qed

lemma sample_accepted_ids:
  "rp_tenantId (cp_payload (ap_pack sample_accepted)) = js ''t''" "rp_packId (cp_payload (ap_pack sample_accepted)) = js ''p''"
  by (simp_all add: sample_accepted_def new_pack_def sample_read)

text \<open>The sample pack, accepted, is authentic.\<close>

theorem accepted_pack_authentic_witness:
  "\<exists>payload signature key version. envelope_fields sample_envelope = Some (payload, sample_digest, signature) \<and>
     key \<in> {sample_authority} \<and> pf_verify sample_platform (ak_key key)
       (utf8_encode (canonicalizePolicyPayload sample_number payload)) (base64_bytes signature) \<and>
     field payload ''version'' = Some (JNum version) \<and> (version = 1 \<or> 1 < version)"
proof -
  have ids: "ap_keyId sample_accepted = sample_digest" "pf_number sample_platform = sample_number"
    by (simp_all add: sample_accepted_def sample_platform_def)
  have "ownEntry (rs_highest sample_state) (historyKey (js ''t'') (js ''p'')) = Some \<lparr>av_version = 1, av_digest = sample_digest\<rparr>"
    by (simp add: sample_state_def ownEntry_def obj_get_def historyKey_def js_def)
  then show ?thesis
    using accepted_pack_authentic [OF sample_acceptance] unfolding sample_accepted_ids ids by auto
qed

section \<open>The state file and the history on the sample\<close>

lemma utf8_encode_length: "length (utf8_encode s) \<le> 4 * length s"
proof -
  have "length (concat (map (\<lambda>cp. utf8_of_cp (if is_surrogate cp then 0xFFFD else cp)) cps)) \<le> 4 * length cps" for cps
  proof (induction cps)
    case (Cons cp cps)
    have "length (utf8_of_cp c) \<le> 4" for c by (simp add: utf8_of_cp_def)
    from this [of "if is_surrogate cp then 0xFFFD else cp"] Cons show ?case by simp
  qed simp
  from this [of "code_points s"] length_chars [of s] show ?thesis by (simp add: utf8_encode_def code_points_def)
qed

lemma quote_body_length: "length (quote_body s) \<le> 6 * length s"
proof -
  have "length (quote_unit u) \<le> 6" for u
    by (simp add: quote_unit_def unicode_escape_def split: option.split)
  note unit = this
  show ?thesis
  proof (induction s rule: quote_body.induct)
    case (3 a b s)
    then show ?case using unit [of a] by (auto split: if_splits)
  qed (use unit in simp_all)
qed

lemma json_string_length: "length (json_string s) \<le> 6 * length s + 2"
  using quote_body_length [of s] by (simp add: json_string_def)

lemma sample_state_ok: "state_ok sample_state"
  by (simp add: sample_state_def state_ok_def history_ok_def version_ok_def js_units units_def sample_digest_def HEX64_def
      list_all_iff is_digit_def js_def)

text \<open>A bound on the printed text, by structure.\<close>

fun text_bound :: "number_text \<Rightarrow> json \<Rightarrow> nat" where
  "text_bound N (JNum q) = length (N q)"
| "text_bound N (JStr s) = 6 * length s + 2"
| "text_bound N (JArr vs) = 2 + sum_list (map (\<lambda>v. text_bound N v + 1) vs)"
| "text_bound N (JObj kvs) = 2 + sum_list (map (\<lambda>(k, v). 6 * length k + text_bound N v + 4) kvs)"
| "text_bound N _ = 5"

lemma json_text_length:
  "length (json_text N v) \<le> text_bound N v"
  "length (items_text N vs) \<le> sum_list (map (\<lambda>v. text_bound N v + 1) vs)"
  "length (members_text N kvs) \<le> sum_list (map (\<lambda>(k, v). 6 * length k + text_bound N v + 4) kvs)"
proof (induction N v and N vs and N kvs rule: json_text_items_text_members_text.induct)
  case (11 N k v)
  then show ?case using json_string_length [of k] by simp
next
  case (12 N k v kv kvs)
  then show ?case using json_string_length [of k] by simp
qed (use json_string_length in \<open>simp_all add: js_def\<close>)

lemma own_entries_plain: "list_all (\<lambda>kv. array_index (fst kv) = None) kvs \<Longrightarrow> own_entries kvs = kvs"
  by (simp add: own_entries_def indexed_def filter_False list_all_iff)

lemma fits_by_bound:
  "text_bound N (reorder own_entries v) \<le> 1000000 \<Longrightarrow> length (utf8_encode (json_stringify N v)) \<le> MAX_RULES_PACK_BYTES"
  using utf8_encode_length [of "json_stringify N v"] json_text_length(1) [of N "reorder own_entries v"]
  by (simp add: json_stringify_def MAX_RULES_PACK_BYTES_def)

lemmas plain_keys = array_index_def js_def is_digit_def own_entries_plain sample_number_def decimal.simps sample_digest_def

lemma sample_envelope_order: "reorder own_entries sample_envelope = sample_envelope"
  by (simp add: sample_envelope_def sample_pack_json_def sample_detector_json_def plain_keys)

lemma sample_envelope_fits: "length (utf8_encode (json_stringify sample_number sample_envelope)) \<le> MAX_RULES_PACK_BYTES"
  by (rule fits_by_bound)
    (simp add: sample_envelope_order, simp add: sample_envelope_def sample_pack_json_def sample_detector_json_def plain_keys)

lemma sample_state_fits:
  "length (state_bytes sample_platform (sample_state\<lparr>rs_lastSync := r\<rparr>)) \<le> MAX_RULES_PACK_BYTES"
  if "r = None \<or> r = Some (sync_stamp (js ''now'') SyncError (Some SyncFailed))"
proof -
  have "pf_number sample_platform = sample_number" by (simp add: sample_platform_def)
  then show ?thesis
    unfolding state_bytes_def using that
    by (intro fits_by_bound) (auto simp add: json_of_state_def sample_state_def json_of_version_def optional_member_def
      json_of_sync_def sync_stamp_def name_of_def SOURCES_def SYNC_OUTCOMES_def SYNC_REASONS_def plain_keys)
qed

text \<open>The sample state reads back.\<close>

theorem state_file_roundtrip_witness:
  "readRulesPackState sample_platform (writeRulesPackState sample_platform sample_state) = sample_state"
proof -
  have "own_entries (rs_highest sample_state) = rs_highest sample_state"
    by (simp add: sample_state_def plain_keys)
  then have "sample_state\<lparr>rs_highest := own_entries (rs_highest sample_state)\<rparr> = sample_state" by simp
  moreover have "length (state_bytes sample_platform sample_state) \<le> MAX_RULES_PACK_BYTES"
    using sample_state_fits [of None] by (simp add: sample_state_def)
  ultimately show ?thesis
    using state_file_roundtrip [OF sample_platform_ok sample_state_ok] by simp
qed

text \<open>A workstation with the sample pack and the sample state, and the same after a failed synchronisation.\<close>

definition sample_storage :: storage where
  "sample_storage = \<lparr>st_pack = FileContent (utf8_encode (json_stringify sample_number sample_envelope)),
     st_state = writeRulesPackState sample_platform sample_state\<rparr>"

definition sample_failed :: "unit storage_operation" where
  "sample_failed = OpSync None None [sample_authority] (js ''now'')"

abbreviation sample_later :: storage where
  "sample_later \<equiv> perform sample_platform ascii_unicode (\<lambda>_ _ _. []) sample_storage sample_failed"

lemma sample_stored:
  assumes "r = None \<or> r = Some (sync_stamp (js ''now'') SyncError (Some SyncFailed))"
  shows "readRulesPackState sample_platform (writeRulesPackState sample_platform (sample_state\<lparr>rs_lastSync := r\<rparr>)) =
    sample_state\<lparr>rs_lastSync := r\<rparr>"
proof -
  have own: "own_entries (rs_highest sample_state) = rs_highest sample_state" by (simp add: sample_state_def plain_keys)
  have "state_ok (sample_state\<lparr>rs_lastSync := r\<rparr>)"
    using sample_state_ok assms js_units by (auto simp: state_ok_def sync_stamp_def)
  from state_file_reads_back [OF sample_platform_ok this sample_state_fits [OF assms]] own show ?thesis by simp
qed

lemma sample_later_state:
  "st_pack sample_later = st_pack sample_storage"
  "st_state sample_later = writeRulesPackState sample_platform
     (sample_state\<lparr>rs_lastSync := Some (sync_stamp (js ''now'') SyncError (Some SyncFailed))\<rparr>)"
proof -
  have fresh: "readRulesPackState sample_platform (st_state sample_storage) = sample_state"
    using sample_stored [of None] by (simp add: sample_storage_def sample_state_def)
  have "mergeHighest (rs_highest sample_state) (rs_highest sample_state) = rs_highest sample_state"
    by (simp add: sample_state_def mergeHighest_def merge_entry_def ownEntry_def obj_get_def plain_keys)
  then show "st_state sample_later = writeRulesPackState sample_platform
     (sample_state\<lparr>rs_lastSync := Some (sync_stamp (js ''now'') SyncError (Some SyncFailed))\<rparr>)"
    by (simp add: sample_failed_def syncRulesPack_def updateState_def updated_state_def fresh)
qed (simp add: sample_failed_def syncRulesPack_def updateState_def)

lemma envelope_prints: "prints sample_number sample_envelope"
proof -
  have "number_literal (sample_number 1) 1" using sample_number_literal [of 1] by simp
  then show ?thesis
    by (simp add: sample_envelope_def sample_pack_json_def sample_detector_json_def js_units sample_digest_def)
      (simp add: units_def js_def list_all_iff)
qed

lemma sample_loads:
  "loadAppliedRulesPack sample_platform ascii_unicode (\<lambda>_ _ _. []) sample_later [sample_authority]
     (js ''2026-01-15T00:00:00.000Z'') = PackApplied sample_accepted"
proof -
  let ?t = "json_stringify sample_number sample_envelope"
  have "well_formed ?t"
    using plain_json_text [of sample_number sample_envelope] envelope_prints
    by (simp add: json_stringify_def sample_envelope_order plain_text_def paired_well_formed)
  then have "readBoundedFile sample_platform (st_pack sample_later) = ReadText ?t"
    using sample_envelope_fits unfolding sample_later_state(1) unfolding sample_storage_def
    by (simp add: utf8_roundtrip_raw sample_platform_def sample_text_def)
  moreover have "json_parse ?t = Some sample_envelope"
    using json_parse_stringify [OF envelope_prints] by (simp add: sample_envelope_order)
  moreover have "rs_tenantId sample_state = Some (js ''t'')" "rs_selfTestedDigest sample_state = None"
    by (simp_all add: sample_state_def)
  ultimately show ?thesis
    using sample_stored sample_acceptance by (simp add: loadAppliedRulesPack_def sample_later_state)
qed

text \<open>After the failed synchronisation the pack still loads, at the recorded version.\<close>

theorem no_downgrade_witness:
  "rs_tenantId (stored_state sample_platform sample_later) = Some (js ''t'') \<and>
    1 \<le> (of_nat (rp_version (cp_payload (ap_pack sample_accepted))) :: rat)"
proof -
  have "state_fits sample_later"
    using sample_state_fits by (simp add: state_fits_def sample_later_state writeRulesPackState_def state_bytes_def)
  then have reached: "reaches sample_platform ascii_unicode (\<lambda>_ _ _. []) sample_storage sample_later"
    by (intro reaches_step reaches_start) (simp_all add: sample_failed_def js_units)
  have recorded: "obj_get (rs_highest (stored_state sample_platform sample_storage)) (historyKey (js ''t'') (js ''p'')) =
      Some \<lparr>av_version = 1, av_digest = sample_digest\<rparr>"
    using sample_stored [of None]
    by (simp add: stored_state_def sample_storage_def) (simp add: sample_state_def obj_get_def historyKey_def js_def)
  show ?thesis
    using no_downgrade [OF sample_platform_ok reached sample_loads] recorded unfolding sample_accepted_ids by fastforce
qed

end
