(* ===== verification/Prompt_Hook.thy ===== *)
theory Prompt_Hook
  imports Hook_Policy Rules_Correct Hidden
begin

text \<open>
  The hook of the command line (cli/src/hook.ts, cli/src/file-guard.ts): what a prompt, the files it
  mentions or a file the assistant is about to read make of the protection mode.  A message is the
  constructor of its wording with what the wording mentions.  The files are a function of the path
  (\<open>None\<close> where the reader throws); the scans of one decision share a work meter and are recorded in
  order, as the observer of the caller sees them.
\<close>

section \<open>Files\<close>

datatype file_text = TextContent ustring | TextAbsent | TextUnreadable

type_synonym file_reader = "ustring \<Rightarrow> file_text option"

definition MAX_MENTIONED_FILES :: nat where "MAX_MENTIONED_FILES = 20"

text \<open>What \<open>statSync\<close> and \<open>readFileSync\<close> find at a path: nothing (\<open>ENOENT\<close>, \<open>ENOTDIR\<close>), another error,
  something that is no regular file, or a file.\<close>

datatype local_entry = EntryMissing | EntryError | EntryOther | EntryFile "nat list"

definition readLocalFile :: "(ustring \<Rightarrow> local_entry) \<Rightarrow> ustring \<Rightarrow> file_text" where
  "readLocalFile disk path =
     (case disk path of
        EntryMissing \<Rightarrow> TextAbsent
      | EntryError \<Rightarrow> TextUnreadable
      | EntryOther \<Rightarrow> TextAbsent
      | EntryFile bytes \<Rightarrow>
          if MAX_INPUT_BYTES < length bytes then TextUnreadable
          else case decodeScannableText bytes of None \<Rightarrow> TextUnreadable | Some content \<Rightarrow> TextContent content)"

definition MENTION :: regexp where
  "MENTION = re ''(?:^|~s)@(?:\"([^\"]+)\"|(~S+))'' ''''"

definition LINE_SUFFIX :: regexp where "LINE_SUFFIX = re ''#L~d+(?:-~d+)?$'' ''''"
definition PUNCTUATION :: regexp where "PUNCTUATION = re ''[,;:!?)]+$'' ''''"

text \<open>\<open>s.replace(R, "")\<close>.\<close>

definition remove_first :: "regexp \<Rightarrow> ustring \<Rightarrow> ustring" where
  "remove_first R s = (case rx_exec R s 0 of None \<Rightarrow> s | Some (a, b, _) \<Rightarrow> take a s @ drop b s)"

definition mention_token :: "ustring \<Rightarrow> rx_found \<Rightarrow> ustring" where
  "mention_token prompt m =
     (case rx_group prompt m 1 of
        Some t \<Rightarrow> t
      | None \<Rightarrow> (case rx_group prompt m 2 of Some t \<Rightarrow> t | None \<Rightarrow> []))"

text \<open>\<open>resolve(cwd, path)\<close>.\<close>

definition resolve_from :: "policy_host \<Rightarrow> ustring \<Rightarrow> ustring \<Rightarrow> ustring" where
  "resolve_from H cwd path = resolve_path (H\<lparr>ph_cwd := resolve_path H cwd\<rparr>) path"

definition mentionedPaths :: "policy_host \<Rightarrow> ustring \<Rightarrow> ustring \<Rightarrow> ustring list" where
  "mentionedPaths H prompt cwd =
     first_seen {} (map (resolve_from H cwd) (filter (\<lambda>path. path \<noteq> [])
       (map (\<lambda>m. remove_first PUNCTUATION (remove_first LINE_SUFFIX (mention_token prompt m))) (rx_all MENTION prompt 0))))"

section \<open>Modes and answers\<close>

datatype protection_mode = ModeBlock | ModeRedact | ModeObserve

definition parseHookMode :: "ustring list \<Rightarrow> protection_mode" where
  "parseHookMode args =
     (case List.find (\<lambda>a. take 7 a = js ''--mode='') args of
        None \<Rightarrow> ModeBlock
      | Some a \<Rightarrow>
          if drop 7 a = js ''observe'' then ModeObserve
          else if drop 7 a = js ''redact'' then ModeRedact else ModeBlock)"

datatype hidden_subject = ThisMessage | ThisFile ustring

datatype hook_message =
  InvalidInput | NoPrompt | UnexpectedEvent | TooManyFiles
| FileBlocked protection_mode ustring "scan_result option"
| FileObserved ustring "scan_result option"
| HiddenBlocked hidden_subject hidden_report
| HiddenObserved hidden_subject hidden_report
| ContentObserved scan_result
| ContentToRedact scan_result
| ContentBlocked scan_result

text \<open>An answer: whether the host goes on, why it stops, and the messages it shows (joined by blank lines,
  absent when there is none).\<close>

record hook_response =
  hk_continue :: bool
  hk_stopReason :: "hook_message option"
  hk_messages :: "hook_message list"

definition pass_on :: hook_response where
  "pass_on = \<lparr>hk_continue = True, hk_stopReason = None, hk_messages = []\<rparr>"

definition pass_with :: "hook_message \<Rightarrow> hook_response" where
  "pass_with m = \<lparr>hk_continue = True, hk_stopReason = None, hk_messages = [m]\<rparr>"

definition block_with :: "hook_message \<Rightarrow> hook_response" where
  "block_with reason = \<lparr>hk_continue = False, hk_stopReason = Some reason, hk_messages = []\<rparr>"

definition combine :: "hook_response list \<Rightarrow> hook_response" where
  "combine responses =
     (case List.find (\<lambda>r. \<not> hk_continue r) responses of
        Some blocked \<Rightarrow> blocked
      | None \<Rightarrow> \<lparr>hk_continue = True, hk_stopReason = None, hk_messages = concat (map hk_messages responses)\<rparr>)"

section \<open>The subject of an event\<close>

datatype hook_subject = PromptSubject ustring ustring | ReadSubject ustring

definition subject_cwd :: "policy_host \<Rightarrow> json \<Rightarrow> ustring" where
  "subject_cwd H input = (case field input ''cwd'' of Some (JStr s) \<Rightarrow> s | _ \<Rightarrow> ph_cwd H)"

definition hookSubject :: "policy_host \<Rightarrow> json \<Rightarrow> hook_subject option" where
  "hookSubject H input =
     (let event = nullish_or (field input ''hook_event_name'') (field input ''hookEventName'');
          cwd = subject_cwd H input in
      if event = Some (JStr (js ''PreToolUse'')) then
        (if field input ''tool_name'' \<noteq> Some (JStr (js ''Read'')) then None
         else case sub_field (field input ''tool_input'') ''file_path'' of
           Some (JStr path) \<Rightarrow> if path = [] then None else Some (ReadSubject (resolve_from H cwd path))
         | _ \<Rightarrow> None)
      else if event \<noteq> None \<and> event \<noteq> Some (JStr (js ''UserPromptSubmit'')) then None
      else case field input ''prompt'' of
        Some (JStr prompt) \<Rightarrow> Some (PromptSubject prompt cwd)
      | _ \<Rightarrow> None)"

section \<open>One decision\<close>

record hook_env =
  he_scan :: scan_env
  he_hidden :: hidden_unicode
  he_host :: policy_host
  he_rules :: "compiled_pack option"

text \<open>The shared meter and the results seen so far.\<close>

record hook_run =
  hn_meter :: "work_meter option"
  hn_seen :: "scan_result list"

definition tuningFor :: "compiled_pack option \<Rightarrow> hook_run" where
  "tuningFor rules =
     \<lparr>hn_meter = (if rules = None then None else Some (WorkMeter CUSTOM_RULES_WORK_BUDGET 0 None)), hn_seen = []\<rparr>"

definition tuned_scan :: "hook_env \<Rightarrow> ustring \<Rightarrow> hook_run \<Rightarrow> hook_run \<times> scan_result" where
  "tuned_scan E content hn =
     (case scan (he_scan E) \<lparr>si_content = Some content, si_languageId = None, si_rules = he_rules E,
                             si_workMeter = hn_meter hn\<rparr> of
        (result, meter) \<Rightarrow> (\<lparr>hn_meter = meter, hn_seen = hn_seen hn @ [result]\<rparr>, result))"

definition readSafely :: "file_reader \<Rightarrow> ustring \<Rightarrow> file_text" where
  "readSafely readFile path = (case readFile path of None \<Rightarrow> TextUnreadable | Some file \<Rightarrow> file)"

definition fileVerdict :: "hook_env \<Rightarrow> file_text \<Rightarrow> hook_run \<Rightarrow> hook_run \<times> scan_result option" where
  "fileVerdict E file hn =
     (case file of
        TextContent content \<Rightarrow> (case tuned_scan E content hn of (hn, result) \<Rightarrow> (hn, Some result))
      | _ \<Rightarrow> (hn, None))"

definition hiddenResponse :: "hook_env \<Rightarrow> ustring \<Rightarrow> protection_mode \<Rightarrow> hidden_subject \<Rightarrow> hook_response" where
  "hiddenResponse E content mode subject =
     (let report = findHidden (he_hidden E) content in
      if hr_complete report \<and> hr_hidden report = 0 then pass_on
      else if mode = ModeObserve then pass_with (HiddenObserved subject report)
      else block_with (HiddenBlocked subject report))"

definition tunedFileResponse ::
  "hook_env \<Rightarrow> ustring \<Rightarrow> protection_mode \<Rightarrow> file_reader \<Rightarrow> hook_run \<Rightarrow> hook_run \<times> hook_response" where
  "tunedFileResponse E path mode readFile hn =
     (let file = readSafely readFile path in
      if file = TextAbsent then (hn, pass_on)
      else case fileVerdict E file hn of
        (hn, result) \<Rightarrow>
          (hn,
           case (result, file) of
             (Some r, TextContent content) \<Rightarrow>
               if sr_decision r = ALLOW \<and> sr_complete r then hiddenResponse E content mode (ThisFile path)
               else if mode = ModeObserve then pass_with (FileObserved path result)
               else block_with (FileBlocked mode path result)
           | _ \<Rightarrow>
               if mode = ModeObserve then pass_with (FileObserved path result)
               else block_with (FileBlocked mode path result)))"

fun check_files ::
  "hook_env \<Rightarrow> protection_mode \<Rightarrow> file_reader \<Rightarrow> ustring list \<Rightarrow> hook_run \<Rightarrow> hook_run \<times> hook_response list" where
  "check_files E mode readFile [] hn = (hn, [])"
| "check_files E mode readFile (path # paths) hn =
     (case tunedFileResponse E path mode readFile hn of
        (hn, r) \<Rightarrow> (case check_files E mode readFile paths hn of (hn, rs) \<Rightarrow> (hn, r # rs)))"

definition mentionedFilesResponse ::
  "hook_env \<Rightarrow> ustring \<Rightarrow> ustring \<Rightarrow> protection_mode \<Rightarrow> file_reader \<Rightarrow> hook_run \<Rightarrow> hook_run \<times> hook_response" where
  "mentionedFilesResponse E prompt cwd mode readFile hn =
     (let paths = mentionedPaths (he_host E) prompt cwd in
      case check_files E mode readFile (take MAX_MENTIONED_FILES paths) hn of
        (hn, checked) \<Rightarrow>
          (hn, combine (checked @
             (if MAX_MENTIONED_FILES < length paths \<and> mode \<noteq> ModeObserve then [block_with TooManyFiles] else []))))"

definition responseForResult :: "scan_result \<Rightarrow> protection_mode \<Rightarrow> hook_response" where
  "responseForResult result mode =
     (if sr_decision result = ALLOW \<and> sr_complete result then pass_on
      else case mode of
        ModeObserve \<Rightarrow> pass_with (ContentObserved result)
      | ModeRedact \<Rightarrow> block_with (ContentToRedact result)
      | ModeBlock \<Rightarrow> block_with (ContentBlocked result))"

text \<open>The decision on a prompt.  The \<open>catch\<close> around it is never taken: \<open>scan\<close> turns every exception into an
  incomplete result, \<open>readSafely\<close> those of the reader into an unreadable file, and the rest is total.\<close>

definition prompt_response ::
  "hook_env \<Rightarrow> ustring \<Rightarrow> ustring \<Rightarrow> protection_mode \<Rightarrow> file_reader \<Rightarrow> hook_run \<Rightarrow> hook_run \<times> hook_response" where
  "prompt_response E prompt cwd mode readFile hn =
     (case tuned_scan E prompt hn of
        (hn, result) \<Rightarrow>
          (case mentionedFilesResponse E prompt cwd mode readFile hn of
             (hn, files) \<Rightarrow>
               (hn, combine [responseForResult result mode, hiddenResponse E prompt mode ThisMessage, files])))"

text \<open>An array is an object of JavaScript without the fields of an event.\<close>

definition runHook ::
  "hook_env \<Rightarrow> ustring \<Rightarrow> protection_mode \<Rightarrow> file_reader \<Rightarrow> scan_result list \<times> hook_response" where
  "runHook E rawInput mode readFile =
     (case json_parse rawInput of
        None \<Rightarrow> ([], block_with InvalidInput)
      | Some input \<Rightarrow>
          if \<not> is_object_value input then ([], block_with NoPrompt)
          else case hookSubject (he_host E) input of
            None \<Rightarrow> ([], block_with UnexpectedEvent)
          | Some (ReadSubject path) \<Rightarrow>
              (case tunedFileResponse E path mode readFile (tuningFor (he_rules E)) of (hn, r) \<Rightarrow> (hn_seen hn, r))
          | Some (PromptSubject prompt cwd) \<Rightarrow>
              (case prompt_response E prompt cwd mode readFile (tuningFor (he_rules E)) of (hn, r) \<Rightarrow> (hn_seen hn, r)))"

text \<open>\<open>fileResponse\<close>: the verdict of one file, with a meter of its own.\<close>

definition fileResponse :: "hook_env \<Rightarrow> ustring \<Rightarrow> protection_mode \<Rightarrow> file_reader \<Rightarrow> hook_response" where
  "fileResponse E path mode readFile = snd (tunedFileResponse E path mode readFile (tuningFor (he_rules E)))"

end
