(* ===== verification/Prompt_Hook_Correct.thy ===== *)
theory Prompt_Hook_Correct
  imports Prompt_Hook Json_Print
begin

text \<open>
  What the hook lets through: outside the observation mode, a prompt or a read goes on only when every
  text that would reach the model was scanned without a secret and without a hidden character; in the
  observation mode, exactly the valid events go on.
\<close>

section \<open>Combined answers\<close>

lemma combine_continue: "hk_continue (combine rs) \<longleftrightarrow> list_all hk_continue rs"
proof (cases "List.find (\<lambda>r. \<not> hk_continue r) rs")
  case None
  moreover from None have "list_all hk_continue rs" by (auto simp: find_None_iff list_all_iff)
  ultimately show ?thesis by (simp add: combine_def)
next
  case (Some r)
  moreover from Some have "\<not> list_all hk_continue rs \<and> \<not> hk_continue r" by (auto simp: find_Some_iff list_all_iff)
  ultimately show ?thesis by (simp add: combine_def)
qed

lemma answer_continue [simp]: "hk_continue pass_on" "hk_continue (pass_with m)" "\<not> hk_continue (block_with m)"
  by (simp_all add: pass_on_def pass_with_def block_with_def)

section \<open>Clean texts\<close>

definition clean_text :: "hook_env \<Rightarrow> ustring \<Rightarrow> bool" where
  "clean_text E s \<longleftrightarrow> \<not> fixed_secret s \<and> hr_complete (findHidden (he_hidden E) s) \<and> hr_hidden (findHidden (he_hidden E) s) = 0"

fun file_clean :: "hook_env \<Rightarrow> file_text \<Rightarrow> bool" where
  "file_clean E TextAbsent = True"
| "file_clean E TextUnreadable = False"
| "file_clean E (TextContent s) = clean_text E s"

lemma scan_allows:
  assumes "se_engine (he_scan E) = builtin_engine U url" and "tuned_scan E s hn = (hn', r)"
    and "sr_decision r = ALLOW" and "sr_complete r"
  shows "\<not> fixed_secret s"
proof -
  let ?input = "\<lparr>si_content = Some s, si_languageId = None, si_rules = he_rules E, si_workMeter = hn_meter hn\<rparr>"
  have "approved (fst (scan (he_scan E) ?input))"
    using assms(2-4) by (auto simp: tuned_scan_def approved_def split: prod.splits)
  then show ?thesis by (rule builtin.approved_without_secret [OF assms(1), rotated]) simp
qed

lemma hidden_passes:
  assumes "mode \<noteq> ModeObserve" and "hk_continue (hiddenResponse E s mode subject)"
  shows "hr_complete (findHidden (he_hidden E) s) \<and> hr_hidden (findHidden (he_hidden E) s) = 0"
  using assms by (auto simp: hiddenResponse_def Let_def split: if_splits)

lemma file_passes:
  assumes "se_engine (he_scan E) = builtin_engine U url" and "mode \<noteq> ModeObserve"
    and "hk_continue (snd (tunedFileResponse E path mode readFile hn))"
  shows "file_clean E (readSafely readFile path)"
proof (cases "readSafely readFile path")
  case (TextContent s)
  obtain hn' r where scanned: "tuned_scan E s hn = (hn', r)" by fastforce
  with TextContent assms(2,3) have r: "sr_decision r = ALLOW" "sr_complete r" "hk_continue (hiddenResponse E s mode (ThisFile path))"
    by (auto simp: tunedFileResponse_def fileVerdict_def Let_def split: if_splits)
  from scan_allows [OF assms(1) scanned r(1,2)] hidden_passes [OF assms(2) r(3)] show ?thesis
    by (simp add: TextContent clean_text_def)
next
  case TextUnreadable
  with assms(2,3) show ?thesis by (simp add: tunedFileResponse_def fileVerdict_def)
qed simp

lemma files_pass:
  assumes "se_engine (he_scan E) = builtin_engine U url" and "mode \<noteq> ModeObserve"
    and "list_all hk_continue (snd (check_files E mode readFile paths hn))"
  shows "list_all (\<lambda>path. file_clean E (readSafely readFile path)) paths"
  using assms(3)
proof (induction paths arbitrary: hn)
  case (Cons path paths)
  obtain hn1 r where r: "tunedFileResponse E path mode readFile hn = (hn1, r)" by fastforce
  obtain hn2 rs where rs: "check_files E mode readFile paths hn1 = (hn2, rs)" by fastforce
  from Cons.prems have "hk_continue r" "list_all hk_continue rs" by (simp_all add: r rs)
  with Cons.IH [of hn1] file_passes [OF assms(1,2), of path readFile hn] show ?case by (simp add: r rs)
qed simp

lemma mentioned_pass:
  assumes "se_engine (he_scan E) = builtin_engine U url" and "mode \<noteq> ModeObserve"
    and "hk_continue (snd (mentionedFilesResponse E prompt cwd mode readFile hn))"
  shows "list_all (\<lambda>path. file_clean E (readSafely readFile path)) (mentionedPaths (he_host E) prompt cwd)"
proof -
  let ?paths = "mentionedPaths (he_host E) prompt cwd"
  obtain hn' rs where rs: "check_files E mode readFile (take MAX_MENTIONED_FILES ?paths) hn = (hn', rs)" by fastforce
  from assms(2,3) have all: "list_all hk_continue rs" and few: "length ?paths \<le> MAX_MENTIONED_FILES"
    by (auto simp: mentionedFilesResponse_def Let_def rs combine_continue split: if_splits)
  from few have "take MAX_MENTIONED_FILES ?paths = ?paths" by simp
  with files_pass [OF assms(1,2), of readFile "take MAX_MENTIONED_FILES ?paths" hn] rs all show ?thesis by simp
qed

section \<open>Decisions\<close>

lemma subject_object: "hookSubject H input = Some subject \<Longrightarrow> is_object_value input"
  by (cases input) (auto simp: hookSubject_def Let_def field_def nullish_or_def)

text \<open>What would reach the model: the prompt with the files it mentions, or the file.\<close>

fun subject_clean :: "hook_env \<Rightarrow> file_reader \<Rightarrow> hook_subject \<Rightarrow> bool" where
  "subject_clean E readFile (ReadSubject path) = file_clean E (readSafely readFile path)"
| "subject_clean E readFile (PromptSubject prompt cwd) =
     (clean_text E prompt \<and> list_all (\<lambda>path. file_clean E (readSafely readFile path)) (mentionedPaths (he_host E) prompt cwd))"

lemma passed_clean:
  assumes "se_engine (he_scan E) = builtin_engine U url" and "mode \<noteq> ModeObserve"
    and "hk_continue (snd (runHook E rawInput mode readFile))"
  shows "\<exists>input subject. json_parse rawInput = Some input \<and> hookSubject (he_host E) input = Some subject \<and>
    subject_clean E readFile subject"
proof -
  from assms(3) obtain input subject where i: "json_parse rawInput = Some input" "is_object_value input"
    and s: "hookSubject (he_host E) input = Some subject"
    by (auto simp: runHook_def split: option.splits if_splits)
  have "subject_clean E readFile subject"
  proof (cases subject)
    case (ReadSubject path)
    have "hk_continue (snd (tunedFileResponse E path mode readFile (tuningFor (he_rules E))))"
      using assms(3) by (simp add: runHook_def i s ReadSubject split: prod.splits)
    from file_passes [OF assms(1,2) this] show ?thesis by (simp add: ReadSubject)
  next
    case (PromptSubject prompt cwd)
    obtain hn r where r: "tuned_scan E prompt (tuningFor (he_rules E)) = (hn, r)" by fastforce
    obtain hn' files where f: "mentionedFilesResponse E prompt cwd mode readFile hn = (hn', files)" by fastforce
    have all: "hk_continue (responseForResult r mode)" "hk_continue (hiddenResponse E prompt mode ThisMessage)" "hk_continue files"
      using assms(3) by (simp_all add: runHook_def i s PromptSubject prompt_response_def r f combine_continue)
    then have "sr_decision r = ALLOW" "sr_complete r"
      using assms(2) by (auto simp: responseForResult_def split: if_splits protection_mode.splits)
    from scan_allows [OF assms(1) r this] hidden_passes [OF assms(2) all(2)]
      mentioned_pass [OF assms(1,2), of prompt cwd readFile hn] f all(3)
    show ?thesis by (simp add: PromptSubject clean_text_def)
  qed
  with i s show ?thesis by blast
qed


lemma observed_files: "list_all hk_continue (snd (check_files E ModeObserve readFile paths hn))"
proof (induction paths arbitrary: hn)
  case (Cons path paths)
  obtain hn1 r where r: "tunedFileResponse E path ModeObserve readFile hn = (hn1, r)" by fastforce
  obtain hn2 rs where rs: "check_files E ModeObserve readFile paths hn1 = (hn2, rs)" by fastforce
  have "hk_continue r"
    using arg_cong [OF r, of snd]
    by (auto simp: tunedFileResponse_def fileVerdict_def hiddenResponse_def Let_def split: if_splits file_text.splits prod.splits)
  with Cons.IH [of hn1] show ?case by (simp add: r rs)
qed simp

text \<open>In the observation mode exactly the valid events go on: nothing found in them stops one.\<close>

theorem observe_passes_events:
  "hk_continue (snd (runHook E rawInput ModeObserve readFile)) \<longleftrightarrow>
     (\<exists>input subject. json_parse rawInput = Some input \<and> hookSubject (he_host E) input = Some subject)"
proof -
  have one: "hk_continue (snd (tunedFileResponse E path ModeObserve readFile hn))" for path hn
    using observed_files [of E readFile "[path]" hn] by (simp split: prod.splits)
  have mentioned: "hk_continue (snd (mentionedFilesResponse E prompt cwd ModeObserve readFile hn))" for prompt cwd hn
    using observed_files [of E readFile "take MAX_MENTIONED_FILES (mentionedPaths (he_host E) prompt cwd)" hn]
    by (cases "check_files E ModeObserve readFile (take MAX_MENTIONED_FILES (mentionedPaths (he_host E) prompt cwd)) hn")
      (simp add: mentionedFilesResponse_def Let_def combine_continue)
  have prompt: "hk_continue (snd (prompt_response E prompt cwd ModeObserve readFile hn))" for prompt cwd hn
  proof -
    obtain hn' r where r: "tuned_scan E prompt hn = (hn', r)" by fastforce
    obtain hn2 files where f: "mentionedFilesResponse E prompt cwd ModeObserve readFile hn' = (hn2, files)" by fastforce
    have "hk_continue files" using mentioned [of prompt cwd hn'] f by simp
    then show ?thesis
      by (simp add: prompt_response_def r f combine_continue responseForResult_def hiddenResponse_def Let_def)
  qed
  have "hk_continue (snd (runHook E rawInput ModeObserve readFile))"
    if i: "json_parse rawInput = Some input" and s: "hookSubject (he_host E) input = Some subject" for input subject
    using subject_object [OF s] one prompt
    by (cases subject) (simp_all add: runHook_def i s split: prod.splits, (metis snd_conv)+)
  note goes_on = this
  show ?thesis
  proof
    assume "hk_continue (snd (runHook E rawInput ModeObserve readFile))"
    then show "\<exists>input subject. json_parse rawInput = Some input \<and> hookSubject (he_host E) input = Some subject"
      by (auto simp: runHook_def split: option.splits if_splits)
  qed (use goes_on in blast)
qed

section \<open>A small event\<close>

definition sample_hook_env :: hook_env where
  "sample_hook_env = \<lparr>he_scan = short_env, he_hidden = sample_hidden_unicode,
     he_host = \<lparr>ph_cwd = [47], ph_lower = (\<lambda>s. s), ph_date = (\<lambda>_. None)\<rparr>, he_rules = None\<rparr>"

definition sample_event :: ustring where
  "sample_event = js ''{\"prompt\":\"a\"}''"

lemma sample_event_parses: "json_parse sample_event = Some (JObj [(js ''prompt'', JStr [97])])"
  by (simp add: sample_event_def parse_eval)

lemma no_mention: "rx_all MENTION [97] 0 = []"
proof -
  have "2 \<le> min_len (rx_ast MENTION)" by (simp add: MENTION_def regexp_eval)
  then show ?thesis by (intro rx_all_short) simp
qed

lemma sample_hook: "runHook sample_hook_env sample_event ModeBlock readFile = ([successfulResult [97] 1 [] []], pass_on)"
proof -
  obtain m where scanned: "scan short_env short_input = (successfulResult [97] 1 [] [], m)"
    using short_scan by (metis prod.collapse)
  have hidden: "findHidden sample_hidden_unicode [97] = \<lparr>hr_complete = True, hr_hidden = 0, hr_findings = []\<rparr>"
    by (simp add: findHidden_def classify_def isAscii_def MAX_INPUT_BYTES_def close_run_def)
  have result: "sr_decision (successfulResult [97] 1 [] []) = ALLOW" "sr_complete (successfulResult [97] 1 [] [])"
    using short_approved by (simp_all add: short_scan approved_def)
  have subject: "hookSubject (he_host sample_hook_env) (JObj [(js ''prompt'', JStr [97])]) = Some (PromptSubject [97] [47])"
    by (simp add: hookSubject_def subject_cwd_def field_def obj_get_def nullish_or_def sample_hook_env_def js_def)
  have "tuned_scan sample_hook_env [97] (tuningFor (he_rules sample_hook_env)) =
      (\<lparr>hn_meter = m, hn_seen = [successfulResult [97] 1 [] []]\<rparr>, successfulResult [97] 1 [] [])"
    using scanned by (simp add: tuned_scan_def sample_hook_env_def tuningFor_def short_input_def)
  then show ?thesis
    by (simp add: runHook_def sample_event_parses subject prompt_response_def mentionedFilesResponse_def mentionedPaths_def
        no_mention result responseForResult_def hiddenResponse_def Let_def combine_def pass_on_def del: One_nat_def)
      (simp add: sample_hook_env_def hidden del: One_nat_def)
qed


end
