(* ===== verification/Policy_Store.thy ===== *)
theory Policy_Store
  imports Rules_Trust Prompt_Hook
begin

text \<open>
  The managed policy of a workstation and the observation window: the validation of a signed policy
  (runner/src/policy-store.ts, verifyPolicySignature of runner/src/policy-signature.ts) and the
  deadline of the mode that warns and lets through (vscode/src/observe-window.ts), which the policy
  may only shorten.  The cryptography is the platform's record, the parsing of dates the host's.
\<close>

section \<open>The shape of a policy\<close>

definition EFFECTS :: "(ustring \<times> policy_effect) list" where
  "EFFECTS = [(js ''allow'', Allow), (js ''deny'', Deny), (js ''require_approval'', RequireApproval)]"

definition ASSISTANTS :: "(ustring \<times> assistant) list" where
  "ASSISTANTS = [(js ''claude'', Claude), (js ''codex'', Codex), (js ''copilot'', Copilot), (js ''unknown'', OtherAssistant)]"

definition EVENTS :: "(ustring \<times> policy_event) list" where
  "EVENTS = [(js ''prompt'', PromptEvent), (js ''read'', ReadEvent), (js ''write'', WriteEvent), (js ''delete'', DeleteEvent),
     (js ''command'', CommandEvent), (js ''network'', NetworkEvent), (js ''mcp'', McpEvent), (js ''unknown'', UnknownEvent)]"

definition ACTION_CLASSES :: "(ustring \<times> action_class) list" where
  "ACTION_CLASSES = [(js ''read'', ReadAction), (js ''write'', WriteAction), (js ''delete'', DeleteAction),
     (js ''publish'', PublishAction), (js ''deploy'', DeployAction), (js ''network'', NetworkAction),
     (js ''security'', SecurityAction), (js ''mcp'', McpAction), (js ''unknown'', UnknownAction)]"

definition isEffect :: "json option \<Rightarrow> bool" where
  "isEffect v \<longleftrightarrow> is_string (\<lambda>s. s \<in> fst ` set EFFECTS) v"

text \<open>The strings of an array of strings, \<open>None\<close> for any other value.\<close>

fun string_items :: "json list \<Rightarrow> ustring list option" where
  "string_items [] = Some []"
| "string_items (JStr s # vs) = map_option (Cons s) (string_items vs)"
| "string_items (_ # vs) = None"

fun string_array :: "json option \<Rightarrow> ustring list option" where
  "string_array (Some (JArr vs)) = string_items vs"
| "string_array _ = None"

definition exactKeys :: "json \<Rightarrow> string list \<Rightarrow> bool" where
  "exactKeys v allowed \<longleftrightarrow>
     (case as_object v of None \<Rightarrow> True | Some kvs \<Rightarrow> list_all (\<lambda>key. key \<in> set (map js allowed)) (map fst kvs))"

definition boundedArray :: "json option \<Rightarrow> (ustring \<Rightarrow> bool) \<Rightarrow> nat \<Rightarrow> bool" where
  "boundedArray v allowed maximum \<longleftrightarrow>
     v = None \<or> (case string_array v of None \<Rightarrow> False | Some items \<Rightarrow> length items \<le> maximum \<and> list_all allowed items)"

definition RULE_ID :: regexp where
  "RULE_ID = re ''^[a-z0-9][a-z0-9._-]{0,127}$'' ''''"

definition isRule :: "json \<Rightarrow> bool" where
  "isRule v \<longleftrightarrow>
     isObject v \<and> exactKeys v [''id'', ''effect'', ''reason'', ''match''] \<and>
     is_string (rx_test RULE_ID) (field v ''id'') \<and> isEffect (field v ''effect'') \<and>
     (field v ''reason'' = None \<or> is_string (\<lambda>s. length s \<le> 240) (field v ''reason'')) \<and>
     (case field v ''match'' of
        None \<Rightarrow> False
      | Some m \<Rightarrow>
          isObject m \<and> exactKeys m [''assistants'', ''events'', ''actionClasses'', ''resourcePrefixes'', ''tools''] \<and>
          boundedArray (field m ''assistants'') (\<lambda>s. s \<in> fst ` set ASSISTANTS) 4 \<and>
          boundedArray (field m ''events'') (\<lambda>s. s \<in> fst ` set EVENTS) 8 \<and>
          boundedArray (field m ''actionClasses'') (\<lambda>s. s \<in> fst ` set ACTION_CLASSES) 9 \<and>
          boundedArray (field m ''resourcePrefixes'') (\<lambda>s. 0 < length s \<and> length s \<le> 1024) 100 \<and>
          boundedArray (field m ''tools'') (\<lambda>s. 0 < length s \<and> length s \<le> 256) 100)"

definition OBSERVE_CAP_MINUTES :: "nat list" where "OBSERVE_CAP_MINUTES = [0, 15, 60, 240, 480]"

fun isObserveCap :: "json option \<Rightarrow> bool" where
  "isObserveCap (Some (JNum x)) = (x \<in> of_nat ` set OBSERVE_CAP_MINUTES)"
| "isObserveCap _ = False"

definition isWorkstation :: "json option \<Rightarrow> bool" where
  "isWorkstation v \<longleftrightarrow>
     (case v of
        None \<Rightarrow> True
      | Some w \<Rightarrow> isObject w \<and> exactKeys w [''observeMaxMinutes''] \<and> isObserveCap (field w ''observeMaxMinutes''))"

fun date_of :: "policy_host \<Rightarrow> json option \<Rightarrow> int option" where
  "date_of H (Some (JStr s)) = ph_date H s"
| "date_of H _ = None"

text \<open>\<open>Number.isSafeInteger\<close> at 1 or more.\<close>

fun safe_version :: "json option \<Rightarrow> bool" where
  "safe_version (Some (JNum x)) = (x = of_int \<lfloor>x\<rfloor> \<and> 1 \<le> x \<and> x \<le> 9007199254740991)"
| "safe_version _ = False"

text \<open>The conditions before the first one that can throw, and those after it; \<open>Object.keys(null)\<close> throws.\<close>

definition policy_head :: "policy_host \<Rightarrow> json \<Rightarrow> bool" where
  "policy_head H v \<longleftrightarrow>
     isObject v \<and>
     exactKeys v [''schemaVersion'', ''tenantId'', ''policyId'', ''version'', ''issuedAt'', ''expiresAt'', ''minRunnerVersion'',
       ''defaults'', ''rules'', ''workstation''] \<and>
     field v ''schemaVersion'' = Some (JNum 1) \<and>
     (field v ''tenantId'' = None \<or> is_string (\<lambda>s. 1 \<le> length s \<and> length s \<le> 128) (field v ''tenantId'')) \<and>
     is_string (\<lambda>s. 1 \<le> length s \<and> length s \<le> 128) (field v ''policyId'') \<and>
     safe_version (field v ''version'') \<and>
     (case (date_of H (field v ''issuedAt''), date_of H (field v ''expiresAt'')) of
        (Some issued, Some expires) \<Rightarrow> issued < expires | _ \<Rightarrow> False) \<and>
     (field v ''minRunnerVersion'' = None \<or>
      is_string (\<lambda>s. 1 \<le> length s \<and> length s \<le> 64) (field v ''minRunnerVersion''))"

definition policy_tail :: "json \<Rightarrow> json \<Rightarrow> bool" where
  "policy_tail v defaults \<longleftrightarrow>
     exactKeys defaults [''unknownAction''] \<and> isEffect (field defaults ''unknownAction'') \<and>
     (case array_of (field v ''rules'') of
        None \<Rightarrow> False
      | Some rules \<Rightarrow>
          length rules \<le> 500 \<and> list_all isRule rules \<and> distinct (map (\<lambda>rule. field rule ''id'') rules)) \<and>
     isWorkstation (field v ''workstation'')"

definition isPolicy :: "policy_host \<Rightarrow> json \<Rightarrow> bool option" where
  "isPolicy H v =
     (if \<not> policy_head H v then Some False
      else case field v ''defaults'' of
        Some JNull \<Rightarrow> None
      | Some (JObj kvs) \<Rightarrow> Some (policy_tail v (JObj kvs))
      | _ \<Rightarrow> Some False)"

section \<open>Versions\<close>

definition VERSION :: regexp where
  "VERSION = re ''^(~d+)~.(~d+)~.(~d+)(?:[-+].*)?$'' ''''"

definition parse_version :: "ustring \<Rightarrow> nat list option" where
  "parse_version s =
     map_option (\<lambda>m. map (\<lambda>n. case rx_group s m n of Some d \<Rightarrow> digits_value d | None \<Rightarrow> 0) [1, 2, 3]) (rx_exec VERSION s 0)"

fun first_difference :: "nat list \<Rightarrow> nat list \<Rightarrow> int" where
  "first_difference (a # as) (b # bs) = (if a \<noteq> b then int a - int b else first_difference as bs)"
| "first_difference _ _ = 0"

definition compareVersions :: "ustring \<Rightarrow> ustring \<Rightarrow> int option" where
  "compareVersions left right =
     (case (parse_version left, parse_version right) of
        (Some a, Some b) \<Rightarrow> Some (first_difference a b) | _ \<Rightarrow> None)"

section \<open>The signed document\<close>

datatype policy_error = UnsignedDocument | KeyNotPinned | InvalidPolicySignature | RunnerTooOld | InvalidRunnerVersion | OtherThrow

definition verifyPolicySignature :: "'k platform \<Rightarrow> json \<Rightarrow> ustring \<Rightarrow> ustring \<Rightarrow> bool" where
  "verifyPolicySignature F payload signature publicKey =
     (case pf_import F (base64_bytes publicKey) of
        None \<Rightarrow> False
      | Some key \<Rightarrow> pf_verify F key (utf8_encode (canonicalizePolicyPayload (pf_number F) payload)) (base64_bytes signature))"

definition version_refusal :: "json \<Rightarrow> ustring \<Rightarrow> policy_error option" where
  "version_refusal document runnerVersion =
     (case field document ''minRunnerVersion'' of
        Some (JStr required) \<Rightarrow>
          (case compareVersions runnerVersion required of
             None \<Rightarrow> Some InvalidRunnerVersion
           | Some d \<Rightarrow> if d < 0 then Some RunnerTooOld else None)
      | _ \<Rightarrow> None)"

definition validateSignedPolicyDocument ::
  "'k platform \<Rightarrow> policy_host \<Rightarrow> json \<Rightarrow> ustring option \<Rightarrow> ustring \<Rightarrow> policy_error + json" where
  "validateSignedPolicyDocument F H parsed pinned runnerVersion =
     (case (field parsed ''policy'', text_of (field parsed ''signature''), text_of (field parsed ''publicKey'')) of
        (Some document, Some signature, Some publicKey) \<Rightarrow>
          if pinned = None \<or> pinned = Some [] \<or> pinned \<noteq> Some publicKey then Inl KeyNotPinned
          else if \<not> isObject document \<or> \<not> verifyPolicySignature F document signature publicKey then Inl InvalidPolicySignature
          else (case version_refusal document runnerVersion of
              Some e \<Rightarrow> Inl e
            | None \<Rightarrow>
                (case isPolicy H document of
                   None \<Rightarrow> Inl OtherThrow
                 | Some valid \<Rightarrow> if valid then Inr document else Inl InvalidPolicySignature))
      | _ \<Rightarrow> Inl UnsignedDocument)"

text \<open>\<open>loadPolicy\<close> of a given path: the bytes of the file, \<open>None\<close> when the read throws.\<close>

definition loadPolicy ::
  "'k platform \<Rightarrow> policy_host \<Rightarrow> nat list option \<Rightarrow> ustring option \<Rightarrow> ustring \<Rightarrow> policy_error + json" where
  "loadPolicy F H contents pinned runnerVersion =
     (case contents of
        None \<Rightarrow> Inl OtherThrow
      | Some bytes \<Rightarrow>
          (case json_parse (pf_text F bytes) of
             None \<Rightarrow> Inl OtherThrow
           | Some parsed \<Rightarrow> validateSignedPolicyDocument F H parsed pinned runnerVersion))"

section \<open>The typed policy\<close>

definition the_text :: "json option \<Rightarrow> ustring" where
  "the_text v = (case text_of v of Some s \<Rightarrow> s | None \<Rightarrow> [])"

definition named :: "(ustring \<times> 'a) list \<Rightarrow> json option \<Rightarrow> 'a list option" where
  "named table v = map_option (List.map_filter (map_of table)) (string_array v)"

definition effect_of :: "json option \<Rightarrow> policy_effect" where
  "effect_of v = (case map_of EFFECTS (the_text v) of Some e \<Rightarrow> e | None \<Rightarrow> Deny)"

definition read_match_rule :: "json \<Rightarrow> policy_match" where
  "read_match_rule m =
     \<lparr>pm_assistants = named ASSISTANTS (field m ''assistants''), pm_events = named EVENTS (field m ''events''),
      pm_actionClasses = named ACTION_CLASSES (field m ''actionClasses''),
      pm_resourcePrefixes = string_array (field m ''resourcePrefixes''), pm_tools = string_array (field m ''tools'')\<rparr>"

definition read_rule :: "json \<Rightarrow> policy_rule" where
  "read_rule v =
     \<lparr>pr_id = the_text (field v ''id''), pr_effect = effect_of (field v ''effect''),
      pr_reason = text_of (field v ''reason''),
      pr_match = read_match_rule (case field v ''match'' of Some m \<Rightarrow> m | None \<Rightarrow> JNull)\<rparr>"

fun floor_of :: "json option \<Rightarrow> int" where
  "floor_of (Some (JNum x)) = \<lfloor>x\<rfloor>"
| "floor_of _ = 0"

definition read_policy :: "json \<Rightarrow> developer_policy" where
  "read_policy v =
     \<lparr>dp_schemaVersion = floor_of (field v ''schemaVersion''), dp_policyId = the_text (field v ''policyId''),
      dp_version = floor_of (field v ''version''), dp_issuedAt = the_text (field v ''issuedAt''),
      dp_expiresAt = the_text (field v ''expiresAt''),
      dp_unknownAction = effect_of (sub_field (field v ''defaults'') ''unknownAction''),
      dp_rules = map read_rule (case array_of (field v ''rules'') of Some rules \<Rightarrow> rules | None \<Rightarrow> [])\<rparr>"

definition observeCapOf :: "json option \<Rightarrow> nat option" where
  "observeCapOf policy =
     (case sub_field (sub_field policy ''workstation'') ''observeMaxMinutes'' of
        Some (JNum x) \<Rightarrow> Some (nat \<lfloor>x\<rfloor>) | _ \<Rightarrow> None)"

section \<open>The observation window\<close>

definition OBSERVE_DURATIONS :: "nat list" where "OBSERVE_DURATIONS = [15, 60, 240, 480]"

definition DEFAULT_OBSERVE_MINUTES :: nat where "DEFAULT_OBSERVE_MINUTES = 60"

definition OBSERVE_WINDOW_MAX_MS :: int where
  "OBSERVE_WINDOW_MAX_MS = int (foldl max 0 OBSERVE_DURATIONS) * 60 * 1000"

definition isObserveMinutes :: "nat \<Rightarrow> bool" where
  "isObserveMinutes n \<longleftrightarrow> n \<in> set OBSERVE_DURATIONS"

definition observeDurationsWithin :: "nat option \<Rightarrow> nat list" where
  "observeDurationsWithin cap = filter (\<lambda>minutes. case cap of None \<Rightarrow> True | Some c \<Rightarrow> minutes \<le> c) OBSERVE_DURATIONS"

definition cappedObserveMinutes :: "nat \<Rightarrow> nat option \<Rightarrow> nat option" where
  "cappedObserveMinutes minutes cap =
     (case cap of
        None \<Rightarrow> Some minutes
      | Some c \<Rightarrow> if c = 0 then None else if minutes \<le> c then Some minutes else Some c)"

definition observeLimitMs :: "nat option \<Rightarrow> int" where
  "observeLimitMs cap =
     (case cap of None \<Rightarrow> OBSERVE_WINDOW_MAX_MS | Some c \<Rightarrow> min OBSERVE_WINDOW_MAX_MS (int c * 60 * 1000))"

text \<open>\<open>Number(text)\<close> where it is finite: the literals of ECMAScript's \<open>StringToNumber\<close>.\<close>

definition decimal_literal :: "ustring \<Rightarrow> rat option" where
  "decimal_literal s =
     (let ip = takeWhile is_digit s; r = dropWhile is_digit s;
          fp = (if r \<noteq> [] \<and> hd r = 46 then takeWhile is_digit (tl r) else []);
          r = (if r \<noteq> [] \<and> hd r = 46 then dropWhile is_digit (tl r) else r);
          mant = rat_of_nat (digits_value (ip @ fp)) / 10 ^ length fp in
      if ip = [] \<and> fp = [] then None
      else if r = [] then Some mant
      else if hd r \<noteq> 101 \<and> hd r \<noteq> 69 then None
      else
        let e = tl r; neg = (e \<noteq> [] \<and> hd e = 45); ds = (if e \<noteq> [] \<and> (hd e = 45 \<or> hd e = 43) then tl e else e) in
        if ds = [] \<or> \<not> list_all is_digit ds then None
        else Some (if neg then mant / 10 ^ digits_value ds else mant * 10 ^ digits_value ds))"

fun radix_value :: "nat \<Rightarrow> nat \<Rightarrow> ustring \<Rightarrow> nat option" where
  "radix_value base acc [] = Some acc"
| "radix_value base acc (c # s) =
     (let d = (if is_digit c then c - 48 else if is_lower_alpha c then c - 87 else if is_upper_alpha c then c - 55 else base)
      in if d < base then radix_value base (acc * base + d) s else None)"

definition text_number :: "ustring \<Rightarrow> rat option" where
  "text_number t =
     (let s = js_trim t; radix = (\<lambda>base. if drop 2 s = [] then None else map_option of_nat (radix_value base 0 (drop 2 s))) in
      if s = [] then Some 0
      else if take 2 s = [48, 120] \<or> take 2 s = [48, 88] then radix 16
      else if take 2 s = [48, 111] \<or> take 2 s = [48, 79] then radix 8
      else if take 2 s = [48, 98] \<or> take 2 s = [48, 66] then radix 2
      else if hd s = 45 then map_option uminus (decimal_literal (tl s))
      else if hd s = 43 then decimal_literal (tl s)
      else decimal_literal s)"

text \<open>The deadline file: its text, \<open>None\<close> when the read throws.\<close>

definition readObserveDeadline :: "ustring option \<Rightarrow> int option" where
  "readObserveDeadline contents =
     (case Option.bind contents text_number of
        None \<Rightarrow> None
      | Some x \<Rightarrow> if x = of_int \<lfloor>x\<rfloor> \<and> 0 < x \<and> x \<le> 9007199254740991 then Some \<lfloor>x\<rfloor> else None)"

definition observeWindowOpen :: "int option \<Rightarrow> int \<Rightarrow> nat option \<Rightarrow> bool" where
  "observeWindowOpen deadline now cap \<longleftrightarrow>
     (case deadline of None \<Rightarrow> False | Some d \<Rightarrow> now < d \<and> d - now \<le> observeLimitMs cap)"

definition effectiveMode :: "protection_mode \<Rightarrow> int option \<Rightarrow> int \<Rightarrow> nat option \<Rightarrow> protection_mode" where
  "effectiveMode mode deadline now cap =
     (if mode \<noteq> ModeObserve then mode else if observeWindowOpen deadline now cap then ModeObserve else ModeRedact)"

datatype window_change = WindowClose | WindowKeep | WindowOpen

definition observeWindowOnModeChange :: "protection_mode \<Rightarrow> int option \<Rightarrow> int \<Rightarrow> nat option \<Rightarrow> window_change" where
  "observeWindowOnModeChange mode deadline now cap =
     (if mode \<noteq> ModeObserve then WindowClose else if observeWindowOpen deadline now cap then WindowKeep else WindowOpen)"

datatype cap_change = CapNone | CapForbid | CapShorten

definition observeCapChange :: "int option \<Rightarrow> int \<Rightarrow> nat option \<Rightarrow> cap_change" where
  "observeCapChange deadline now cap =
     (case cap of
        None \<Rightarrow> CapNone
      | Some c \<Rightarrow>
          if c = 0 then CapForbid
          else case deadline of
            None \<Rightarrow> CapNone
          | Some d \<Rightarrow> if int c * 60 * 1000 < d - now then CapShorten else CapNone)"

text \<open>The file \<open>openObserveWindow\<close> writes, and the deadline it returns.\<close>

definition openObserveWindow :: "int \<Rightarrow> nat \<Rightarrow> ustring \<times> int" where
  "openObserveWindow now minutes =
     (let chosen = (if isObserveMinutes minutes then minutes else DEFAULT_OBSERVE_MINUTES);
          deadline = now + int chosen * 60 * 1000
      in (if deadline < 0 then 45 # decimal (nat (- deadline)) else decimal (nat deadline), deadline))"

section \<open>A loaded policy\<close>

definition policy_wf :: "policy_host \<Rightarrow> developer_policy \<Rightarrow> bool" where
  "policy_wf H p \<longleftrightarrow>
     dp_schemaVersion p = 1 \<and> 1 \<le> length (dp_policyId p) \<and> length (dp_policyId p) \<le> 128 \<and>
     1 \<le> dp_version p \<and> dp_version p \<le> 9007199254740991 \<and>
     (case (ph_date H (dp_issuedAt p), ph_date H (dp_expiresAt p)) of
        (Some issued, Some expires) \<Rightarrow> issued < expires | _ \<Rightarrow> False) \<and>
     length (dp_rules p) \<le> 500 \<and> distinct (map pr_id (dp_rules p)) \<and>
     list_all (\<lambda>rule. rx_test RULE_ID (pr_id rule)) (dp_rules p)"

lemma date_of_text: "date_of H v \<noteq> None \<Longrightarrow> date_of H v = ph_date H (the_text v)"
  by (cases v rule: text_of.cases) (auto simp: the_text_def)

lemma isRule_id: "isRule rule \<Longrightarrow> field rule ''id'' = Some (JStr (pr_id (read_rule rule))) \<and> rx_test RULE_ID (pr_id (read_rule rule))"
  by (auto simp: isRule_def is_string_Some read_rule_def the_text_def)

lemma rules_wf:
  assumes "list_all isRule rules" and "distinct (map (\<lambda>rule. field rule ''id'') rules)"
  shows "distinct (map pr_id (map read_rule rules)) \<and> list_all (\<lambda>rule. rx_test RULE_ID (pr_id rule)) (map read_rule rules)"
proof -
  have "map (\<lambda>rule. field rule ''id'') rules = map (Some \<circ> JStr) (map pr_id (map read_rule rules))"
    using assms(1) isRule_id by (auto simp: list_all_iff)
  with assms(2) have "distinct (map (Some \<circ> JStr) (map pr_id (map read_rule rules)))" by simp
  then have "distinct (map pr_id (map read_rule rules))"
    unfolding map_map [of "Some \<circ> JStr" pr_id, symmetric] by (metis distinct_map)
  moreover have "list_all (\<lambda>rule. rx_test RULE_ID (pr_id rule)) (map read_rule rules)"
    using assms(1) isRule_id by (auto simp: list_all_iff)
  ultimately show ?thesis ..
qed

lemma isPolicy_wf:
  assumes "isPolicy H v = Some True"
  shows "policy_wf H (read_policy v)"
proof -
  from assms obtain kvs where h: "policy_head H v" and t: "policy_tail v (JObj kvs)"
    by (auto simp: isPolicy_def split: if_splits option.splits json.splits)
  from t obtain rules where r: "array_of (field v ''rules'') = Some rules" "length rules \<le> 500" "list_all isRule rules"
    "distinct (map (\<lambda>rule. field rule ''id'') rules)"
    by (auto simp: policy_tail_def split: option.splits)
  from h obtain issued expires where d: "date_of H (field v ''issuedAt'') = Some issued"
    "date_of H (field v ''expiresAt'') = Some expires" "issued < expires"
    by (auto simp: policy_head_def split: option.splits)
  then have "ph_date H (dp_issuedAt (read_policy v)) = Some issued" "ph_date H (dp_expiresAt (read_policy v)) = Some expires"
    using date_of_text [of H "field v ''issuedAt''"] date_of_text [of H "field v ''expiresAt''"]
    by (simp_all add: read_policy_def)
  moreover have "1 \<le> dp_version (read_policy v) \<and> dp_version (read_policy v) \<le> 9007199254740991"
  proof -
    have "safe_version (field v ''version'')" using h by (simp add: policy_head_def)
    then obtain x where x: "field v ''version'' = Some (JNum x)" "x = of_int \<lfloor>x\<rfloor>" "1 \<le> x" "x \<le> 9007199254740991"
      by (auto elim: safe_version.elims)
    from x(3,4) have "1 \<le> \<lfloor>x\<rfloor>" "\<lfloor>x\<rfloor> \<le> 9007199254740991" by linarith+
    then show ?thesis by (simp add: read_policy_def x(1))
  qed
  moreover have "dp_schemaVersion (read_policy v) = 1" "1 \<le> length (dp_policyId (read_policy v)) \<and> length (dp_policyId (read_policy v)) \<le> 128"
    using h by (auto simp: policy_head_def read_policy_def is_string_Some the_text_def)
  moreover have "dp_rules (read_policy v) = map read_rule rules" by (simp add: read_policy_def r(1))
  ultimately show ?thesis using d(3) r(2) rules_wf [OF r(3,4)] by (simp add: policy_wf_def)
qed

lemma isPolicy_cap:
  assumes "isPolicy H v = Some True" and "observeCapOf (Some v) = Some c"
  shows "c \<in> set OBSERVE_CAP_MINUTES"
proof -
  from assms(1) have "isWorkstation (field v ''workstation'')"
    by (auto simp: isPolicy_def policy_tail_def split: if_splits option.splits json.splits)
  with assms(2) show ?thesis
    by (auto simp: observeCapOf_def sub_field_def isWorkstation_def elim!: isObserveCap.elims split: option.splits json.splits)
qed

text \<open>C21: A policy the runner loads is authentic and well-formed: the key of the document is the pinned one, the
  signature verifies over the canonical form of the whole policy, the runner is recent enough, the
  typed policy has unique rule identifiers, a window of validity and bounded fields, and the cap on
  the observation window is one of the five the contract lists.\<close>

theorem loaded_policy_authentic:
  assumes "validateSignedPolicyDocument F H parsed pinned runnerVersion = Inr p"
  shows "\<exists>signature publicKey key. field parsed ''policy'' = Some p \<and> pinned = Some publicKey \<and> publicKey \<noteq> [] \<and>
     field parsed ''publicKey'' = Some (JStr publicKey) \<and> pf_import F (base64_bytes publicKey) = Some key \<and>
     pf_verify F key (utf8_encode (canonicalizePolicyPayload (pf_number F) p)) (base64_bytes signature) \<and>
     version_refusal p runnerVersion = None \<and> policy_wf H (read_policy p) \<and>
     (case observeCapOf (Some p) of None \<Rightarrow> True | Some c \<Rightarrow> c \<in> set OBSERVE_CAP_MINUTES)"
proof -
  have read: "text_of v = Some t \<Longrightarrow> v = Some (JStr t)" for v t by (cases v rule: text_of.cases) auto
  from assms obtain signature publicKey where
    f: "field parsed ''policy'' = Some p" "field parsed ''publicKey'' = Some (JStr publicKey)"
      "pinned = Some publicKey" "publicKey \<noteq> []"
    and v: "verifyPolicySignature F p signature publicKey" "version_refusal p runnerVersion = None" "isPolicy H p = Some True"
    by (auto simp: validateSignedPolicyDocument_def dest!: read split: option.splits if_splits)
  from v(1) obtain key where k: "pf_import F (base64_bytes publicKey) = Some key"
      "pf_verify F key (utf8_encode (canonicalizePolicyPayload (pf_number F) p)) (base64_bytes signature)"
    by (auto simp: verifyPolicySignature_def split: option.splits)
  have cap: "case observeCapOf (Some p) of None \<Rightarrow> True | Some c \<Rightarrow> c \<in> set OBSERVE_CAP_MINUTES"
    using isPolicy_cap [OF v(3)] by (simp split: option.split)
  show ?thesis using f k v(2) isPolicy_wf [OF v(3)] cap by blast
qed

definition sample_policy :: json where
  "sample_policy = JObj [(js ''schemaVersion'', JNum 1), (js ''policyId'', JStr (js ''p'')), (js ''version'', JNum 3),
     (js ''issuedAt'', JStr (js ''0'')), (js ''expiresAt'', JStr (js ''1'')),
     (js ''defaults'', JObj [(js ''unknownAction'', JStr (js ''deny''))]), (js ''rules'', JArr []),
     (js ''workstation'', JObj [(js ''observeMaxMinutes'', JNum 15)])]"

definition sample_document :: json where
  "sample_document = JObj [(js ''policy'', sample_policy), (js ''signature'', JStr []), (js ''publicKey'', JStr (js ''k''))]"

definition signing_platform :: "nat platform" where
  "signing_platform = \<lparr>pf_sha256 = \<lambda>_. [], pf_import = \<lambda>_. Some 7, pf_verify = \<lambda>key _ _. key = 7, pf_text = \<lambda>b. b, pf_number = \<lambda>_. []\<rparr>"

definition sample_dates :: policy_host where
  "sample_dates = \<lparr>ph_cwd = [47], ph_lower = (\<lambda>s. s), ph_date = (\<lambda>s. Some (int (digits_value s)))\<rparr>"

lemma sample_policy_valid: "validateSignedPolicyDocument signing_platform sample_dates sample_document (Some (js ''k'')) (js ''1.0.0'') = Inr sample_policy"
proof -
  have head: "policy_head sample_dates sample_policy"
    by (simp add: policy_head_def sample_policy_def sample_dates_def isObject_def exactKeys_def field_def obj_get_def digits_value_def js_def)
  have tail: "policy_tail sample_policy (JObj [(js ''unknownAction'', JStr (js ''deny''))])"
    by (simp add: policy_tail_def sample_policy_def exactKeys_def field_def obj_get_def isEffect_def EFFECTS_def isWorkstation_def
        isObject_def OBSERVE_CAP_MINUTES_def js_def)
  have "isPolicy sample_dates sample_policy = Some True"
    unfolding isPolicy_def using head tail by (simp add: sample_policy_def field_def obj_get_def)
  then show ?thesis
    by (simp add: validateSignedPolicyDocument_def sample_document_def field_def obj_get_def verifyPolicySignature_def signing_platform_def)
      (simp add: sample_policy_def version_refusal_def field_def obj_get_def isObject_def js_def)
qed

theorem loaded_policy_authentic_witness:
  "policy_wf sample_dates (read_policy sample_policy) \<and> observeCapOf (Some sample_policy) = Some 15"
proof -
  have "observeCapOf (Some sample_policy) = Some 15"
    by (simp add: observeCapOf_def sub_field_def sample_policy_def field_def obj_get_def)
  then show ?thesis using loaded_policy_authentic [OF sample_policy_valid] by blast
qed

section \<open>The window\<close>

lemma window_max: "OBSERVE_WINDOW_MAX_MS = 28800000"
  by (simp add: OBSERVE_WINDOW_MAX_MS_def OBSERVE_DURATIONS_def)

lemma window_bounded:
  assumes "effectiveMode mode deadline now cap = ModeObserve"
  shows "mode = ModeObserve \<and> (\<exists>d. deadline = Some d \<and> now < d \<and> d - now \<le> 28800000 \<and>
    (case cap of None \<Rightarrow> True | Some c \<Rightarrow> d - now \<le> int c * 60000))"
  using assms by (auto simp: effectiveMode_def observeWindowOpen_def observeLimitMs_def window_max split: if_splits option.splits)

lemma decimal_literal_digits:
  assumes "list_all is_digit s" and "s \<noteq> []"
  shows "decimal_literal s = Some (of_nat (digits_value s))"
proof -
  have t: "takeWhile is_digit s = s" "dropWhile is_digit s = []"
    using assms(1) by (simp_all add: takeWhile_eq_all_conv dropWhile_eq_Nil_conv list_all_iff)
  show ?thesis using assms(2) by (simp add: decimal_literal_def t Let_def)
qed

lemma text_number_decimal: "text_number (decimal n) = Some (of_nat n)"
proof -
  note d = decimal_facts [of n]
  have space: "\<not> is_js_space c" if "is_digit c" for c using that by (auto simp: is_digit_def is_js_space_def)
  have "dropWhile is_js_space s = s" if "list_all is_digit s" for s
    using that space by (cases s) auto
  then have trim: "js_trim (decimal n) = decimal n" using d by (simp add: js_trim_def)
  obtain c s where c: "decimal n = c # s" "is_digit c" "list_all is_digit s" using d by (cases "decimal n") auto
  then have "hd (decimal n) \<noteq> 45" "hd (decimal n) \<noteq> 43" by (auto simp: is_digit_def)
  moreover have "take 2 (decimal n) = [c, e] \<Longrightarrow> is_digit e" for e using c by (cases s) auto
  then have "take 2 (decimal n) \<noteq> [48, e]" if "\<not> is_digit e" for e using that c by (cases s) auto
  then have "take 2 (decimal n) \<noteq> [48, 120]" "take 2 (decimal n) \<noteq> [48, 88]" "take 2 (decimal n) \<noteq> [48, 111]"
    "take 2 (decimal n) \<noteq> [48, 79]" "take 2 (decimal n) \<noteq> [48, 98]" "take 2 (decimal n) \<noteq> [48, 66]"
    by (simp_all add: is_digit_def)
  ultimately show ?thesis
    using decimal_literal_digits [of "decimal n"] d by (simp add: text_number_def trim Let_def)
qed

text \<open>C40: A window lasts as chosen: opened with a length the cap leaves, its deadline file reads back, and the
  hook warns instead of redacting exactly until the deadline, never past eight hours.\<close>

theorem observe_until_deadline:
  assumes "isObserveMinutes minutes" and "cappedObserveMinutes minutes cap = Some m"
    and "isObserveMinutes m" and "0 \<le> now" and "now \<le> 9007199200000000"
    and "openObserveWindow now m = (contents, d)" and "now \<le> t"
  shows "readObserveDeadline (Some contents) = Some d \<and> d \<le> now + 28800000 \<and>
    (effectiveMode ModeObserve (readObserveDeadline (Some contents)) t cap = ModeObserve \<longleftrightarrow> t < d)"
proof -
  have m: "m \<in> set OBSERVE_DURATIONS" using assms(3) by (simp add: isObserveMinutes_def)
  then have small: "15 \<le> m" "m \<le> 480" by (auto simp: OBSERVE_DURATIONS_def)
  have d: "d = now + int m * 60000" "contents = decimal (nat d)"
    using assms(3,4,6) by (auto simp: openObserveWindow_def Let_def)
  have bounds: "0 < d" "d \<le> 9007199254740991" "d \<le> now + 28800000" using d(1) small assms(4,5) by linarith+
  have "readObserveDeadline (Some contents) = Some d"
    using bounds by (simp add: readObserveDeadline_def d(2) text_number_decimal)
  moreover have "d - t \<le> observeLimitMs cap"
  proof (cases cap)
    case None
    with bounds(3) assms(7) show ?thesis by (simp add: observeLimitMs_def window_max)
  next
    case (Some c)
    with assms(2) have "m \<le> c" by (auto simp: cappedObserveMinutes_def split: if_splits)
    with Some bounds(3) d(1) assms(7) show ?thesis by (simp add: observeLimitMs_def window_max)
  qed
  ultimately show ?thesis using bounds(3) by (simp add: effectiveMode_def observeWindowOpen_def)
qed

theorem observe_until_deadline_witness:
  "effectiveMode ModeObserve (readObserveDeadline (Some (fst (openObserveWindow 1000 15)))) 1001 (Some 15) = ModeObserve"
proof -
  have "openObserveWindow 1000 15 = (fst (openObserveWindow 1000 15), 901000)"
    by (simp add: openObserveWindow_def isObserveMinutes_def OBSERVE_DURATIONS_def Let_def)
  then have "effectiveMode ModeObserve (readObserveDeadline (Some (fst (openObserveWindow 1000 15)))) 1001 (Some 15) = ModeObserve
      \<longleftrightarrow> (1001 :: int) < 901000"
    by (intro observe_until_deadline [of 60 "Some 15" 15 1000, THEN conjunct2, THEN conjunct2])
      (simp_all add: isObserveMinutes_def OBSERVE_DURATIONS_def cappedObserveMinutes_def)
  then show ?thesis by simp
qed

end
