(* ===== verification/Spec2Isabelle.thy ===== *)
theory Spec2Isabelle
  imports Encoding Rules_Pack Mapping_Correct Hidden Scanner_Correct Hook_Policy Rules_Ranges Audit_Queue
    Relay_Safety Rules_History Prompt_Hook_Correct Policy_Store
begin

text \<open>
  A verification of the Secret Guard of this repository: the scanner that keeps secrets out of
  prompts, the signed rules packs that extend it, the local relay that cleans requests, the developer
  policy and hooks that decide what an assistant may do, and the audit queue.  Sources are named under
  \<open>src/secret-guard/packages\<close>.

  \<^bold>\<open>The program.\<close>  A text reaches \<open>scan\<close> (core) from the command line, the editor, a hook or the relay.
  The scanner runs the built-in rules (\<open>rules.ts\<close>) and the detectors of the applied rules pack
  (\<open>custom/\<close>) on the text and on offset-preserving views of it (\<open>mapping.ts\<close>, \<open>encoding.ts\<close>), merges the
  findings, scores them and decides \<open>ALLOW\<close>, \<open>WARN\<close> or \<open>BLOCK\<close>; \<open>redactAndRescan\<close> replaces the
  findings by markers and scans again.  A rules pack comes from the platform or from a file, signed;
  the runner verifies it against the keys of the build and the recorded history before the scanner uses
  it.  Adapters read the hook inputs of three hosts, the policy decides, and the events wait in a
  bounded queue for the platform.

  \<^bold>\<open>Data.\<close>  A JavaScript string is the list of its UTF-16 code units (\<open>Js_String\<close>), so lengths, slices
  and offsets are the program's; JSON values keep the members of an object in order (\<open>Json\<close>); an
  exception is the left value of a sum or \<open>None\<close>; an object with mutable fields is a record passed
  and returned; a \<open>Map\<close> is an association list in insertion order.

  \<^bold>\<open>Theories and sources.\<close>
  \<^item> \<open>Prelude\<close>, \<open>Js_String\<close>, \<open>Unicode\<close>, \<open>Json\<close>, \<open>Json_Print\<close>: lists, strings and UTF-8, the Unicode
    parameters, \<open>JSON.parse\<close> and \<open>JSON.stringify\<close> with the order of own members, and the round trip
    between them.
  \<^item> \<open>Sha256\<close> (core/src/sha256.ts): the class on 32-bit words; equal to the FIPS 180-4 definition.
  \<^item> \<open>Risk\<close>, \<open>Encoding\<close> (types.ts, risk.ts, text.ts, encoding.ts): decisions, scores, admission, Base64
    and JWT decoding with its budget.
  \<^item> \<open>Work\<close>, \<open>Pattern_Syntax\<close>, \<open>Pattern_Match\<close> (custom/work.ts, custom/pattern.ts): the meter, the parser and
    validator of safe patterns, anchors, and the backtracking matcher, equal to the ECMAScript semantics.
  \<^item> \<open>Terms\<close>, \<open>Rules_Schema\<close>, \<open>Detect\<close>, \<open>Detect_Correct\<close>, \<open>Detect_All\<close>, \<open>Rules_Pack\<close> (custom/terms.ts, schema.ts,
    detect.ts, pack.ts): the confidential terms, the contract's validator, the detection (anchored
    search and shared hashing pass against their definitions), the compilation with self-tests.
  \<^item> \<open>Mapping_View\<close>, \<open>Mapping_Correct\<close>, \<open>Hidden\<close> (mapping.ts, hidden.ts): views with their offset arrays, lines
    and columns, hidden characters.
  \<^item> \<open>Scanner_Windows\<close>, \<open>Scanner\<close>, \<open>Scanner_Correct\<close>, \<open>Scanner_Engine\<close> (scanner.ts): windows, layers,
    deduplication, redaction, results; what the scanner promises for any built-in rules that meet the
    locale of \<open>Scanner_Engine\<close>.
  \<^item> \<open>Regexp\<close>, \<open>Regexp_Correct\<close>, \<open>Rules_Table\<close>, \<open>Rules_Value\<close>, \<open>Rules_Scan\<close>, \<open>Rules_Correct\<close>, \<open>Rules_Ranges\<close>
    (rules.ts): ECMAScript regular expressions parsed from the literals of the source, the table of
    formats, the values of assignments, the detectors; \<open>builtin_engine\<close> interprets the scanner's locale.
  \<^item> \<open>Policy\<close>, \<open>Policy_Correct\<close>, \<open>Hook_Policy\<close> (policy, adapters, runner): actions, commands, paths, rules,
    the hosts' inputs and answers, quality gates and the controlled read of a resource.
  \<^item> \<open>Audit_Queue\<close> (vscode/src/gateway-client.ts): the queue as a state machine of enqueue and flush steps.
  \<^item> \<open>Relay\<close>, \<open>Relay_Correct\<close>, \<open>Relay_Safety\<close> (relay/src/clean.ts): the walk of a request, the cache of
    analyses (locale \<open>analysis_memo\<close>, interpreted by the cache), and what is forwarded (locale
    \<open>sound_analysis\<close>, interpreted by the scanner's analysis).
  \<^item> \<open>Rules_Trust\<close>, \<open>Rules_Sync\<close>, \<open>Rules_Trust_Correct\<close>, \<open>Rules_State\<close>, \<open>Rules_History\<close> (runner/src/rules-pack.ts,
    vscode/src/rules-pack-sync.ts): authority keys, the signed envelope, the acceptance, the state file
    and the operations on it, as a reachability relation over the two files of the storage folder.

  \<^item> \<open>Prompt_Hook\<close>, \<open>Prompt_Hook_Correct\<close> (cli/src/hook.ts, file-guard.ts): the answer to a prompt with the files
    it mentions, or to a read, in the three protection modes; a message is a constructor that names its
    wording and carries what the wording mentions.
  \<^item> \<open>Policy_Store\<close> (runner/src/policy-store.ts, policy-signature.ts, vscode/src/observe-window.ts): the signed
    policy of the organisation and the window of the observation mode, which the policy may only shorten.

  \<^bold>\<open>What the theorems show.\<close>  The optimised routines equal their definitions (matcher, terms, detection,
  digest, path prefix, cached relay); what is allowed or released holds no secret of a fixed format, and
  what the relay forwards neither; a pack only adds findings; an incomplete scan never allows; ranges
  lie in the text; merging and deduplication lose no range; the loops end; hooks allow only what the policy
  allows; the queue loses nothing but what it counts as dropped; an accepted pack is signed, compiled
  and never older than what was recorded, over any sequence of operations; outside the observation
  window the hook passes only texts without a secret of a fixed format and without hidden characters; a
  loaded policy is signed by the pinned key and well formed.

  \<^bold>\<open>Fuel.\<close>  \<open>json_parse\<close> runs with twice the length of the text plus two, which every call decreases
  while it reads; the round trip shows that it suffices for every printed value.  The matcher of safe
  patterns and the scanner's loops need none: a measure or the structure ends them.  Regular expressions
  of the source are bounded by the length of the text, and \<open>detector_loops_move_on\<close> shows the \<open>exec\<close>
  loops advance.

  \<^bold>\<open>Parameters.\<close>  Unicode tables (NFKC, NFKD, case, properties), the engine's own \<open>RegExp\<close> for native
  detectors, the \<open>URL\<close> parser, \<open>localeCompare\<close>, \<open>Date.parse\<close>, the working directory and the file system,
  the answers of the network and of the storage, \<open>node:crypto\<close>, lossy UTF-8 decoding, and the printing of
  numbers.  A property that needs a law of one of them names it; its witness gives an instance.

  \<^bold>\<open>Abstractions.\<close>  JSON numbers are rationals, so a literal beyond double precision keeps its value.
  Entropy is over the reals.  A stack overflow on extremely nested input is not modelled.  Members of
  a state entry the code never reads are dropped.  An operation of the rules pack synchronisation is
  one step: two windows that interleave their reads and writes are not modelled.

  \<^bold>\<open>Not modelled.\<close>  The website (\<open>frontend\<close>: pages, copy, glossary and strings are presentation), the films,
  the editor's glue (\<open>extension.ts\<close>, views, host configuration files, hook and relay processes), HTTP
  calls, the command line's printing, the Python services and the SQL schema (other languages), and the
  tests.
\<close>

end
